(* ===== verification/Prelude.thy ===== *)
theory Prelude
  imports Main "HOL-Library.AList" "HOL-Library.Word" "HOL-Library.Sublist"
begin

text \<open>
  Shared vocabulary of the development.
  \<^item> \<open>outcome\<close>: the result of a Go call that may panic (nil dereference, index out of
    range, call of a nil function value, an explicit \<open>panic\<close>).
  \<^item> \<open>gomap\<close>: a Go map as an association list with distinct keys. The order of the list is
    one order in which a \<open>range\<close> over the map may visit it; a theorem about every
    list is a theorem about every iteration order.
  \<^item> machine integers: Go's \<open>int\<close>, \<open>int64\<close>, \<open>uint64\<close> and \<open>time.Duration\<close> are 64-bit
    words, \<open>uint32\<close> is a 32-bit word.
  The collections \<open>go_simps\<close> (unfolding of the vocabulary) and \<open>gomap_simps\<close> carry the
  proofs of the component theories.
\<close>

named_theorems go_simps
named_theorems gomap_simps

section \<open>Panics\<close>

datatype go_panic =
    NilDeref
  | NilFuncCall
  | NilMapWrite
  | TypeAssertion
  | IndexOutOfRange
  | ExplicitPanic string

datatype 'a outcome = Done 'a | Panics go_panic

fun bind_outcome :: "'a outcome \<Rightarrow> ('a \<Rightarrow> 'b outcome) \<Rightarrow> 'b outcome" where
  "bind_outcome (Done a) f = f a"
| "bind_outcome (Panics p) f = Panics p"

fun map_done :: "('a \<Rightarrow> 'b) \<Rightarrow> 'a outcome \<Rightarrow> 'b outcome" where
  "map_done f (Done a) = Done (f a)"
| "map_done f (Panics p) = Panics p"

fun is_done :: "'a outcome \<Rightarrow> bool" where
  "is_done (Done _) = True"
| "is_done (Panics _) = False"

text \<open>A loop whose body may panic, run over the elements in order with a state.\<close>

fun fold_outcome :: "('a \<Rightarrow> 's \<Rightarrow> 's outcome) \<Rightarrow> 'a list \<Rightarrow> 's \<Rightarrow> 's outcome" where
  "fold_outcome f [] s = Done s"
| "fold_outcome f (x # xs) s = bind_outcome (f x s) (fold_outcome f xs)"

fun map_outcome :: "('a \<Rightarrow> 'b outcome) \<Rightarrow> 'a list \<Rightarrow> 'b list outcome" where
  "map_outcome f [] = Done []"
| "map_outcome f (x # xs) =
     bind_outcome (f x) (\<lambda>y. bind_outcome (map_outcome f xs) (\<lambda>ys. Done (y # ys)))"

text \<open>Dereferencing a pointer that may be nil.\<close>

fun deref :: "'a option \<Rightarrow> 'a outcome" where
  "deref None = Panics NilDeref"
| "deref (Some a) = Done a"

lemma bind_outcome_eq_Done [go_simps]:
  "bind_outcome m f = Done b \<longleftrightarrow> (\<exists>a. m = Done a \<and> f a = Done b)"
  by (cases m) auto

lemma bind_outcome_assoc:
  "bind_outcome (bind_outcome m f) g = bind_outcome m (\<lambda>a. bind_outcome (f a) g)"
  by (cases m) auto

lemma is_done_bind [go_simps]:
  "is_done (bind_outcome m f) \<longleftrightarrow> (\<exists>a. m = Done a \<and> is_done (f a))"
  by (cases m) auto

lemma is_done_iff: "is_done m \<longleftrightarrow> (\<exists>a. m = Done a)"
  by (cases m) auto

lemma is_done_deref [simp]: "is_done (deref p) \<longleftrightarrow> p \<noteq> None"
  by (cases p) auto

lemma deref_eq_Done [simp]: "deref p = Done a \<longleftrightarrow> p = Some a"
  by (cases p) auto

lemma is_done_map_outcome [go_simps]:
  "is_done (map_outcome f xs) \<longleftrightarrow> list_all (\<lambda>x. is_done (f x)) xs"
  by (induction xs) (auto simp: go_simps is_done_iff)

lemma map_outcome_Done:
  "(\<And>x. x \<in> set xs \<Longrightarrow> f x = Done (g x)) \<Longrightarrow> map_outcome f xs = Done (map g xs)"
  by (induction xs) auto

lemma fold_outcome_append:
  "fold_outcome f (xs @ ys) s = bind_outcome (fold_outcome f xs s) (fold_outcome f ys)"
proof (induction xs arbitrary: s)
  case Nil
  then show ?case by simp
next
  case (Cons x xs)
  then have "fold_outcome f (xs @ ys) =
      (\<lambda>s. bind_outcome (fold_outcome f xs s) (fold_outcome f ys))"
    by blast
  then show ?case by (simp add: bind_outcome_assoc)
qed

lemma bind_outcome_Done: "bind_outcome m Done = m"
  by (cases m) simp_all

lemma fold_outcome_snoc: "fold_outcome f (xs @ [x]) s = bind_outcome (fold_outcome f xs s) (f x)"
proof -
  have "fold_outcome f [] = Done" by (rule ext) simp
  then have "fold_outcome f [x] = f x" by (intro ext) (simp add: bind_outcome_Done)
  then show ?thesis by (simp add: fold_outcome_append)
qed

lemma fold_outcome_Done:
  "(\<And>x s. x \<in> set xs \<Longrightarrow> f x s = Done (g x s)) \<Longrightarrow> fold_outcome f xs s = Done (fold g xs s)"
  by (induction xs arbitrary: s) auto

text \<open>An invariant of the body is an invariant of the loop.\<close>

lemma fold_outcome_invariant:
  assumes "fold_outcome f xs s = Done t" and "I s"
    and "\<And>x s t. x \<in> set xs \<Longrightarrow> I s \<Longrightarrow> f x s = Done t \<Longrightarrow> I t"
  shows "I t"
  using assms
proof (induction xs arbitrary: s)
  case Nil
  then show ?case by simp
next
  case (Cons x xs)
  from Cons.prems(1) obtain u where u: "f x s = Done u" "fold_outcome f xs u = Done t"
    by (auto simp: go_simps)
  from Cons.prems(3) [OF _ Cons.prems(2) u(1)] have "I u" by simp
  with u(2) Cons.prems(3) show ?case by (auto intro: Cons.IH)
qed

text \<open>A body that refines a function on an abstraction refines its fold.\<close>

lemma fold_outcome_refines:
  assumes "fold_outcome f xs s = Done t" and "I s"
    and "\<And>x u v. I u \<Longrightarrow> f x u = Done v \<Longrightarrow> I v \<and> ab v = g x (ab u)"
  shows "I t \<and> ab t = fold g xs (ab s)"
  using assms(1,2)
proof (induction xs arbitrary: s)
  case (Cons x xs)
  from Cons.prems(1) obtain u where u: "f x s = Done u" "fold_outcome f xs u = Done t"
    by (auto simp: go_simps)
  from assms(3) [OF Cons.prems(2) u(1)] Cons.IH [OF u(2)] show ?case by simp
qed simp

section \<open>Go maps\<close>

type_synonym ('k, 'v) gomap = "('k \<times> 'v) list"

abbreviation gomap_get :: "('k, 'v) gomap \<Rightarrow> 'k \<Rightarrow> 'v option" where
  "gomap_get m k \<equiv> map_of m k"

abbreviation gomap_set :: "'k \<Rightarrow> 'v \<Rightarrow> ('k, 'v) gomap \<Rightarrow> ('k, 'v) gomap" where
  "gomap_set k v m \<equiv> AList.update k v m"

abbreviation gomap_del :: "'k \<Rightarrow> ('k, 'v) gomap \<Rightarrow> ('k, 'v) gomap" where
  "gomap_del k m \<equiv> AList.delete k m"

abbreviation gomap_keys :: "('k, 'v) gomap \<Rightarrow> 'k list" where
  "gomap_keys m \<equiv> map fst m"

definition gomap_ok :: "('k, 'v) gomap \<Rightarrow> bool" where
  "gomap_ok m \<longleftrightarrow> distinct (map fst m)"

text \<open>A Go map indexed by an absent key gives the zero value of the element type.\<close>

definition gomap_index :: "'v \<Rightarrow> ('k, 'v) gomap \<Rightarrow> 'k \<Rightarrow> 'v" where
  "gomap_index zero m k = (case map_of m k of None \<Rightarrow> zero | Some v \<Rightarrow> v)"

text \<open>Two lists that are the same Go map: the same keys with the same values.\<close>

definition gomap_eq :: "('k, 'v) gomap \<Rightarrow> ('k, 'v) gomap \<Rightarrow> bool" where
  "gomap_eq m n \<longleftrightarrow> gomap_ok m \<and> gomap_ok n \<and> set m = set n"

lemma gomap_ok_Nil [simp]: "gomap_ok []"
  by (simp add: gomap_ok_def)

lemma gomap_ok_set [simp]: "gomap_ok m \<Longrightarrow> gomap_ok (gomap_set k v m)"
  by (simp add: gomap_ok_def distinct_update)

lemma gomap_ok_del [simp]: "gomap_ok m \<Longrightarrow> gomap_ok (gomap_del k m)"
  by (simp add: gomap_ok_def distinct_delete)

lemma gomap_get_set [gomap_simps]: "map_of (gomap_set k v m) = (map_of m)(k \<mapsto> v)"
  by (simp add: update_conv')

lemma gomap_get_del [gomap_simps]: "map_of (gomap_del k m) = (map_of m)(k := None)"
  by (simp add: delete_conv')

lemma gomap_keys_set: "fst ` set m = dom (map_of m)"
  by (simp add: dom_map_of_conv_image_fst)

lemma gomap_eq_get: "gomap_eq m n \<Longrightarrow> map_of m = map_of n"
  by (metis gomap_eq_def gomap_ok_def map_of_inject_set)

lemma gomap_eq_keys: "gomap_eq m n \<Longrightarrow> set (map fst m) = set (map fst n)"
  by (simp add: gomap_eq_def)

lemma gomap_eq_length: "gomap_eq m n \<Longrightarrow> length m = length n"
  by (metis gomap_eq_def gomap_ok_def distinct_card distinct_map)

lemma gomap_eq_sym: "gomap_eq m n \<Longrightarrow> gomap_eq n m"
  by (auto simp: gomap_eq_def)

text \<open>Inserting a list of pairs, as a loop over a map that stores into another one does.\<close>

lemma map_of_fold_update:
  "distinct (map fst ps) \<Longrightarrow>
   map_of (fold (\<lambda>(k, v). gomap_set k v) ps m) = map_of m ++ map_of ps"
proof (induction ps arbitrary: m)
  case Nil
  then show ?case by simp
next
  case (Cons p ps)
  obtain k v where p: "p = (k, v)" by (cases p)
  with Cons.prems have k: "map_of ps k = None" and d: "distinct (map fst ps)"
    by (auto simp: map_of_eq_None_iff)
  show ?case
    using Cons.IH [OF d, of "gomap_set k v m"] k
    by (auto simp: p gomap_simps map_add_def fun_eq_iff split: option.splits)
qed

section \<open>Machine integers\<close>

type_synonym int64 = "64 word"
type_synonym uint64 = "64 word"
type_synonym uint32 = "32 word"

abbreviation "max_int64 \<equiv> (9223372036854775807 :: int)"
abbreviation "min_int64 \<equiv> (- 9223372036854775808 :: int)"

text \<open>Go compares \<open>int\<close> values as signed numbers.\<close>

definition int64_less :: "int64 \<Rightarrow> int64 \<Rightarrow> bool" where
  "int64_less a b \<longleftrightarrow> sint a < sint b"

lemma sint_int64_bounds: "min_int64 \<le> sint (x :: int64)" "sint (x :: int64) \<le> max_int64"
  using sint_ge [of x] sint_lt [of x] by simp_all

lemma sint_of_int64:
  assumes "min_int64 \<le> i" "i \<le> max_int64"
  shows "sint (of_int i :: int64) = i"
proof -
  have "sint (of_int i :: int64) = signed_take_bit (LENGTH(64) - 1) i"
    by (simp add: signed_of_int)
  also have "\<dots> = i"
    using assms by (intro signed_take_bit_int_eq_self) simp_all
  finally show ?thesis .
qed

section \<open>Lists\<close>

lemma filter_eq_self: "(\<And>x. x \<in> set xs \<Longrightarrow> P x) \<Longrightarrow> filter P xs = xs"
  by (simp add: filter_id_conv)

lemma dropWhile_eq_self: "xs = [] \<or> \<not> P (hd xs) \<Longrightarrow> dropWhile P xs = xs"
  by (cases xs) auto

lemma dropWhile_Nil_or_hd: "dropWhile P xs = [] \<or> \<not> P (hd (dropWhile P xs))"
  using hd_dropWhile by blast

text \<open>The selected elements of a list have distinct images if equal images come from one position.\<close>

lemma distinct_map_filter_nth:
  assumes "\<And>a b. a < length xs \<Longrightarrow> b < length xs \<Longrightarrow> P (xs ! a) \<Longrightarrow> P (xs ! b) \<Longrightarrow>
    f (xs ! a) = f (xs ! b) \<Longrightarrow> a = b"
  shows "distinct (map f (filter P xs))"
  using assms
proof (induction xs)
  case (Cons x xs)
  have "distinct (map f (filter P xs))"
  proof (rule Cons.IH)
    fix a b
    assume "a < length xs" "b < length xs" "P (xs ! a)" "P (xs ! b)" "f (xs ! a) = f (xs ! b)"
    with Cons.prems [of "Suc a" "Suc b"] show "a = b" by simp
  qed
  moreover have "f x \<notin> set (map f (filter P xs))" if "P x"
  proof
    assume "f x \<in> set (map f (filter P xs))"
    then obtain b where "b < length xs" "P (xs ! b)" "f x = f (xs ! b)"
      by (auto simp: in_set_conv_nth)
    with Cons.prems [of 0 "Suc b"] that show False by simp
  qed
  ultimately show ?case by simp
qed simp

end
