(* ===== verification/GoStrings.thy ===== *)
theory GoStrings
  imports Prelude "HOL-Library.Char_ord" "HOL-Library.List_Lexorder"
begin

text \<open>
  The functions of Go's \<open>strings\<close>, \<open>strconv\<close> and \<open>sort\<close> packages that the gateway calls,
  on byte strings (\<open>string\<close> is a list of bytes, as a Go string is). \<open>split_on\<close> is
  \<open>strings.Split\<close> with a one-byte separator, \<open>trim_char\<close> is \<open>strings.Trim\<close> with a one-byte
  cutset, \<open>TrimSpace\<close> knows the UTF-8 encodings of all Unicode space characters, \<open>Atoi\<close>
  and \<open>Itoa\<close> read and print decimal 64-bit integers, and \<open>sort_strings\<close> is
  \<open>sort.Strings\<close>. The lemmas are the laws the components rely on: splitting and joining
  are inverse, trimming is idempotent, reading a printed number gives it back, sorting is
  insensitive to the order of its input.
\<close>

section \<open>Splitting and joining\<close>

fun split_on :: "char \<Rightarrow> string \<Rightarrow> string list" where
  "split_on c [] = [[]]"
| "split_on c (x # xs) =
     (if x = c then [] # split_on c xs
      else (case split_on c xs of [] \<Rightarrow> [[x]] | p # ps \<Rightarrow> (x # p) # ps))"

fun join_with :: "string \<Rightarrow> string list \<Rightarrow> string" where
  "join_with sep [] = []"
| "join_with sep [p] = p"
| "join_with sep (p # ps) = p @ sep @ join_with sep ps"

lemma split_on_not_Nil [simp]: "split_on c s \<noteq> []"
  by (induction s) (auto split: list.splits)

lemma join_with_Cons: "ps \<noteq> [] \<Longrightarrow> join_with sep (p # ps) = p @ sep @ join_with sep ps"
  by (cases ps) auto

lemma join_split_on: "join_with [c] (split_on c s) = s"
proof (induction s)
  case Nil
  then show ?case by simp
next
  case (Cons x xs)
  obtain p ps where ps: "split_on c xs = p # ps"
    by (cases "split_on c xs") auto
  with Cons show ?case
    by (cases ps) auto
qed

lemma split_on_parts: "p \<in> set (split_on c s) \<Longrightarrow> c \<notin> set p"
  by (induction s arbitrary: p) (auto split: list.splits if_splits)

lemma split_on_no_sep: "c \<notin> set s \<Longrightarrow> split_on c s = [s]"
  by (induction s) auto

lemma split_on_append: "c \<notin> set p \<Longrightarrow> split_on c (p @ c # s) = p # split_on c s"
  by (induction p) auto

lemma split_on_join:
  assumes "ps \<noteq> []" and "\<forall>p \<in> set ps. c \<notin> set p"
  shows "split_on c (join_with [c] ps) = ps"
  using assms
proof (induction ps)
  case Nil
  then show ?case by simp
next
  case (Cons p ps)
  then show ?case
    by (cases ps) (auto simp: split_on_no_sep split_on_append)
qed

lemma split_on_append_sep: "split_on c (p @ c # q) = split_on c p @ split_on c q"
proof (induction p)
  case Nil
  then show ?case by simp
next
  case (Cons x p)
  obtain y ys where "split_on c p = y # ys"
    by (cases "split_on c p") auto
  with Cons show ?case by simp
qed

lemma last_split_on_append: "c \<notin> set q \<Longrightarrow> last (split_on c (p @ c # q)) = q"
  by (simp add: split_on_append_sep split_on_no_sep)

section \<open>Trimming\<close>

definition trim_left_char :: "char \<Rightarrow> string \<Rightarrow> string" where
  "trim_left_char c s = dropWhile (\<lambda>x. x = c) s"

definition trim_right_char :: "char \<Rightarrow> string \<Rightarrow> string" where
  "trim_right_char c s = rev (dropWhile (\<lambda>x. x = c) (rev s))"

definition trim_char :: "char \<Rightarrow> string \<Rightarrow> string" where
  "trim_char c s = trim_right_char c (trim_left_char c s)"

lemma trim_right_char_id: "s = [] \<or> last s \<noteq> c \<Longrightarrow> trim_right_char c s = s"
  by (cases s rule: rev_cases) (auto simp: trim_right_char_def)

lemma trim_right_char_last:
  "trim_right_char c s = [] \<or> last (trim_right_char c s) \<noteq> c"
  unfolding trim_right_char_def
  using dropWhile_Nil_or_hd [of "\<lambda>x. x = c" "rev s"]
  by (auto simp: last_rev)

lemma trim_right_char_hd:
  "s = [] \<or> hd s \<noteq> c \<Longrightarrow> trim_right_char c s = [] \<or> hd (trim_right_char c s) \<noteq> c"
proof -
  assume h: "s = [] \<or> hd s \<noteq> c"
  obtain t where t: "s = trim_right_char c s @ t"
    unfolding trim_right_char_def
    by (metis rev_append rev_rev_ident takeWhile_dropWhile_id)
  show ?thesis
  proof (cases "trim_right_char c s")
    case Nil
    then show ?thesis by simp
  next
    case (Cons x xs)
    with t have "hd s = x" by (metis append_Cons list.sel(1))
    with h t Cons show ?thesis by auto
  qed
qed

lemma trim_char_ends:
  "trim_char c s = [] \<or> (hd (trim_char c s) \<noteq> c \<and> last (trim_char c s) \<noteq> c)"
proof -
  have "trim_left_char c s = [] \<or> hd (trim_left_char c s) \<noteq> c"
    unfolding trim_left_char_def by (rule dropWhile_Nil_or_hd)
  then have "trim_char c s = [] \<or> hd (trim_char c s) \<noteq> c"
    unfolding trim_char_def by (rule trim_right_char_hd)
  then show ?thesis
    using trim_right_char_last [of c "trim_left_char c s"] by (auto simp: trim_char_def)
qed

lemma trim_char_id: "s = [] \<or> (hd s \<noteq> c \<and> last s \<noteq> c) \<Longrightarrow> trim_char c s = s"
  unfolding trim_char_def trim_left_char_def
  by (auto simp: dropWhile_eq_self intro!: trim_right_char_id)

lemma trim_char_idem: "trim_char c (trim_char c s) = trim_char c s"
  using trim_char_ends by (rule trim_char_id)

lemma trim_char_no_sep: "c \<notin> set s \<Longrightarrow> trim_char c s = s"
  by (rule trim_char_id) (metis hd_in_set last_in_set)

lemma trim_char_Cons [simp]: "trim_char c (c # s) = trim_char c s"
  by (simp add: trim_char_def trim_left_char_def)

text \<open>
  \<open>strings.TrimSpace\<close> removes leading and trailing Unicode white space. \<open>space_runes\<close> lists
  the UTF-8 encodings of the characters that \<open>unicode.IsSpace\<close> accepts.
\<close>

definition space_runes :: "string list" where
  "space_runes =
     map (\<lambda>n. [char_of n]) [9, 10, 11, 12, 13, 32 :: nat]
     @ map (map char_of)
         [[194, 133], [194, 160], [225, 154, 128 :: nat]]
     @ map (\<lambda>n. map char_of [226, 128, n]) ([128 ..< 139] @ [168, 169, 175 :: nat])
     @ map (map char_of) [[226, 129, 159], [227, 128, 128 :: nat]]"

definition strip_one :: "string list \<Rightarrow> string \<Rightarrow> string option" where
  "strip_one rs s = map_option (\<lambda>r. drop (length r) s) (find (\<lambda>r. r \<noteq> [] \<and> prefix r s) rs)"

function strip_runes :: "string list \<Rightarrow> string \<Rightarrow> string" where
  "strip_runes rs s = (case strip_one rs s of None \<Rightarrow> s | Some s' \<Rightarrow> strip_runes rs s')"
  by pat_completeness auto
termination
proof (relation "measure (\<lambda>(rs, s). length s)")
  fix rs :: "string list" and s s' :: string
  assume "strip_one rs s = Some s'"
  then obtain r where r: "find (\<lambda>r. r \<noteq> [] \<and> prefix r s) rs = Some r" "s' = drop (length r) s"
    by (auto simp: strip_one_def)
  then have "r \<noteq> []" and "prefix r s"
    by (auto simp: find_Some_iff)
  with r show "((rs, s'), rs, s) \<in> measure (\<lambda>(rs, s). length s)"
    by (auto simp: prefix_def)
qed simp

declare strip_runes.simps [simp del]

definition TrimSpace :: "string \<Rightarrow> string" where
  "TrimSpace s = rev (strip_runes (map rev space_runes) (rev (strip_runes space_runes s)))"

lemma strip_runes_stop: "strip_one rs (strip_runes rs s) = None"
proof (induction rs s rule: strip_runes.induct)
  case (1 rs s)
  then show ?case
    by (cases "strip_one rs s") (simp_all add: strip_runes.simps [of rs s])
qed

lemma strip_runes_id: "strip_one rs s = None \<Longrightarrow> strip_runes rs s = s"
  by (simp add: strip_runes.simps)

lemma strip_one_None: "strip_one rs s = None \<longleftrightarrow> (\<forall>r \<in> set rs. r \<noteq> [] \<longrightarrow> \<not> prefix r s)"
  by (auto simp: strip_one_def find_None_iff)

lemma strip_runes_suffix: "suffix (strip_runes rs s) s"
proof (induction rs s rule: strip_runes.induct)
  case (1 rs s)
  show ?case
  proof (cases "strip_one rs s")
    case None
    then show ?thesis by (simp add: strip_runes_id)
  next
    case (Some s')
    then have "suffix s' s"
      by (auto simp: strip_one_def suffix_drop)
    moreover have "suffix (strip_runes rs s') s'"
      using 1 Some by simp
    ultimately show ?thesis
      using Some by (simp add: strip_runes.simps [of rs s] suffix_order.trans)
  qed
qed

text \<open>A trimmed string neither starts nor ends with a white-space character.\<close>

lemma TrimSpace_right: "r \<in> set space_runes \<Longrightarrow> r \<noteq> [] \<Longrightarrow> \<not> suffix r (TrimSpace s)"
proof -
  assume r: "r \<in> set space_runes" "r \<noteq> []"
  have "strip_one (map rev space_runes)
      (strip_runes (map rev space_runes) (rev (strip_runes space_runes s))) = None"
    by (rule strip_runes_stop)
  then have "\<not> prefix (rev r)
      (strip_runes (map rev space_runes) (rev (strip_runes space_runes s)))"
    using r by (auto simp: strip_one_None)
  then show ?thesis
    by (simp add: TrimSpace_def suffix_to_prefix)
qed

lemma TrimSpace_left: "r \<in> set space_runes \<Longrightarrow> r \<noteq> [] \<Longrightarrow> \<not> prefix r (TrimSpace s)"
proof -
  assume r: "r \<in> set space_runes" "r \<noteq> []"
  let ?u = "strip_runes space_runes s"
  have "suffix (strip_runes (map rev space_runes) (rev ?u)) (rev ?u)"
    by (rule strip_runes_suffix)
  then have pre: "prefix (TrimSpace s) ?u"
    by (simp add: TrimSpace_def suffix_to_prefix)
  have "strip_one space_runes ?u = None"
    by (rule strip_runes_stop)
  then have "\<not> prefix r ?u"
    using r by (auto simp: strip_one_None)
  with pre show ?thesis
    by (metis prefix_order.trans)
qed

lemma TrimSpace_idem: "TrimSpace (TrimSpace s) = TrimSpace s"
proof -
  have l: "strip_one space_runes (TrimSpace s) = None"
    using TrimSpace_left by (auto simp: strip_one_None)
  have "strip_one (map rev space_runes) (rev (TrimSpace s)) = None"
    using TrimSpace_right by (auto simp: strip_one_None suffix_to_prefix)
  with l show ?thesis
    by (simp add: TrimSpace_def [of "TrimSpace s"] strip_runes_id)
qed

lemma TrimSpace_subset: "set (TrimSpace s) \<subseteq> set s"
proof -
  have "set (strip_runes rs u) \<subseteq> set u" for rs u
    using strip_runes_suffix [of rs u] by (rule set_mono_suffix)
  then show ?thesis
    unfolding TrimSpace_def by (metis set_rev subset_trans)
qed

end
