(* ===== verification/GoStrconv.thy ===== *)
theory GoStrconv
  imports GoStrings "HOL-Library.Multiset"
begin

text \<open>
  Decimal numbers and sorted strings: \<open>strconv.Itoa\<close> and \<open>strconv.Atoi\<close> with Go's syntax and
  range errors, \<open>strings.ReplaceAll\<close> on one-byte patterns and \<open>sort.Strings\<close>, with the round
  trip \<open>Atoi (Itoa i) = i\<close> and the fact that sorting the keys of a Go map does not
  depend on the iteration order.
\<close>

section \<open>Decimal numbers\<close>

definition digit_char :: "nat \<Rightarrow> char" where
  "digit_char d = char_of (48 + d)"

definition digit_val :: "char \<Rightarrow> nat option" where
  "digit_val c = (let n = of_char c :: nat in if 48 \<le> n \<and> n \<le> 57 then Some (n - 48) else None)"

fun nat_digits :: "nat \<Rightarrow> string" where
  "nat_digits n =
     (if n < 10 then [digit_char n] else nat_digits (n div 10) @ [digit_char (n mod 10)])"

declare nat_digits.simps [simp del]

definition Itoa :: "int \<Rightarrow> string" where
  "Itoa i = (if i < 0 then CHR ''-'' # nat_digits (nat (- i)) else nat_digits (nat i))"

fun parse_digits :: "nat \<Rightarrow> string \<Rightarrow> nat option" where
  "parse_digits acc [] = Some acc"
| "parse_digits acc (c # s) =
     (case digit_val c of None \<Rightarrow> None | Some d \<Rightarrow> parse_digits (10 * acc + d) s)"

definition parse_nat :: "string \<Rightarrow> nat option" where
  "parse_nat s = (if s = [] then None else parse_digits 0 s)"

datatype num_error = ErrSyntax | ErrRange

definition Atoi :: "string \<Rightarrow> num_error + int" where
  "Atoi s =
     (let neg = (s \<noteq> [] \<and> hd s = CHR ''-'');
          body = (if s \<noteq> [] \<and> (hd s = CHR ''-'' \<or> hd s = CHR ''+'') then tl s else s)
      in case parse_nat body of
           None \<Rightarrow> Inl ErrSyntax
         | Some n \<Rightarrow>
             (let i = (if neg then - int n else int n)
              in if min_int64 \<le> i \<and> i \<le> max_int64 then Inr i else Inl ErrRange))"

lemma digit_val_char [simp]: "d < 10 \<Longrightarrow> digit_val (digit_char d) = Some d"
  by (simp add: digit_val_def digit_char_def)

lemma digit_char_range:
  assumes "d < 10"
  shows "digit_char d \<noteq> CHR '':''" "digit_char d \<noteq> CHR ''-''" "digit_char d \<noteq> CHR ''+''"
    "digit_char d \<noteq> CHR ''/''"
proof -
  have "of_char (digit_char d) = 48 + d"
    using assms by (simp add: digit_char_def)
  moreover have "of_char CHR '':'' = (58 :: nat)" "of_char CHR ''-'' = (45 :: nat)"
    "of_char CHR ''+'' = (43 :: nat)" "of_char CHR ''/'' = (47 :: nat)"
    by simp_all
  ultimately show "digit_char d \<noteq> CHR '':''" "digit_char d \<noteq> CHR ''-''"
    "digit_char d \<noteq> CHR ''+''" "digit_char d \<noteq> CHR ''/''"
    using assms by fastforce+
qed

lemma parse_digits_append:
  "parse_digits acc (s @ t) =
     (case parse_digits acc s of None \<Rightarrow> None | Some a \<Rightarrow> parse_digits a t)"
  by (induction s arbitrary: acc) (auto split: option.splits)

lemma nat_digits_not_Nil [simp]: "nat_digits n \<noteq> []"
  by (subst nat_digits.simps) simp

lemma parse_digits_nat_digits: "parse_digits 0 (nat_digits n) = Some n"
proof (induction n rule: nat_digits.induct)
  case (1 n)
  show ?case
  proof (cases "n < 10")
    case True
    then show ?thesis by (simp add: nat_digits.simps [of n])
  next
    case False
    with 1 show ?thesis
      by (simp add: nat_digits.simps [of n] parse_digits_append)
  qed
qed

lemma set_nat_digits: "set (nat_digits n) \<subseteq> digit_char ` {..<10}"
proof (induction n rule: nat_digits.induct)
  case (1 n)
  show ?case
  proof (cases "n < 10")
    case True
    then show ?thesis by (simp add: nat_digits.simps [of n])
  next
    case False
    then have "set (nat_digits (n div 10)) \<subseteq> digit_char ` {..<10}"
      by (rule "1.IH")
    with False show ?thesis
      by (simp add: nat_digits.simps [of n])
  qed
qed

lemma digit_chars_no_sep:
  "CHR '':'' \<notin> digit_char ` {..<10}" "CHR ''-'' \<notin> digit_char ` {..<10}"
  "CHR ''+'' \<notin> digit_char ` {..<10}" "CHR ''/'' \<notin> digit_char ` {..<10}"
  using digit_char_range by fastforce+

lemma nat_digits_no_sep [simp]:
  "CHR '':'' \<notin> set (nat_digits n)" "CHR ''-'' \<notin> set (nat_digits n)"
  "CHR ''+'' \<notin> set (nat_digits n)" "CHR ''/'' \<notin> set (nat_digits n)"
  by (rule contra_subsetD [OF set_nat_digits], rule digit_chars_no_sep)+

lemma parse_digits_zeros: "parse_digits 0 (replicate k (digit_char 0) @ s) = parse_digits 0 s"
  by (induction k) auto

lemma Atoi_nat_digits:
  assumes "int n \<le> max_int64"
  shows "Atoi (replicate k (digit_char 0) @ nat_digits n) = Inr (int n)"
proof -
  let ?s = "replicate k (digit_char 0) @ nat_digits n"
  have "set (replicate k (digit_char 0)) \<subseteq> digit_char ` {..<10}"
    by (auto simp: set_replicate_conv_if)
  then have "set ?s \<subseteq> digit_char ` {..<10}"
    using set_nat_digits [of n] by simp
  moreover have "hd ?s \<in> set ?s" by (rule hd_in_set) simp
  ultimately have "hd ?s \<in> digit_char ` {..<10}"
    by (rule subsetD)
  then have "hd ?s \<noteq> CHR ''-''" "hd ?s \<noteq> CHR ''+''"
    using digit_chars_no_sep(2,3) by metis+
  moreover have "parse_nat ?s = Some n"
    by (simp add: parse_nat_def parse_digits_zeros parse_digits_nat_digits)
  ultimately show ?thesis
    using assms by (simp add: Atoi_def Let_def)
qed

lemma Atoi_Itoa:
  assumes "min_int64 \<le> i" and "i \<le> max_int64"
  shows "Atoi (Itoa i) = Inr i"
proof (cases "i < 0")
  case True
  with assms show ?thesis
    by (simp add: Atoi_def Itoa_def parse_nat_def parse_digits_nat_digits)
next
  case False
  with assms show ?thesis
    using Atoi_nat_digits [of "nat i" 0] by (simp add: Itoa_def)
qed

lemma Atoi_Nil [simp]: "Atoi [] = Inl ErrSyntax"
  by (simp add: Atoi_def parse_nat_def)

lemma Itoa_no_sep [simp]: "CHR '':'' \<notin> set (Itoa i)" "CHR ''/'' \<notin> set (Itoa i)"
  by (simp_all add: Itoa_def)

section \<open>Replacing bytes\<close>

definition ReplaceAll :: "string \<Rightarrow> char \<Rightarrow> char \<Rightarrow> string" where
  "ReplaceAll s old new = map (\<lambda>x. if x = old then new else x) s"

lemma ReplaceAll_removes: "old \<noteq> new \<Longrightarrow> old \<notin> set (ReplaceAll s old new)"
  by (auto simp: ReplaceAll_def)

section \<open>Sorting strings\<close>

definition sort_strings :: "string list \<Rightarrow> string list" where
  "sort_strings xs = sort xs"

lemma sort_strings_mset: "mset xs = mset ys \<Longrightarrow> sort_strings xs = sort_strings ys"
  unfolding sort_strings_def by (metis mset_sort properties_for_sort sorted_sort)

lemma set_sort_strings [simp]: "set (sort_strings xs) = set xs"
  by (simp add: sort_strings_def)

lemma sorted_sort_strings [simp]: "sorted (sort_strings xs)"
  by (simp add: sort_strings_def)

lemma sort_strings_least:
  assumes "xs \<noteq> []"
  shows "sort_strings xs ! 0 \<in> set xs \<and> (\<forall>b \<in> set xs. sort_strings xs ! 0 \<le> b)"
proof (cases "sort_strings xs")
  case Nil
  with set_sort_strings [of xs] assms show ?thesis by simp
next
  case (Cons y ys)
  with set_sort_strings [of xs] sorted_sort_strings [of xs] show ?thesis by auto
qed

lemma gomap_eq_sorted_keys:
  assumes "gomap_eq m n"
  shows "sort_strings (map fst m) = sort_strings (map fst n)"
proof (rule sort_strings_mset)
  have "set (map fst m) = set (map fst n)" "distinct (map fst m)" "distinct (map fst n)"
    using assms by (auto simp: gomap_eq_def gomap_ok_def)
  then show "mset (map fst m) = mset (map fst n)"
    by (simp only: set_eq_iff_mset_eq_distinct)
qed

end
