(* ===== verification/GoFloat.thy ===== *)
theory GoFloat
  imports Prelude
begin

text \<open>
  Go's \<open>float64\<close> as far as the exporters use it: conversion from integers, subtraction and
  comparison, with IEEE-754 rounding to nearest, ties to even. A finite number is \<open>F64 m e\<close>,
  the dyadic \<open>m * 2 ^ e\<close>, in the canonical form that \<open>round64\<close> produces. The two zeros are
  not distinguished (no operation modelled here tells them apart). A \<open>float32\<close> is
  exactly representable, so it is carried as the \<open>float64\<close> of the same value.
\<close>

datatype float64 = F64NaN | F64Inf bool | F64 int int

text \<open>Number of binary digits of a natural number.\<close>

fun bitlen :: "nat \<Rightarrow> nat" where
  "bitlen n = (if n = 0 then 0 else Suc (bitlen (n div 2)))"

declare bitlen.simps [simp del]

text \<open>
  \<open>round_bits m s\<close> divides by \<open>2 ^ s\<close> and rounds to nearest, ties to even.
\<close>

definition round_bits :: "nat \<Rightarrow> nat \<Rightarrow> nat" where
  "round_bits m s =
     (if s = 0 then m
      else (let q = m div 2 ^ s; r = m mod 2 ^ s; half = 2 ^ (s - 1)
            in if half < r \<or> (r = half \<and> odd q) then Suc q else q))"

text \<open>Removing trailing zero bits gives the canonical form of a dyadic number.\<close>

fun canon :: "int \<Rightarrow> int \<Rightarrow> float64" where
  "canon m e = (if m = 0 then F64 0 0 else if even m then canon (m div 2) (e + 1) else F64 m e)"

declare canon.simps [simp del]

definition round64 :: "int \<Rightarrow> int \<Rightarrow> float64" where
  "round64 m e =
     (let a = nat \<bar>m\<bar>;
          s = nat (max 0 (max (int (bitlen a) - 53) (- 1074 - e)));
          q = round_bits a s;
          e' = e + int s
      in if int (bitlen q) + e' > 1024 then F64Inf (m < 0)
         else canon (if m < 0 then - int q else int q) e')"

definition float_of_int64 :: "int64 \<Rightarrow> float64" where
  "float_of_int64 x = round64 (sint x) 0"

definition float_of_uint64 :: "uint64 \<Rightarrow> float64" where
  "float_of_uint64 x = round64 (int (unat x)) 0"

definition float_zero :: float64 where
  "float_zero = F64 0 0"

definition float_one :: float64 where
  "float_one = F64 1 0"

fun float_neg :: "float64 \<Rightarrow> float64" where
  "float_neg F64NaN = F64NaN"
| "float_neg (F64Inf s) = F64Inf (\<not> s)"
| "float_neg (F64 m e) = F64 (- m) e"

fun float_sub :: "float64 \<Rightarrow> float64 \<Rightarrow> float64" where
  "float_sub F64NaN y = F64NaN"
| "float_sub x F64NaN = F64NaN"
| "float_sub (F64Inf s) (F64Inf t) = (if s = t then F64NaN else F64Inf s)"
| "float_sub (F64Inf s) (F64 m e) = F64Inf s"
| "float_sub (F64 m e) (F64Inf t) = F64Inf (\<not> t)"
| "float_sub (F64 m e) (F64 m' e') =
     (let b = min e e' in round64 (m * 2 ^ nat (e - b) - m' * 2 ^ nat (e' - b)) b)"

text \<open>\<open>x >= 0\<close>: false for NaN and for minus infinity.\<close>

fun float_nonneg :: "float64 \<Rightarrow> bool" where
  "float_nonneg F64NaN = False"
| "float_nonneg (F64Inf s) = (\<not> s)"
| "float_nonneg (F64 m e) = (0 \<le> m)"

text \<open>The finite numbers that are integers of at most 53 bits are exact.\<close>

lemma bitlen_le: "n < 2 ^ k \<Longrightarrow> bitlen n \<le> k"
proof (induction k arbitrary: n)
  case 0
  then show ?case by (simp add: bitlen.simps)
next
  case (Suc k)
  then have "bitlen (n div 2) \<le> k" by (intro Suc.IH) auto
  then show ?case by (simp add: bitlen.simps [of n])
qed

lemma round64_exact:
  assumes "\<bar>m\<bar> < 2 ^ 53" and "0 \<le> e" and "e < 900"
  shows "round64 m e = canon m e"
proof -
  have "nat \<bar>m\<bar> < 2 ^ 53"
    using assms(1) by (simp add: nat_less_iff)
  then have b: "bitlen (nat \<bar>m\<bar>) \<le> 53"
    by (rule bitlen_le)
  have s: "nat (max 0 (max (int (bitlen (nat \<bar>m\<bar>)) - 53) (- 1074 - e))) = 0"
    using b assms(2) by simp
  have o: "\<not> int (bitlen (nat \<bar>m\<bar>)) + e > 1024"
    using b assms(3) by simp
  have m: "(if m < 0 then - int (nat \<bar>m\<bar>) else int (nat \<bar>m\<bar>)) = m"
    by simp
  show ?thesis
    unfolding round64_def Let_def s round_bits_def
    using o m by simp
qed

lemma float_of_int64_exact: "\<bar>sint x\<bar> < 2 ^ 53 \<Longrightarrow> float_of_int64 x = canon (sint x) 0"
  by (simp add: float_of_int64_def round64_exact)

text \<open>\<open>float_of_int\<close> names the exact number of a small integer.\<close>

definition float_of_int :: "int \<Rightarrow> float64" where
  "float_of_int i = canon i 0"

lemma canon_form:
  "\<exists>n e'. canon m e = F64 n e' \<and> (0 \<le> e \<longrightarrow> 0 \<le> e') \<and>
     (0 \<le> e \<longrightarrow> n * 2 ^ nat e' = m * 2 ^ nat e)"
proof (induction m e rule: canon.induct)
  case (1 m e)
  show ?case
  proof (cases "m = 0 \<or> odd m")
    case True
    then show ?thesis by (auto simp: canon.simps [of m e])
  next
    case False
    then obtain n e' where n: "canon (m div 2) (e + 1) = F64 n e'"
        "0 \<le> e + 1 \<longrightarrow> 0 \<le> e'" "0 \<le> e + 1 \<longrightarrow> n * 2 ^ nat e' = m div 2 * 2 ^ nat (e + 1)"
      using 1 by auto
    have "m div 2 * 2 ^ nat (e + 1) = m * 2 ^ nat e" if "0 \<le> e"
      using False that by (auto simp: nat_add_distrib elim!: evenE)
    with False n show ?thesis
      by (auto simp: canon.simps [of m e])
  qed
qed

lemma canon_shift: "canon (m * 2 ^ k) e = (if m = 0 then F64 0 0 else canon m (e + int k))"
proof (induction k arbitrary: e)
  case 0
  then show ?case by (simp add: canon.simps)
next
  case (Suc k)
  show ?case
  proof (cases "m = 0")
    case True
    then show ?thesis by (simp add: canon.simps)
  next
    case False
    have "canon (m * 2 ^ Suc k) e = canon (m * 2 ^ k) (e + 1)"
      using False canon.simps [of "m * 2 ^ Suc k" e] by simp
    also have "\<dots> = canon m (e + 1 + int k)"
      using False Suc [of "e + 1"] by simp
    finally show ?thesis
      using False by (simp add: ac_simps)
  qed
qed

end
