(* ===== verification/GnmiTypes.thy ===== *)
theory GnmiTypes
  imports GoStrconv GoFloat
begin

text \<open>
  The message types of the gNMI and target protocol buffers, with the fields the gateway
  reads and writes. A pointer that the code tests against nil is an \<open>option\<close>; the elements
  of a repeated field are never nil (protocol buffers decode no nil element). The key map of a
  path element may be nil, which \<open>matchPath\<close> tells apart from an empty map. \<open>GetPrefix\<close>,
  \<open>GetTarget\<close> and the other getters return the zero value on a nil receiver.
\<close>

section \<open>Paths, values, notifications\<close>

record path_elem =
  pe_Name :: string
  pe_Key :: "(string, string) gomap option"

record path =
  p_Origin :: string
  p_Target :: string
  p_Elem :: "path_elem list"

definition empty_path :: path where
  "empty_path = \<lparr>p_Origin = [], p_Target = [], p_Elem = []\<rparr>"

datatype typed_value =
    StringVal string
  | IntVal int64
  | UintVal uint64
  | BoolVal bool
  | BytesVal string
  | FloatVal float64
  | LeaflistVal
  | OtherVal string

text \<open>
  A \<open>TypedValue\<close> pointer whose oneof field may be unset: \<open>None\<close> is the nil pointer,
  \<open>Some None\<close> a message without a value.
\<close>

type_synonym typed_value_ptr = "typed_value option option"

record update =
  u_Path :: "path option"
  u_Val :: typed_value_ptr
  u_Duplicates :: uint32

record notification =
  n_Timestamp :: int64
  n_Prefix :: "path option"
  n_Alias :: string
  n_Update :: "update list"
  n_Delete :: "path list"
  n_Atomic :: bool

fun GetTarget :: "path option \<Rightarrow> string" where
  "GetTarget None = []"
| "GetTarget (Some p) = p_Target p"

fun GetOrigin :: "path option \<Rightarrow> string" where
  "GetOrigin None = []"
| "GetOrigin (Some p) = p_Origin p"

fun GetElem :: "path option \<Rightarrow> path_elem list" where
  "GetElem None = []"
| "GetElem (Some p) = p_Elem p"

definition GetKey :: "path_elem \<Rightarrow> (string, string) gomap" where
  "GetKey e = (case pe_Key e of None \<Rightarrow> [] | Some m \<Rightarrow> m)"

section \<open>Subscriptions\<close>

datatype subscription_mode = STREAM | ONCE | POLL | OtherMode int

record subscription =
  sub_Path :: "path option"

record subscription_list =
  sl_Prefix :: "path option"
  sl_Subscription :: "subscription list"
  sl_Mode :: subscription_mode
  sl_UpdatesOnly :: bool

text \<open>\<open>sr_Subscribe\<close> is what \<open>GetSubscribe()\<close> returns.\<close>

record subscribe_request =
  sr_Subscribe :: "subscription_list option"

datatype subscribe_response =
    ResponseUpdate "notification option"
  | ResponseSync bool
  | ResponseError string
  | ResponseUnknown

text \<open>What a leaf of the cache holds; the notification pointer may be nil.\<close>

datatype leaf_value = NotificationValue "notification option" | OtherValue string

text \<open>The type assertion \<open>leaf.Value().(*gnmi.Notification)\<close>.\<close>

definition leaf_notification :: "leaf_value \<Rightarrow> notification option outcome" where
  "leaf_notification v = (case v of NotificationValue n \<Rightarrow> Done n | OtherValue s \<Rightarrow> Panics TypeAssertion)"

section \<open>Target configuration\<close>

record credentials =
  cr_Username :: string
  cr_Password :: string

record target =
  tg_Addresses :: "string list"
  tg_Credentials :: "credentials option"
  tg_Request :: string
  tg_Meta :: "(string, string) gomap"

record target_configuration =
  cf_Target :: "(string, target) gomap"
  cf_Request :: "(string, subscribe_request) gomap"

text \<open>Two paths that differ at most in the iteration order of their key maps.\<close>

fun elem_equiv :: "path_elem \<Rightarrow> path_elem \<Rightarrow> bool" where
  "elem_equiv a b \<longleftrightarrow> pe_Name a = pe_Name b \<and>
     (case (pe_Key a, pe_Key b) of
        (None, None) \<Rightarrow> True
      | (Some m, Some n) \<Rightarrow> gomap_eq m n
      | _ \<Rightarrow> False)"

definition path_equiv :: "path \<Rightarrow> path \<Rightarrow> bool" where
  "path_equiv p q \<longleftrightarrow> p_Origin p = p_Origin q \<and> p_Target p = p_Target q \<and>
     list_all2 elem_equiv (p_Elem p) (p_Elem q)"

lemma elem_equiv_GetKey: "elem_equiv a b \<Longrightarrow> gomap_eq (GetKey a) (GetKey b)"
  by (auto simp: GetKey_def gomap_eq_def split: option.splits)

end
