(* ===== verification/ZkService.thy ===== *)
theory ZkService
  imports GoStrconv
begin

text \<open>
  Programs over a Zookeeper connection. The gateway reaches Zookeeper through the methods of
  \<open>*zk.Conn\<close> of the package \<open>go-zookeeper\<close>, which is not code of this repository: the service
  is a parameter \<open>svc\<close>, a record of the calls over an arbitrary state \<open>'z\<close>. A call may change
  the state in any way, so that \<open>'z\<close> can hold what other clients do between two calls.

  A function of the gateway that talks to Zookeeper is a \<open>zkprog\<close>: a tree of calls, each
  with the continuation that receives the answer. The one tree serves both readings of the code:
  \<open>run_zk\<close> executes it alone, and \<open>zk_step\<close> executes one call, so that several clients can
  be interleaved call by call. \<open>zk_wp\<close> is the weakest precondition of a tree under
  interference \<open>R\<close> between its calls.
\<close>

datatype zk_state =
    StateDisconnected
  | StateConnecting
  | StateConnected
  | StateHasSession
  | StateExpired
  | OtherZkState nat

datatype zk_error = ErrNoNode | ErrNodeExists | ZkOtherError string

datatype 'a zkprog =
    ZkReturn 'a
  | ZkState "zk_state \<Rightarrow> 'a zkprog"
  | ZkCreate string string bool "zk_error + string \<Rightarrow> 'a zkprog"
  | ZkCreateSeq string string "zk_error + string \<Rightarrow> 'a zkprog"
  | ZkExists string "zk_error + bool \<Rightarrow> 'a zkprog"
  | ZkChildren string "zk_error + string list \<Rightarrow> 'a zkprog"
  | ZkGet string "zk_error + string \<Rightarrow> 'a zkprog"
  | ZkDelete string "zk_error option \<Rightarrow> 'a zkprog"

record 'z zk_service =
  zks_state :: "'z \<Rightarrow> zk_state \<times> 'z"
  zks_create :: "string \<Rightarrow> string \<Rightarrow> bool \<Rightarrow> 'z \<Rightarrow> (zk_error + string) \<times> 'z"
  zks_create_seq :: "string \<Rightarrow> string \<Rightarrow> 'z \<Rightarrow> (zk_error + string) \<times> 'z"
  zks_exists :: "string \<Rightarrow> 'z \<Rightarrow> (zk_error + bool) \<times> 'z"
  zks_children :: "string \<Rightarrow> 'z \<Rightarrow> (zk_error + string list) \<times> 'z"
  zks_get :: "string \<Rightarrow> 'z \<Rightarrow> (zk_error + string) \<times> 'z"
  zks_delete :: "string \<Rightarrow> 'z \<Rightarrow> zk_error option \<times> 'z"

primrec zkbind :: "'a zkprog \<Rightarrow> ('a \<Rightarrow> 'b zkprog) \<Rightarrow> 'b zkprog" where
  "zkbind (ZkReturn a) f = f a"
| "zkbind (ZkState k) f = ZkState (\<lambda>r. zkbind (k r) f)"
| "zkbind (ZkCreate p d e k) f = ZkCreate p d e (\<lambda>r. zkbind (k r) f)"
| "zkbind (ZkCreateSeq p d k) f = ZkCreateSeq p d (\<lambda>r. zkbind (k r) f)"
| "zkbind (ZkExists p k) f = ZkExists p (\<lambda>r. zkbind (k r) f)"
| "zkbind (ZkChildren p k) f = ZkChildren p (\<lambda>r. zkbind (k r) f)"
| "zkbind (ZkGet p k) f = ZkGet p (\<lambda>r. zkbind (k r) f)"
| "zkbind (ZkDelete p k) f = ZkDelete p (\<lambda>r. zkbind (k r) f)"

primrec run_zk :: "'z zk_service \<Rightarrow> 'a zkprog \<Rightarrow> 'z \<Rightarrow> 'a \<times> 'z" where
  "run_zk svc (ZkReturn a) z = (a, z)"
| "run_zk svc (ZkState k) z =
     (let r = zks_state svc z in run_zk svc (k (fst r)) (snd r))"
| "run_zk svc (ZkCreate p d e k) z =
     (let r = zks_create svc p d e z in run_zk svc (k (fst r)) (snd r))"
| "run_zk svc (ZkCreateSeq p d k) z =
     (let r = zks_create_seq svc p d z in run_zk svc (k (fst r)) (snd r))"
| "run_zk svc (ZkExists p k) z =
     (let r = zks_exists svc p z in run_zk svc (k (fst r)) (snd r))"
| "run_zk svc (ZkChildren p k) z =
     (let r = zks_children svc p z in run_zk svc (k (fst r)) (snd r))"
| "run_zk svc (ZkGet p k) z =
     (let r = zks_get svc p z in run_zk svc (k (fst r)) (snd r))"
| "run_zk svc (ZkDelete p k) z =
     (let r = zks_delete svc p z in run_zk svc (k (fst r)) (snd r))"

fun zk_step :: "'z zk_service \<Rightarrow> 'a zkprog \<Rightarrow> 'z \<Rightarrow> 'a zkprog \<times> 'z" where
  "zk_step svc (ZkReturn a) z = (ZkReturn a, z)"
| "zk_step svc (ZkState k) z = (let r = zks_state svc z in (k (fst r), snd r))"
| "zk_step svc (ZkCreate p d e k) z = (let r = zks_create svc p d e z in (k (fst r), snd r))"
| "zk_step svc (ZkCreateSeq p d k) z = (let r = zks_create_seq svc p d z in (k (fst r), snd r))"
| "zk_step svc (ZkExists p k) z = (let r = zks_exists svc p z in (k (fst r), snd r))"
| "zk_step svc (ZkChildren p k) z = (let r = zks_children svc p z in (k (fst r), snd r))"
| "zk_step svc (ZkGet p k) z = (let r = zks_get svc p z in (k (fst r), snd r))"
| "zk_step svc (ZkDelete p k) z = (let r = zks_delete svc p z in (k (fst r), snd r))"

text \<open>The calls of a program one after the other; some number of them completes it.\<close>

primrec zk_steps :: "'z zk_service \<Rightarrow> nat \<Rightarrow> 'a zkprog \<Rightarrow> 'z \<Rightarrow> 'a zkprog \<times> 'z" where
  "zk_steps svc 0 p z = (p, z)"
| "zk_steps svc (Suc n) p z = (case zk_step svc p z of (p', z') \<Rightarrow> zk_steps svc n p' z')"

lemma zk_steps_Suc:
  "zk_step svc p z = (p', z') \<Longrightarrow> \<exists>n. zk_steps svc n p' z' = r \<Longrightarrow> \<exists>n. zk_steps svc n p z = r"
  by (metis case_prod_conv zk_steps.simps(2))

lemma zk_steps_run: "\<exists>n. zk_steps svc n p z = (ZkReturn (fst (run_zk svc p z)), snd (run_zk svc p z))"
proof (induction p arbitrary: z)
  case (ZkReturn a)
  have "zk_steps svc 0 (ZkReturn a) z = (ZkReturn a, z)" by simp
  then show ?case by (simp only: run_zk.simps fst_conv snd_conv) (rule exI)
qed (rule zk_steps_Suc, simp add: Let_def, simp add: Let_def)+

lemma run_zk_bind: "run_zk svc (zkbind p f) z = (let r = run_zk svc p z in run_zk svc (f (fst r)) (snd r))"
  by (induction p arbitrary: z) (simp_all add: Let_def)

section \<open>Weakest preconditions under interference\<close>

text \<open>
  \<open>zk_wp svc R Q p z\<close>: started in \<open>z\<close>, with steps in \<open>R\<close> by others before every call and
  before the end, the program \<open>p\<close> returns only values and states in \<open>Q\<close>.
\<close>

primrec zk_wp :: "'z zk_service \<Rightarrow> ('z \<Rightarrow> 'z \<Rightarrow> bool) \<Rightarrow> ('a \<Rightarrow> 'z \<Rightarrow> bool) \<Rightarrow>
    'a zkprog \<Rightarrow> 'z \<Rightarrow> bool" where
  "zk_wp svc R Q (ZkReturn a) z = (\<forall>y. R z y \<longrightarrow> Q a y)"
| "zk_wp svc R Q (ZkState k) z =
     (\<forall>y. R z y \<longrightarrow> zk_wp svc R Q (k (fst (zks_state svc y))) (snd (zks_state svc y)))"
| "zk_wp svc R Q (ZkCreate p d e k) z =
     (\<forall>y. R z y \<longrightarrow>
        zk_wp svc R Q (k (fst (zks_create svc p d e y))) (snd (zks_create svc p d e y)))"
| "zk_wp svc R Q (ZkCreateSeq p d k) z =
     (\<forall>y. R z y \<longrightarrow>
        zk_wp svc R Q (k (fst (zks_create_seq svc p d y))) (snd (zks_create_seq svc p d y)))"
| "zk_wp svc R Q (ZkExists p k) z =
     (\<forall>y. R z y \<longrightarrow> zk_wp svc R Q (k (fst (zks_exists svc p y))) (snd (zks_exists svc p y)))"
| "zk_wp svc R Q (ZkChildren p k) z =
     (\<forall>y. R z y \<longrightarrow> zk_wp svc R Q (k (fst (zks_children svc p y))) (snd (zks_children svc p y)))"
| "zk_wp svc R Q (ZkGet p k) z =
     (\<forall>y. R z y \<longrightarrow> zk_wp svc R Q (k (fst (zks_get svc p y))) (snd (zks_get svc p y)))"
| "zk_wp svc R Q (ZkDelete p k) z =
     (\<forall>y. R z y \<longrightarrow> zk_wp svc R Q (k (fst (zks_delete svc p y))) (snd (zks_delete svc p y)))"

lemma zk_wp_stable:
  assumes "transp R" and "zk_wp svc R Q p z" and "R z y"
  shows "zk_wp svc R Q p y"
  using assms by (cases p) (auto dest: transpD)

lemma zk_wp_step:
  assumes "reflp R" and "zk_wp svc R Q p z"
  shows "zk_wp svc R Q (fst (zk_step svc p z)) (snd (zk_step svc p z))"
proof -
  have "R z z" using assms(1) by (rule reflpD)
  with assms(2) show ?thesis by (cases p) (auto simp: Let_def)
qed

lemma zk_wp_bind:
  "zk_wp svc R (\<lambda>a z. zk_wp svc R Q (f a) z) p z \<Longrightarrow> reflp R \<Longrightarrow> transp R \<Longrightarrow>
   zk_wp svc R Q (zkbind p f) z"
proof (induction p arbitrary: z)
  case (ZkReturn a)
  then show ?case by (auto dest: reflpD)
qed auto

text \<open>The relation between the states before and after a call of the service.\<close>

definition zk_moves :: "'z zk_service \<Rightarrow> ('z \<Rightarrow> 'z \<Rightarrow> bool) \<Rightarrow> bool" where
  "zk_moves svc R \<longleftrightarrow> (\<forall>z.
     R z (snd (zks_state svc z)) \<and>
     (\<forall>p d e. R z (snd (zks_create svc p d e z))) \<and>
     (\<forall>p d. R z (snd (zks_create_seq svc p d z))) \<and>
     (\<forall>p. R z (snd (zks_exists svc p z))) \<and>
     (\<forall>p. R z (snd (zks_children svc p z))) \<and>
     (\<forall>p. R z (snd (zks_get svc p z))) \<and>
     (\<forall>p. R z (snd (zks_delete svc p z))))"

lemma zk_moves_step:
  assumes "zk_moves svc R" and "reflp R"
  shows "R z (snd (zk_step svc p z))"
  using assms by (cases p) (auto simp: zk_moves_def Let_def dest: reflpD)

lemma zk_wp_run:
  assumes "reflp R"
  shows "zk_wp svc R Q p z \<Longrightarrow> Q (fst (run_zk svc p z)) (snd (run_zk svc p z))"
  by (induction p arbitrary: z) (auto simp: Let_def reflpD [OF assms])

text \<open>A property of every possible result, whatever the service answers.\<close>

primrec zk_all :: "('a \<Rightarrow> bool) \<Rightarrow> 'a zkprog \<Rightarrow> bool" where
  "zk_all Q (ZkReturn a) = Q a"
| "zk_all Q (ZkState k) = (\<forall>r. zk_all Q (k r))"
| "zk_all Q (ZkCreate p d e k) = (\<forall>r. zk_all Q (k r))"
| "zk_all Q (ZkCreateSeq p d k) = (\<forall>r. zk_all Q (k r))"
| "zk_all Q (ZkExists p k) = (\<forall>r. zk_all Q (k r))"
| "zk_all Q (ZkChildren p k) = (\<forall>r. zk_all Q (k r))"
| "zk_all Q (ZkGet p k) = (\<forall>r. zk_all Q (k r))"
| "zk_all Q (ZkDelete p k) = (\<forall>r. zk_all Q (k r))"

lemma zk_all_run: "zk_all Q p \<Longrightarrow> Q (fst (run_zk svc p z))"
  by (induction p arbitrary: z) (auto simp: Let_def)

lemma zk_all_bind: "zk_all Q (zkbind p f) \<longleftrightarrow> zk_all (\<lambda>a. zk_all Q (f a)) p"
  by (induction p) auto

lemma zk_all_mono: "(\<And>a. P a \<Longrightarrow> Q a) \<Longrightarrow> zk_all P p \<Longrightarrow> zk_all Q p"
  by (induction p) auto

lemma zk_all_bind_any: "(\<And>a. zk_all Q (f a)) \<Longrightarrow> zk_all Q (zkbind p f)"
  by (induction p) auto

lemma zk_all_True [simp]: "zk_all (\<lambda>_. True) p"
  by (induction p) auto

end
