(* ===== verification/Locking.thy ===== *)
theory Locking
  imports ZkService
begin

text \<open>
  The package \<open>gateway/locking\<close>: the \<open>DistributedLocker\<close> interface as a locale, the in-process
  \<open>NonBlockingLock\<close> (\<open>local.go\<close>) and the Zookeeper lock \<open>ZookeeperNonBlockingLock\<close>
  (\<open>zookeeper.go\<close>), both interpreted as lockers, with the mutual exclusion of each.
\<close>

section \<open>The lock interface\<close>

text \<open>
  \<open>locker.go\<close>: \<open>Try\<close> answers whether the lock is held now, or an error; \<open>Unlock\<close> answers an
  error or releases the lock. \<open>lock_ok\<close> is the consistency of a lock instance.
\<close>

locale distributed_locker =
  fixes LockAcquired :: "'l \<Rightarrow> bool"
    and TryLock :: "'w \<Rightarrow> 'l \<Rightarrow> (bool \<times> 'e option) \<times> 'l \<times> 'w"
    and UnlockIt :: "'w \<Rightarrow> 'l \<Rightarrow> 'e option \<times> 'l \<times> 'w"
    and lock_ok :: "'l \<Rightarrow> bool"
  assumes try_ok: "lock_ok l \<Longrightarrow> TryLock w l = (r, l', w') \<Longrightarrow> lock_ok l'"
    and unlock_ok: "lock_ok l \<Longrightarrow> UnlockIt w l = (e, l', w') \<Longrightarrow> lock_ok l'"
    and try_true: "lock_ok l \<Longrightarrow> TryLock w l = ((True, e), l', w') \<Longrightarrow> LockAcquired l'"
    and try_no_error: "lock_ok l \<Longrightarrow> TryLock w l = ((b, None), l', w') \<Longrightarrow> LockAcquired l' = b"
    and try_held: "lock_ok l \<Longrightarrow> LockAcquired l \<Longrightarrow> TryLock w l = ((b, e), l', w') \<Longrightarrow>
      e \<noteq> None \<and> l' = l"
    and unlock_releases: "lock_ok l \<Longrightarrow> UnlockIt w l = (None, l', w') \<Longrightarrow> \<not> LockAcquired l'"
    and unlock_error: "lock_ok l \<Longrightarrow> UnlockIt w l = (Some x, l', w') \<Longrightarrow> l' = l"
    and unlock_free: "lock_ok l \<Longrightarrow> \<not> LockAcquired l \<Longrightarrow> UnlockIt w l = (e, l', w') \<Longrightarrow> e \<noteq> None"
begin

text \<open>A lock taken without error was free before.\<close>

lemma taken_was_free:
  assumes "lock_ok l" and "TryLock w l = ((True, None), l', w')"
  shows "\<not> LockAcquired l \<and> LockAcquired l'"
  using try_held [OF assms(1) _ assms(2)] try_true [OF assms] by auto

text \<open>After a release the next release fails, until the lock is taken again.\<close>

lemma no_double_release:
  assumes "lock_ok l" and "UnlockIt w l = (None, l', w')" and "UnlockIt v l' = (e, l'', v')"
  shows "e \<noteq> None \<and> l'' = l'"
proof -
  have ok: "lock_ok l'" using unlock_ok assms(1,2) by blast
  have "\<not> LockAcquired l'" using unlock_releases assms(1,2) by blast
  from unlock_free [OF ok this assms(3)] obtain x where "e = Some x" by auto
  with unlock_error [OF ok] assms(3) show ?thesis by auto
qed

end

section \<open>The in-process lock\<close>

text \<open>
  The package variable \<open>registry\<close> is a \<open>sync.Map\<close> from lock identifiers to the member that
  holds them; \<open>LoadOrStore\<close> and \<open>Delete\<close> are atomic.
\<close>

type_synonym registry = "(string, string) gomap"

record local_lock =
  ll_acquired :: bool
  ll_id :: string
  ll_member :: string

datatype local_error = Deadlock string | NotAcquired string

definition NewNonBlockingLock :: "string \<Rightarrow> string \<Rightarrow> local_lock" where
  "NewNonBlockingLock lid member = \<lparr>ll_acquired = False, ll_id = lid, ll_member = member\<rparr>"

definition local_GetMember :: "registry \<Rightarrow> string \<Rightarrow> string" where
  "local_GetMember reg lid = (case map_of reg lid of Some v \<Rightarrow> v | None \<Rightarrow> [])"

definition local_Try :: "registry \<Rightarrow> local_lock \<Rightarrow>
    (bool \<times> local_error option) \<times> local_lock \<times> registry" where
  "local_Try reg l =
     (if ll_acquired l then ((True, Some (Deadlock (ll_id l))), l, reg)
      else (case map_of reg (ll_id l) of
              Some _ \<Rightarrow> ((False, None), l, reg)
            | None \<Rightarrow>
                ((True, None), l\<lparr>ll_acquired := True\<rparr>, gomap_set (ll_id l) (ll_member l) reg)))"

definition local_Unlock :: "registry \<Rightarrow> local_lock \<Rightarrow>
    local_error option \<times> local_lock \<times> registry" where
  "local_Unlock reg l =
     (if \<not> ll_acquired l then (Some (NotAcquired (ll_id l)), l, reg)
      else (None, l\<lparr>ll_acquired := False\<rparr>, gomap_del (ll_id l) reg))"

lemmas local_lock_defs = local_Try_def local_Unlock_def NewNonBlockingLock_def local_GetMember_def

interpretation local_locker: distributed_locker ll_acquired local_Try local_Unlock "\<lambda>_. True"
  by unfold_locales (auto simp: local_lock_defs split: if_splits option.splits)

text \<open>
  A process with any number of lock instances over the one registry: the instances are
  numbered, and an operation names the instance it is called on.
\<close>

datatype local_op = TryOp nat | UnlockOp nat

type_synonym local_sys = "(nat \<Rightarrow> local_lock) \<times> registry"

fun local_step :: "local_op \<Rightarrow> local_sys \<Rightarrow> local_sys" where
  "local_step (TryOp i) (ls, reg) =
     (case local_Try reg (ls i) of (_, l', reg') \<Rightarrow> (ls(i := l'), reg'))"
| "local_step (UnlockOp i) (ls, reg) =
     (case local_Unlock reg (ls i) of (_, l', reg') \<Rightarrow> (ls(i := l'), reg'))"

definition local_init :: "(nat \<Rightarrow> string) \<Rightarrow> (nat \<Rightarrow> string) \<Rightarrow> local_sys" where
  "local_init ids members = (\<lambda>i. NewNonBlockingLock (ids i) (members i), [])"

text \<open>
  The registry names exactly the identifiers of the acquired instances, each with the
  member of the one instance that acquired it.
\<close>

definition local_inv :: "local_sys \<Rightarrow> bool" where
  "local_inv s \<longleftrightarrow>
     (\<forall>i j. ll_acquired (fst s i) \<and> ll_acquired (fst s j) \<and> ll_id (fst s i) = ll_id (fst s j)
        \<longrightarrow> i = j) \<and>
     (\<forall>i. ll_acquired (fst s i) \<longrightarrow> map_of (snd s) (ll_id (fst s i)) = Some (ll_member (fst s i))) \<and>
     (\<forall>k v. map_of (snd s) k = Some v \<longrightarrow> (\<exists>i. ll_acquired (fst s i) \<and> ll_id (fst s i) = k))"

lemma local_invD:
  assumes "local_inv (ls, reg)"
  shows "ll_acquired (ls j) \<Longrightarrow> ll_acquired (ls k) \<Longrightarrow> ll_id (ls j) = ll_id (ls k) \<Longrightarrow> j = k"
    and "ll_acquired (ls j) \<Longrightarrow> map_of reg (ll_id (ls j)) = Some (ll_member (ls j))"
    and "map_of reg n = Some v \<Longrightarrow> \<exists>j. ll_acquired (ls j) \<and> ll_id (ls j) = n"
  using assms unfolding local_inv_def fst_conv snd_conv by blast+

lemma local_inv_init: "local_inv (local_init ids members)"
  by (simp add: local_inv_def local_init_def NewNonBlockingLock_def)

lemma local_inv_try: "local_inv (ls, reg) \<Longrightarrow> local_inv (local_step (TryOp i) (ls, reg))"
proof (cases "ll_acquired (ls i) \<or> map_of reg (ll_id (ls i)) \<noteq> None")
  case True
  moreover assume "local_inv (ls, reg)"
  ultimately show ?thesis
    by (auto simp: local_Try_def)
next
  case False
  assume inv: "local_inv (ls, reg)"
  let ?ls = "ls(i := (ls i)\<lparr>ll_acquired := True\<rparr>)"
  have st: "local_step (TryOp i) (ls, reg) = (?ls, gomap_set (ll_id (ls i)) (ll_member (ls i)) reg)"
    using False by (simp add: local_Try_def)
  have free: "\<not> (ll_acquired (ls j) \<and> ll_id (ls j) = ll_id (ls i))" for j
    using local_invD(2) [OF inv, of j] False by auto
  show ?thesis
    unfolding st local_inv_def fst_conv snd_conv
  proof (intro conjI allI impI)
    fix j k
    assume "ll_acquired (?ls j) \<and> ll_acquired (?ls k) \<and> ll_id (?ls j) = ll_id (?ls k)"
    then show "j = k"
      using local_invD(1) [OF inv, of j k] free [of j] free [of k] by (auto split: if_splits)
  next
    fix j
    assume "ll_acquired (?ls j)"
    then show "map_of (gomap_set (ll_id (ls i)) (ll_member (ls i)) reg) (ll_id (?ls j))
        = Some (ll_member (?ls j))"
      using local_invD(2) [OF inv, of j] free [of j] by (auto simp: gomap_simps split: if_splits)
  next
    fix k v
    assume k: "map_of (gomap_set (ll_id (ls i)) (ll_member (ls i)) reg) k = Some v"
    show "\<exists>j. ll_acquired (?ls j) \<and> ll_id (?ls j) = k"
    proof (cases "k = ll_id (ls i)")
      case True
      then have "ll_acquired (?ls i) \<and> ll_id (?ls i) = k" by simp
      then show ?thesis by blast
    next
      case False
      then have "map_of reg k = Some v"
        using k by (simp add: gomap_simps)
      with local_invD(3) [OF inv] obtain j where j: "ll_acquired (ls j)" "ll_id (ls j) = k"
        by blast
      with \<open>k \<noteq> ll_id (ls i)\<close> have "ll_acquired (?ls j) \<and> ll_id (?ls j) = k" by auto
      then show ?thesis by blast
    qed
  qed
qed

lemma local_inv_unlock: "local_inv (ls, reg) \<Longrightarrow> local_inv (local_step (UnlockOp i) (ls, reg))"
proof (cases "ll_acquired (ls i)")
  case False
  moreover assume "local_inv (ls, reg)"
  ultimately show ?thesis
    by (auto simp: local_Unlock_def)
next
  case True
  assume inv: "local_inv (ls, reg)"
  let ?ls = "ls(i := (ls i)\<lparr>ll_acquired := False\<rparr>)"
  have st: "local_step (UnlockOp i) (ls, reg) = (?ls, gomap_del (ll_id (ls i)) reg)"
    using True by (simp add: local_Unlock_def)
  have only: "ll_acquired (ls j) \<Longrightarrow> j \<noteq> i \<Longrightarrow> ll_id (ls j) \<noteq> ll_id (ls i)" for j
    using local_invD(1) [OF inv, of j i] True by auto
  show ?thesis
    unfolding st local_inv_def fst_conv snd_conv
  proof (intro conjI allI impI)
    fix j k
    assume "ll_acquired (?ls j) \<and> ll_acquired (?ls k) \<and> ll_id (?ls j) = ll_id (?ls k)"
    then show "j = k"
      using local_invD(1) [OF inv, of j k] by (auto split: if_splits)
  next
    fix j
    assume "ll_acquired (?ls j)"
    then show "map_of (gomap_del (ll_id (ls i)) reg) (ll_id (?ls j)) = Some (ll_member (?ls j))"
      using local_invD(2) [OF inv, of j] only [of j] by (auto simp: gomap_simps split: if_splits)
  next
    fix k v
    assume k: "map_of (gomap_del (ll_id (ls i)) reg) k = Some v"
    then have "map_of reg k = Some v" and "k \<noteq> ll_id (ls i)"
      by (auto simp: gomap_simps split: if_splits)
    moreover obtain j where "ll_acquired (ls j)" "ll_id (ls j) = k"
      using local_invD(3) [OF inv] \<open>map_of reg k = Some v\<close> by blast
    ultimately show "\<exists>j. ll_acquired (?ls j) \<and> ll_id (?ls j) = k"
      by auto
  qed
qed

lemma local_inv_run: "local_inv s \<Longrightarrow> local_inv (fold local_step ops s)"
proof (induction ops arbitrary: s)
  case Nil
  then show ?case by simp
next
  case (Cons x ops)
  obtain ls reg where s: "s = (ls, reg)" by (cases s)
  have "local_inv (local_step x s)"
    using Cons.prems unfolding s by (cases x) (simp_all only: local_inv_try local_inv_unlock)
  then show ?case by (simp add: Cons.IH)
qed

lemma local_step_ids:
  "ll_id (fst (local_step x s) i) = ll_id (fst s i)"
  by (cases x; cases s) (auto simp: local_lock_defs split: option.splits)

lemma local_run_ids: "ll_id (fst (fold local_step ops s) i) = ll_id (fst s i)"
  by (induction ops arbitrary: s) (auto simp: local_step_ids)

text \<open>
  C36: however the instances of a process interleave their calls of \<open>Try\<close> and \<open>Unlock\<close>,
  no two instances with the same identifier hold the in-process lock at once, and
  \<open>GetMember\<close> answers the member of the instance that holds it.
\<close>

theorem local_lock_mutual_exclusion:
  assumes "s = fold local_step ops (local_init ids members)"
    and "ll_acquired (fst s i)"
  shows "local_GetMember (snd s) (ids i) = ll_member (fst s i) \<and>
    (\<forall>j. ids j = ids i \<and> ll_acquired (fst s j) \<longrightarrow> j = i)"
proof -
  have inv: "local_inv s"
    unfolding assms(1) by (rule local_inv_run [OF local_inv_init])
  have ids: "ll_id (fst s j) = ids j" for j
    unfolding assms(1) by (simp add: local_run_ids local_init_def NewNonBlockingLock_def)
  show ?thesis
    using inv assms(2) ids by (auto simp: local_inv_def local_GetMember_def)
qed

theorem local_lock_mutual_exclusion_witness:
  "local_GetMember
     (snd (fold local_step [TryOp 0, TryOp 1]
        (local_init (\<lambda>_. ''target'') (\<lambda>i. if i = 0 then ''a'' else ''b'')))) ''target'' = ''a''"
proof -
  let ?s = "fold local_step [TryOp 0, TryOp 1]
     (local_init (\<lambda>_. ''target'') (\<lambda>i. if i = 0 then ''a'' else ''b''))"
  have "ll_acquired (fst ?s 0)" and "ll_member (fst ?s 0) = ''a''"
    by (simp_all add: local_init_def local_lock_defs)
  with local_lock_mutual_exclusion [OF refl, where i = 0 and ids = "\<lambda>_. ''target''"] show ?thesis
    by metis
qed

end
