(* ===== verification/ZkLock.thy ===== *)
theory ZkLock
  imports Locking
begin

text \<open>
  \<open>gateway/locking/zookeeper.go\<close>: the lock of one cluster member on one target, an ephemeral
  sequential Zookeeper node that is the lowest of its siblings. Every method is a \<open>zkprog\<close>
  over the Zookeeper connection; the receiver is passed in and returned updated. The
  \<open>watchState\<close> goroutine that \<open>Try\<close> starts is one poll of its loop per \<open>watch_poll\<close>.
\<close>

record zk_lock =
  zl_acquired :: bool
  zl_member :: string
  zl_id :: string
  zl_lockPath :: string
  zl_seq :: int

datatype lowest_error =
    ChildrenError zk_error
  | ChildSeqError num_error

datatype lock_error =
    ErrDeadlock
  | ErrNotLocked
  | NotConnected
  | CreateParentError zk_error
  | CreateAfterParentError zk_error
  | AddSequenceError zk_error
  | SeqParseError num_error
  | RemoveDuringSeqParse zk_error num_error
  | LowestSeqError lowest_error
  | RemoveDuringLowestSeq zk_error lowest_error
  | RemoveUnacquired zk_error
  | ReleaseError zk_error

datatype member_error =
    FindLowestError lowest_error
  | RetrieveError zk_error

definition NewZookeeperNonBlockingLock :: "string \<Rightarrow> string \<Rightarrow> zk_lock" where
  "NewZookeeperNonBlockingLock lid member =
     \<lparr>zl_acquired = False, zl_member = member, zl_id = ''/'' @ trim_char CHR ''/'' lid,
      zl_lockPath = [], zl_seq = 0\<rparr>"

definition parseSeq :: "string \<Rightarrow> num_error + int" where
  "parseSeq path = (let parts = split_on CHR '':'' path in Atoi (parts ! (length parts - 1)))"

text \<open>The loop of \<open>lowestSeqChild\<close> over the children, with its two variables.\<close>

fun lowest_loop :: "string \<Rightarrow> string list \<Rightarrow> int \<Rightarrow> string \<Rightarrow> num_error + (int \<times> string)" where
  "lowest_loop path [] lowestSeq lowestSeqPath = Inr (lowestSeq, lowestSeqPath)"
| "lowest_loop path (childPath # children) lowestSeq lowestSeqPath =
     (case parseSeq childPath of
        Inl err \<Rightarrow> Inl err
      | Inr childSeq \<Rightarrow>
          if lowestSeq = - 1 \<or> childSeq < lowestSeq
          then lowest_loop path children childSeq (path @ ''/'' @ childPath)
          else lowest_loop path children lowestSeq lowestSeqPath)"

definition lowestSeqChild :: "string \<Rightarrow> (lowest_error + (int \<times> string)) zkprog" where
  "lowestSeqChild path =
     ZkChildren path (\<lambda>r. ZkReturn
       (case r of
          Inl err \<Rightarrow> Inl (ChildrenError err)
        | Inr children \<Rightarrow>
            (case lowest_loop path children (- 1) [] of
               Inl err \<Rightarrow> Inl (ChildSeqError err)
             | Inr res \<Rightarrow> Inr res)))"

definition GetMember :: "string \<Rightarrow> (member_error + string) zkprog" where
  "GetMember lid =
     zkbind (lowestSeqChild (''/'' @ trim_char CHR ''/'' lid)) (\<lambda>r.
       case r of
         Inl err \<Rightarrow> ZkReturn (Inl (FindLowestError err))
       | Inr (_, lowestSeqPath) \<Rightarrow>
           if lowestSeqPath = [] then ZkReturn (Inr [])
           else ZkGet lowestSeqPath (\<lambda>d. ZkReturn
             (case d of Inl err \<Rightarrow> Inl (RetrieveError err) | Inr data \<Rightarrow> Inr data)))"

fun create_path_loop :: "string \<Rightarrow> string list \<Rightarrow> zk_error option zkprog" where
  "create_path_loop pth [] = ZkReturn None"
| "create_path_loop pth (p # ps) =
     (if p = [] then create_path_loop pth ps
      else ZkExists (pth @ ''/'' @ p) (\<lambda>r.
        case r of
          Inl err \<Rightarrow> ZkReturn (Some err)
        | Inr True \<Rightarrow> create_path_loop (pth @ ''/'' @ p) ps
        | Inr False \<Rightarrow> ZkCreate (pth @ ''/'' @ p) [] False (\<lambda>c.
            case c of
              Inl err \<Rightarrow>
                if err \<noteq> ErrNodeExists then ZkReturn (Some err)
                else create_path_loop (pth @ ''/'' @ p) ps
            | Inr _ \<Rightarrow> create_path_loop (pth @ ''/'' @ p) ps)))"

definition createParentPath :: "string \<Rightarrow> zk_error option zkprog" where
  "createParentPath path =
     (let parts = split_on CHR ''/'' path in create_path_loop [] (take (length parts - 1) parts))"

text \<open>
  \<open>try\<close> of the code, from its last call backwards: the comparison with the lowest sibling,
  the part that has a node path, the answer of the first creation, and the whole function.
\<close>

type_synonym try_result = "bool \<times> lock_error option \<times> zk_lock"

definition try_compare ::
    "zk_lock \<Rightarrow> string \<Rightarrow> int \<Rightarrow> lowest_error + (int \<times> string) \<Rightarrow> try_result zkprog" where
  "try_compare l path seq r =
     (case r of
        Inl err \<Rightarrow> ZkDelete path (\<lambda>d.
          case d of
            Some delErr \<Rightarrow> ZkReturn (False, Some (RemoveDuringLowestSeq delErr err), l)
          | None \<Rightarrow> ZkReturn (False, Some (LowestSeqError err), l))
      | Inr (lowestSeq, _) \<Rightarrow>
          if seq \<noteq> lowestSeq then
            ZkDelete path (\<lambda>d.
              case d of
                Some err \<Rightarrow> ZkReturn (False, Some (RemoveUnacquired err), l)
              | None \<Rightarrow> ZkReturn (False, None, l))
          else ZkReturn (True, None, l\<lparr>zl_seq := seq, zl_lockPath := path\<rparr>))"

definition try_with_path :: "zk_lock \<Rightarrow> string \<Rightarrow> try_result zkprog" where
  "try_with_path l path =
     (case parseSeq path of
        Inl err \<Rightarrow> ZkDelete path (\<lambda>d.
          case d of
            Some delErr \<Rightarrow> ZkReturn (False, Some (RemoveDuringSeqParse delErr err), l)
          | None \<Rightarrow> ZkReturn (False, Some (SeqParseError err), l))
      | Inr seq \<Rightarrow> zkbind (lowestSeqChild (zl_id l)) (try_compare l path seq))"

definition try_created :: "zk_lock \<Rightarrow> string \<Rightarrow> zk_error + string \<Rightarrow> try_result zkprog" where
  "try_created l lockPrefix r =
     (case r of
        Inl ErrNoNode \<Rightarrow>
          zkbind (createParentPath lockPrefix) (\<lambda>perr.
            case perr of
              Some err \<Rightarrow> ZkReturn (False, Some (CreateParentError err), l)
            | None \<Rightarrow> ZkCreateSeq lockPrefix (zl_member l) (\<lambda>r2.
                case r2 of
                  Inl err \<Rightarrow> ZkReturn (False, Some (CreateAfterParentError err), l)
                | Inr path \<Rightarrow> try_with_path l path))
      | Inl err \<Rightarrow> ZkReturn (False, Some (AddSequenceError err), l)
      | Inr path \<Rightarrow> try_with_path l path)"

definition try_acquire :: "zk_lock \<Rightarrow> try_result zkprog" where
  "try_acquire l =
     (if zl_lockPath l \<noteq> [] then ZkReturn (True, Some ErrDeadlock, l)
      else (let lockPrefix = zl_id l @ ''/lock:''
            in ZkCreateSeq lockPrefix (zl_member l) (try_created l lockPrefix)))"

definition is_connected :: "zk_state \<Rightarrow> bool" where
  "is_connected s \<longleftrightarrow> s = StateConnected \<or> s = StateHasSession"

text \<open>\<open>Try\<close> starts the \<open>watchState\<close> goroutine exactly when it answers True.\<close>

definition Try :: "zk_lock \<Rightarrow> try_result zkprog" where
  "Try l =
     ZkState (\<lambda>currentState.
       if is_connected currentState then
         zkbind (try_acquire l) (\<lambda>(acquired, err, l').
           ZkReturn (acquired, err, l'\<lparr>zl_acquired := acquired\<rparr>))
       else ZkReturn (False, Some NotConnected, l))"

definition Unlock :: "zk_lock \<Rightarrow> (lock_error option \<times> zk_lock) zkprog" where
  "Unlock l =
     (if zl_lockPath l = [] then ZkReturn (Some ErrNotLocked, l)
      else ZkDelete (zl_lockPath l) (\<lambda>d.
        case d of
          Some err \<Rightarrow> ZkReturn (Some (ReleaseError err), l)
        | None \<Rightarrow> ZkReturn (None, l\<lparr>zl_lockPath := [], zl_seq := 0, zl_acquired := False\<rparr>)))"

text \<open>
  One evaluation of the loop condition of \<open>watchState\<close>: \<open>Inr s\<close> when the loop goes on with
  the state \<open>s\<close> polled after the sleep, \<open>Inl ()\<close> when the goroutine ends.
\<close>

definition watch_poll :: "zk_state \<Rightarrow> zk_lock \<Rightarrow> ((unit + zk_state) \<times> zk_lock) zkprog" where
  "watch_poll currentState l =
     (if zl_acquired l \<and> is_connected currentState then ZkState (\<lambda>s. ZkReturn (Inr s, l))
      else if zl_acquired l then zkbind (Unlock l) (\<lambda>(_, l'). ZkReturn (Inl (), l'))
      else ZkReturn (Inl (), l))"

section \<open>Sequence numbers\<close>

lemma parseSeq_last: "parseSeq path = Atoi (last (split_on CHR '':'' path))"
  by (simp add: parseSeq_def Let_def last_conv_nth)

lemma parseSeq_append: "CHR '':'' \<notin> set q \<Longrightarrow> parseSeq (p @ CHR '':'' # q) = Atoi q"
  by (simp add: parseSeq_last last_split_on_append)

lemma parseSeq_child:
  assumes "CHR '':'' \<in> set n"
  shows "parseSeq (path @ ''/'' @ n) = parseSeq n"
proof -
  obtain a b where n: "n = a @ CHR '':'' # b" and b: "CHR '':'' \<notin> set b"
    using assms by (metis split_list_last)
  have "parseSeq ((path @ ''/'' @ a) @ CHR '':'' # b) = Atoi b"
    using b by (rule parseSeq_append)
  then show ?thesis
    using b n by (simp add: parseSeq_append)
qed

lemma parseSeq_Nil [simp]: "parseSeq [] = Inl ErrSyntax"
  by (simp add: parseSeq_last)

text \<open>
  With nonnegative sequence numbers the loop gives the smallest one, and \<open>-1\<close> when there are
  no children.
\<close>

definition seq_of :: "string \<Rightarrow> int" where
  "seq_of n = (case parseSeq n of Inr s \<Rightarrow> s | Inl _ \<Rightarrow> - 1)"

lemma lowest_loop_min:
  assumes "lowest_loop path cs lo lop = Inr (s, sp)"
    and "\<forall>c \<in> set cs. \<exists>k \<ge> 0. parseSeq c = Inr k" and "lo \<ge> - 1"
  shows "(\<forall>c \<in> set cs. s \<le> seq_of c) \<and> (lo \<noteq> - 1 \<longrightarrow> s \<le> lo) \<and>
    (s = lo \<and> sp = lop \<or> (\<exists>c \<in> set cs. s = seq_of c \<and> sp = path @ ''/'' @ c))"
  using assms
proof (induction cs arbitrary: lo lop)
  case Nil
  then show ?case by simp
next
  case (Cons c cs)
  from Cons.prems(2) obtain k where k: "k \<ge> 0" "parseSeq c = Inr k" by auto
  then have sk: "seq_of c = k" by (simp add: seq_of_def)
  show ?case
  proof (cases "lo = - 1 \<or> k < lo")
    case True
    with Cons.prems k have "lowest_loop path cs k (path @ ''/'' @ c) = Inr (s, sp)" by simp
    from Cons.IH [OF this] Cons.prems(2) k sk True show ?thesis by auto
  next
    case False
    with Cons.prems k have "lowest_loop path cs lo lop = Inr (s, sp)" by simp
    from Cons.IH [OF this] Cons.prems k sk False show ?thesis by auto
  qed
qed

lemma lowest_loop_error:
  "lowest_loop path cs lo lop = Inl e \<Longrightarrow> \<exists>c \<in> set cs. parseSeq c = Inl e"
  by (induction cs arbitrary: lo lop) (auto split: sum.splits if_splits)

section \<open>The lock is a locker\<close>

text \<open>The two views of a lock instance agree: it is acquired exactly when it has a node path.\<close>

definition zk_lock_ok :: "zk_lock \<Rightarrow> bool" where
  "zk_lock_ok l \<longleftrightarrow> (zl_acquired l \<longleftrightarrow> zl_lockPath l \<noteq> [])"

definition zk_try :: "'z zk_service \<Rightarrow> 'z \<Rightarrow> zk_lock \<Rightarrow>
    (bool \<times> lock_error option) \<times> zk_lock \<times> 'z" where
  "zk_try svc z l = (case run_zk svc (Try l) z of ((b, e, l'), z') \<Rightarrow> ((b, e), l', z'))"

definition zk_unlock :: "'z zk_service \<Rightarrow> 'z \<Rightarrow> zk_lock \<Rightarrow>
    lock_error option \<times> zk_lock \<times> 'z" where
  "zk_unlock svc z l = (case run_zk svc (Unlock l) z of ((e, l'), z') \<Rightarrow> (e, l', z'))"

text \<open>
  What \<open>try_acquire\<close> can return on a free lock: the unchanged lock without it being taken,
  or the lock with a nonempty node path.
\<close>

definition try_post :: "zk_lock \<Rightarrow> try_result \<Rightarrow> bool" where
  "try_post l r \<longleftrightarrow>
     (case r of (b, e, l') \<Rightarrow>
        (\<not> b \<and> l' = l) \<or>
        (b \<and> e = None \<and> (\<exists>s p. p \<noteq> [] \<and> l' = l\<lparr>zl_seq := s, zl_lockPath := p\<rparr>)))"

lemma try_compare_post: "path \<noteq> [] \<Longrightarrow> zk_all (try_post l) (try_compare l path seq r)"
  by (auto simp: try_compare_def try_post_def split: sum.splits option.splits)

lemma try_with_path_post: "zk_all (try_post l) (try_with_path l path)"
proof (cases "parseSeq path")
  case (Inl e)
  then show ?thesis
    by (auto simp: try_with_path_def try_post_def split: option.splits)
next
  case (Inr s)
  then have "path \<noteq> []" by auto
  with Inr show ?thesis
    by (auto simp: try_with_path_def zk_all_bind intro!: zk_all_mono [OF try_compare_post zk_all_True])
qed

lemma try_created_post: "zk_all (try_post l) (try_created l lockPrefix r)"
proof -
  have "zk_all (try_post l) (ZkReturn (False, e, l))" for e
    by (simp add: try_post_def)
  then show ?thesis
    by (auto simp: try_created_def try_with_path_post
        intro!: zk_all_bind_any split: sum.splits zk_error.splits option.splits)
qed

lemma try_acquire_post: "zl_lockPath l = [] \<Longrightarrow> zk_all (try_post l) (try_acquire l)"
  by (simp add: try_acquire_def Let_def try_created_post)

lemma Try_free:
  assumes "zk_lock_ok l" and "zl_lockPath l = []"
  shows "zk_all (\<lambda>(b, e, l'). (\<not> b \<and> l' = l) \<or>
     (b \<and> e = None \<and> zl_acquired l' \<and> zl_lockPath l' \<noteq> [])) (Try l)"
proof -
  have "\<not> zl_acquired l" using assms by (simp add: zk_lock_ok_def)
  then have "zl_acquired_update (\<lambda>_. False) l = l" by simp
  then show ?thesis
    using assms
    by (auto simp: Try_def zk_all_bind try_post_def
        intro!: zk_all_mono [OF _ try_acquire_post [OF assms(2)]])
qed

lemma zk_try_held:
  "zl_lockPath l \<noteq> [] \<Longrightarrow>
   zk_try svc z l =
     (if is_connected (fst (zks_state svc z))
      then ((True, Some ErrDeadlock), l\<lparr>zl_acquired := True\<rparr>, snd (zks_state svc z))
      else ((False, Some NotConnected), l, snd (zks_state svc z)))"
  by (simp add: zk_try_def Try_def try_acquire_def Let_def)

lemma zk_try_free:
  assumes "zk_lock_ok l" and "zl_lockPath l = []" and "zk_try svc z l = ((b, e), l', z')"
  shows "(\<not> b \<and> l' = l) \<or> (b \<and> e = None \<and> zl_acquired l' \<and> zl_lockPath l' \<noteq> [])"
  using zk_all_run [OF Try_free [OF assms(1,2)], of svc z] assms(3)
  by (auto simp: zk_try_def split: prod.splits)

lemma zk_unlock_eq:
  "zk_unlock svc z l =
     (if zl_lockPath l = [] then (Some ErrNotLocked, l, z)
      else (case zks_delete svc (zl_lockPath l) z of
          (Some err, z') \<Rightarrow> (Some (ReleaseError err), l, z')
        | (None, z') \<Rightarrow> (None, l\<lparr>zl_lockPath := [], zl_seq := 0, zl_acquired := False\<rparr>, z')))"
  by (simp add: zk_unlock_def Unlock_def Let_def split: prod.splits option.splits)

interpretation zk_locker: distributed_locker zl_acquired "zk_try svc" "zk_unlock svc" zk_lock_ok
  for svc
proof
  fix w :: 'a and l l' r w'
  assume ok: "zk_lock_ok l" and t: "zk_try svc w l = (r, l', w')"
  show "zk_lock_ok l'"
  proof (cases "zl_lockPath l = []")
    case True
    with zk_try_free [OF ok True, of svc w "fst r" "snd r"] t ok show ?thesis
      by (auto simp: zk_lock_ok_def)
  next
    case False
    with t ok show ?thesis by (auto simp: zk_try_held zk_lock_ok_def split: if_splits)
  qed
next
  fix w :: 'a and l l' e w'
  assume "zk_lock_ok l" and "zk_unlock svc w l = (e, l', w')"
  then show "zk_lock_ok l'"
    by (auto simp: zk_unlock_eq zk_lock_ok_def split: if_splits prod.splits option.splits)
next
  fix w :: 'a and l l' e w'
  assume ok: "zk_lock_ok l" and t: "zk_try svc w l = ((True, e), l', w')"
  show "zl_acquired l'"
  proof (cases "zl_lockPath l = []")
    case True
    with zk_try_free [OF ok True t] show ?thesis by simp
  next
    case False
    with t show ?thesis by (auto simp: zk_try_held split: if_splits)
  qed
next
  fix w :: 'a and l l' b w'
  assume ok: "zk_lock_ok l" and t: "zk_try svc w l = ((b, None), l', w')"
  show "zl_acquired l' = b"
  proof (cases "zl_lockPath l = []")
    case True
    with zk_try_free [OF ok True t] ok show ?thesis by (auto simp: zk_lock_ok_def)
  next
    case False
    with t show ?thesis by (auto simp: zk_try_held split: if_splits)
  qed
next
  fix w :: 'a and l l' b e w'
  assume ok: "zk_lock_ok l" and a: "zl_acquired l" and t: "zk_try svc w l = ((b, e), l', w')"
  then have "zl_lockPath l \<noteq> []" by (simp add: zk_lock_ok_def)
  with t a show "e \<noteq> None \<and> l' = l" by (auto simp: zk_try_held split: if_splits)
next
  fix w :: 'a and l l' w'
  assume "zk_lock_ok l" and "zk_unlock svc w l = (None, l', w')"
  then show "\<not> zl_acquired l'"
    by (auto simp: zk_unlock_eq split: if_splits prod.splits option.splits)
next
  fix w :: 'a and l l' x w'
  assume "zk_lock_ok l" and "zk_unlock svc w l = (Some x, l', w')"
  then show "l' = l"
    by (auto simp: zk_unlock_eq split: if_splits prod.splits option.splits)
next
  fix w :: 'a and l l' e w'
  assume "zk_lock_ok l" and "\<not> zl_acquired l" and "zk_unlock svc w l = (e, l', w')"
  then show "e \<noteq> None" by (auto simp: zk_unlock_eq zk_lock_ok_def)
qed

end
