(* ===== verification/ZkLockSystem.thy ===== *)
theory ZkLockSystem
  imports ZkLock
begin

text \<open>
  Many cluster members, each with its own lock instance on the same target, interleaved call
  by call on one Zookeeper ensemble. What the code relies on is documented Zookeeper behaviour,
  stated by \<open>sequential_service\<close>: sequential nodes get increasing numbers, a node that
  disappeared does not come back under its name, and a client sees at least what it wrote
  itself (a list of children may be stale, but not older than the client's own last node).
  Under it the lock node that is the lowest belongs to one member only.
\<close>

section \<open>The lock directory\<close>

record 'z lock_dir =
  ld_nodes :: "'z \<Rightarrow> string \<rightharpoonup> nat"
  ld_high :: "'z \<Rightarrow> int"
  ld_seen :: "nat \<Rightarrow> 'z \<Rightarrow> int"

text \<open>
  \<open>ld_nodes\<close> maps the names of the existing nodes to the client whose session owns them,
  \<open>ld_high\<close> bounds every number given out so far, \<open>ld_seen i\<close> is the highest number that
  client \<open>i\<close> has been answered.
\<close>

definition dir_moves :: "'z lock_dir \<Rightarrow> 'z \<Rightarrow> 'z \<Rightarrow> bool" where
  "dir_moves D z y \<longleftrightarrow>
     ld_high D z \<le> ld_high D y \<and>
     (\<forall>i. ld_seen D i z \<le> ld_seen D i y) \<and>
     (\<forall>n own. ld_nodes D y n = Some own \<longrightarrow> ld_nodes D z n = Some own \<or> ld_high D z < seq_of n)"

definition seq_name :: "string \<Rightarrow> bool" where
  "seq_name n \<longleftrightarrow> CHR '':'' \<in> set n \<and> (\<exists>s \<ge> 0. parseSeq n = Inr s)"

definition sequential_service ::
    "'z lock_dir \<Rightarrow> string \<Rightarrow> (nat \<Rightarrow> 'z zk_service) \<Rightarrow> ('z \<Rightarrow> 'z \<Rightarrow> bool) \<Rightarrow> bool" where
  "sequential_service D lid svc env \<longleftrightarrow>
     (\<forall>i. zk_moves (svc i) (dir_moves D)) \<and>
     (\<forall>z y. env z y \<longrightarrow> dir_moves D z y) \<and>
     (\<forall>z. inj_on seq_of (dom (ld_nodes D z))) \<and>
     (\<forall>z. \<forall>n \<in> dom (ld_nodes D z). seq_name n \<and> seq_of n \<le> ld_high D z) \<and>
     (\<forall>i z d path y. zks_create_seq (svc i) (lid @ ''/lock:'') d z = (Inr path, y) \<longrightarrow>
        (\<exists>n. path = lid @ ''/'' @ n \<and> seq_name n \<and> ld_nodes D y n = Some i \<and>
             seq_of n \<le> ld_seen D i y)) \<and>
     (\<forall>i z names y. zks_children (svc i) lid z = (Inr names, y) \<longrightarrow>
        (\<forall>n \<in> set names. seq_name n) \<and>
        (\<forall>n \<in> dom (ld_nodes D y). seq_of n \<le> ld_seen D i y \<longrightarrow> n \<in> set names))"

lemma reflp_dir_moves [simp]: "reflp (dir_moves D)"
  by (rule reflpI) (simp add: dir_moves_def)

lemma dir_moves_refl [simp]: "dir_moves D z z"
  by (rule reflpD [OF reflp_dir_moves])

lemma transp_dir_moves [simp]: "transp (dir_moves D)"
proof (rule transpI)
  fix x y z
  assume a: "dir_moves D x y" and b: "dir_moves D y z"
  show "dir_moves D x z"
    unfolding dir_moves_def
  proof (intro conjI allI impI)
    show "ld_high D x \<le> ld_high D z" using a b by (auto simp: dir_moves_def)
    show "ld_seen D i x \<le> ld_seen D i z" for i
      using a b unfolding dir_moves_def by (meson order_trans)
    fix n own
    assume "ld_nodes D z n = Some own"
    then have "ld_nodes D y n = Some own \<or> ld_high D y < seq_of n"
      using b by (auto simp: dir_moves_def)
    then show "ld_nodes D x n = Some own \<or> ld_high D x < seq_of n"
      using a by (auto simp: dir_moves_def)
  qed
qed

lemma dir_moves_node:
  assumes "dir_moves D z y" and "ld_nodes D y n = Some own"
  shows "ld_nodes D z n = Some own \<or> ld_high D z < seq_of n"
  using assms unfolding dir_moves_def by blast

lemma dir_moves_old_node:
  "dir_moves D z y \<Longrightarrow> ld_nodes D y n = Some own \<Longrightarrow> seq_of n \<le> ld_high D z \<Longrightarrow>
   ld_nodes D z n = Some own"
  using dir_moves_node by fastforce

lemma dir_moves_high: "dir_moves D z y \<Longrightarrow> ld_high D z \<le> ld_high D y"
  by (simp add: dir_moves_def)

lemma dir_moves_seen: "dir_moves D z y \<Longrightarrow> ld_seen D i z \<le> ld_seen D i y"
  by (simp add: dir_moves_def)

lemma seq_name_parse: "seq_name n \<Longrightarrow> parseSeq (p @ ''/'' @ n) = Inr (seq_of n)"
  by (auto simp: seq_name_def seq_of_def parseSeq_child simp del: append_Cons)

section \<open>What a client keeps true\<close>

text \<open>
  \<open>lock_claim\<close>: a lock with a node path whose node still exists owns that node, and the node
  is the lowest. It does not mention the \<open>acquired\<close> flag, which the code also keeps set after
  the node is gone.
\<close>

definition lock_claim :: "'z lock_dir \<Rightarrow> string \<Rightarrow> nat \<Rightarrow> zk_lock \<Rightarrow> 'z \<Rightarrow> bool" where
  "lock_claim D lid i l z \<longleftrightarrow>
     zl_id l = lid \<and>
     (zl_lockPath l \<noteq> [] \<longrightarrow>
        (\<exists>n. zl_lockPath l = lid @ ''/'' @ n \<and> seq_of n \<le> ld_high D z \<and>
          (\<forall>own. ld_nodes D z n = Some own \<longrightarrow>
             own = i \<and> (\<forall>m \<in> dom (ld_nodes D z). seq_of n \<le> seq_of m))))"

text \<open>\<open>own_node\<close>: the client has created the node \<open>n\<close>, and nobody else owns one of that name.\<close>

definition own_node :: "'z lock_dir \<Rightarrow> nat \<Rightarrow> string \<Rightarrow> 'z \<Rightarrow> bool" where
  "own_node D i n z \<longleftrightarrow>
     seq_name n \<and> seq_of n \<le> ld_high D z \<and> seq_of n \<le> ld_seen D i z \<and>
     (\<forall>own. ld_nodes D z n = Some own \<longrightarrow> own = i)"

lemma lock_claim_stable:
  assumes "lock_claim D lid i l z" and "dir_moves D z y"
  shows "lock_claim D lid i l y"
proof (cases "zl_lockPath l = []")
  case True
  with assms(1) show ?thesis by (simp add: lock_claim_def)
next
  case False
  with assms(1) obtain n where n: "zl_lockPath l = lid @ ''/'' @ n" "seq_of n \<le> ld_high D z"
      and own: "\<And>own. ld_nodes D z n = Some own \<Longrightarrow>
        own = i \<and> (\<forall>m \<in> dom (ld_nodes D z). seq_of n \<le> seq_of m)"
    by (auto simp: lock_claim_def)
  have "own' = i \<and> (\<forall>m \<in> dom (ld_nodes D y). seq_of n \<le> seq_of m)"
    if "ld_nodes D y n = Some own'" for own'
  proof -
    from assms(2) that n(2) have z: "ld_nodes D z n = Some own'"
      by (rule dir_moves_old_node)
    have "seq_of n \<le> seq_of m" if m: "m \<in> dom (ld_nodes D y)" for m
    proof -
      from m obtain o2 where "ld_nodes D y m = Some o2" by auto
      from dir_moves_node [OF assms(2) this] own [OF z] n(2) show ?thesis by fastforce
    qed
    with own [OF z] show ?thesis by blast
  qed
  moreover have "seq_of n \<le> ld_high D y"
    using n(2) dir_moves_high [OF assms(2)] by simp
  moreover have "zl_id l = lid" using assms(1) by (simp add: lock_claim_def)
  ultimately show ?thesis using n(1) by (auto simp: lock_claim_def)
qed

lemma own_node_stable:
  assumes "own_node D i n z" and "dir_moves D z y"
  shows "own_node D i n y"
proof -
  have "own = i" if "ld_nodes D y n = Some own" for own
    using dir_moves_old_node [OF assms(2) that] assms(1) by (simp add: own_node_def)
  with assms(1) dir_moves_high [OF assms(2)] dir_moves_seen [OF assms(2), of i] show ?thesis
    by (auto simp: own_node_def)
qed

lemma lock_claim_node:
  assumes "lock_claim D lid i l z" and "zl_lockPath l = lid @ ''/'' @ n"
    and "ld_nodes D z n = Some own"
  shows "own = i \<and> (\<forall>m \<in> dom (ld_nodes D z). seq_of n \<le> seq_of m)"
proof -
  obtain k where "lid @ ''/'' @ n = lid @ ''/'' @ k"
      "\<forall>own. ld_nodes D z k = Some own \<longrightarrow>
         own = i \<and> (\<forall>m \<in> dom (ld_nodes D z). seq_of k \<le> seq_of m)"
    using assms(1,2) by (auto simp: lock_claim_def)
  with assms(3) show ?thesis by auto
qed

lemma lock_claim_free: "zl_id l = lid \<Longrightarrow> zl_lockPath l = [] \<Longrightarrow> lock_claim D lid i l z"
  by (simp add: lock_claim_def)

lemma lock_claim_acquired [simp]:
  "lock_claim D lid i (zl_acquired_update f l) z = lock_claim D lid i l z"
  by (simp add: lock_claim_def)

section \<open>The programs keep it under interference\<close>

abbreviation try_wp ::
    "'z lock_dir \<Rightarrow> string \<Rightarrow> 'z zk_service \<Rightarrow> nat \<Rightarrow> try_result zkprog \<Rightarrow> 'z \<Rightarrow> bool" where
  "try_wp D lid sv i \<equiv> zk_wp sv (dir_moves D) (\<lambda>(b, e, l) z. lock_claim D lid i l z)"

lemma try_wp_free:
  "zl_id l = lid \<Longrightarrow> zl_lockPath l = [] \<Longrightarrow> try_wp D lid sv i (ZkReturn (b, e, l)) z"
  by (simp add: lock_claim_free)

lemma zk_wp_any [simp]: "zk_wp sv R (\<lambda>_ _. True) p z"
  by (induction p arbitrary: z) auto

lemma zk_wp_mono:
  "(\<And>a z. P a z \<Longrightarrow> Q a z) \<Longrightarrow> zk_wp sv R P p z \<Longrightarrow> zk_wp sv R Q p z"
  by (induction p arbitrary: z) auto

lemma zk_wp_bind_any:
  assumes "reflp R" and "transp R" and "\<And>a y. zk_wp sv R Q (f a) y"
  shows "zk_wp sv R Q (zkbind p f) z"
proof (rule zk_wp_bind [OF zk_wp_mono [OF _ zk_wp_any] assms(1,2)])
  show "zk_wp sv R Q (f a) y" for a y by (rule assms(3))
qed

text \<open>The comparison, given the answer of the listing in the state \<open>y\<close>.\<close>

lemma lock_claim_lowest:
  assumes "own_node D i n y"
    and names: "\<forall>m \<in> set names. seq_name m"
    and all: "\<forall>m \<in> dom (ld_nodes D y). seq_of m \<le> ld_seen D i y \<longrightarrow> m \<in> set names"
    and low: "lowest_loop lid names (- 1) [] = Inr (seq_of n, sp)"
    and "zl_id l = lid"
  shows "lock_claim D lid i (l\<lparr>zl_seq := q, zl_lockPath := lid @ ''/'' @ n\<rparr>) y"
proof -
  have min: "\<forall>c \<in> set names. seq_of n \<le> seq_of c"
    using lowest_loop_min [OF low] names by (simp add: seq_name_def)
  have "seq_of n \<le> seq_of m" if "m \<in> dom (ld_nodes D y)" for m
  proof (cases "seq_of m \<le> ld_seen D i y")
    case True
    with that all min show ?thesis by auto
  next
    case False
    with assms(1) show ?thesis by (simp add: own_node_def)
  qed
  with assms(1,5) show ?thesis
    by (auto simp: lock_claim_def own_node_def)
qed

lemma try_wp_delete:
  assumes "\<And>d y. try_wp D lid sv i (k d) y"
  shows "try_wp D lid sv i (ZkDelete p k) z"
  using assms by simp

text \<open>What follows the answer of the listing in the state \<open>y\<close>.\<close>

lemma try_wp_compare:
  assumes l: "zl_id l = lid" "zl_lockPath l = []"
    and low: "\<And>names sp. r = Inr names \<Longrightarrow> lowest_loop lid names (- 1) [] = Inr (seq_of n, sp) \<Longrightarrow>
      lock_claim D lid i (l\<lparr>zl_seq := seq_of n, zl_lockPath := lid @ ''/'' @ n\<rparr>) y"
  shows "try_wp D lid sv i
      (try_compare l (lid @ ''/'' @ n) (seq_of n)
        (case r of
           Inl err \<Rightarrow> Inl (ChildrenError err)
         | Inr children \<Rightarrow>
             (case lowest_loop lid children (- 1) [] of
                Inl err \<Rightarrow> Inl (ChildSeqError err) | Inr res \<Rightarrow> Inr res))) y"
proof -
  have free: "try_wp D lid sv i (ZkReturn (b, e, l)) x" for b e x
    using l by (rule try_wp_free)
  consider (err) "\<exists>e. r = Inl e" | (parse) names e where "r = Inr names"
      "lowest_loop lid names (- 1) [] = Inl e"
    | (low) names lo sp where "r = Inr names" "lowest_loop lid names (- 1) [] = Inr (lo, sp)"
    by (metis surj_pair old.sum.exhaust)
  then show ?thesis
  proof cases
    case low
    with assms(3) [of names sp] free show ?thesis
      by (cases "seq_of n = lo") (auto simp: try_compare_def intro: lock_claim_stable split: option.splits)
  qed (use free in \<open>auto simp: try_compare_def split: option.splits\<close>)
qed

lemma try_wp_with_path:
  assumes svc: "sequential_service D lid svc env" and l: "zl_id l = lid" "zl_lockPath l = []"
    and own: "own_node D i n z"
  shows "try_wp D lid (svc i) i (try_with_path l (lid @ ''/'' @ n)) z"
proof -
  have seq: "parseSeq (lid @ ''/'' @ n) = Inr (seq_of n)"
    using own by (intro seq_name_parse) (simp add: own_node_def)
  have claim: "lock_claim D lid i (l\<lparr>zl_seq := seq_of n, zl_lockPath := lid @ ''/'' @ n\<rparr>) y2"
    if "dir_moves D z y" "zks_children (svc i) lid y = (Inr names, y2)"
      "lowest_loop lid names (- 1) [] = Inr (seq_of n, sp)" for y y2 names sp
  proof -
    have "dir_moves D y (snd (zks_children (svc i) lid y))"
      using svc by (simp add: sequential_service_def zk_moves_def)
    with own that(1,2) have "own_node D i n y2" by (auto intro: own_node_stable)
    then show ?thesis
      using svc that(2) l(1)
      by (intro lock_claim_lowest [OF _ _ _ that(3)]) (auto simp: sequential_service_def)
  qed
  show ?thesis
    unfolding try_with_path_def lowestSeqChild_def seq l(1) zkbind.simps sum.case zk_wp.simps
    by (intro allI impI try_wp_compare [OF l] claim) (auto intro: prod_eqI)
qed

lemma try_wp_create_seq:
  assumes svc: "sequential_service D lid svc env" and l: "zl_id l = lid" "zl_lockPath l = []"
    and err: "\<And>e y. try_wp D lid (svc i) i (k (Inl e)) y"
    and path: "\<And>p. k (Inr p) = try_with_path l p"
  shows "try_wp D lid (svc i) i (ZkCreateSeq (lid @ ''/lock:'') d k) z"
proof -
  have "try_wp D lid (svc i) i (k (fst (zks_create_seq (svc i) (lid @ ''/lock:'') d y)))
      (snd (zks_create_seq (svc i) (lid @ ''/lock:'') d y))" for y
  proof (cases "zks_create_seq (svc i) (lid @ ''/lock:'') d y")
    case (Pair r y2)
    show ?thesis
    proof (cases r)
      case (Inl e)
      with Pair err show ?thesis by simp
    next
      case (Inr p)
      with svc Pair obtain n where n: "p = lid @ ''/'' @ n" "seq_name n"
          "ld_nodes D y2 n = Some i" "seq_of n \<le> ld_seen D i y2"
        unfolding sequential_service_def by blast
      moreover have "seq_of n \<le> ld_high D y2"
        using svc n(3) unfolding sequential_service_def by blast
      ultimately have "own_node D i n y2" by (simp add: own_node_def)
      from try_wp_with_path [OF svc l this] show ?thesis
        using Pair Inr n(1) path by simp
    qed
  qed
  then show ?thesis by simp
qed

lemma try_wp_created:
  assumes svc: "sequential_service D lid svc env" and l: "zl_id l = lid" "zl_lockPath l = []"
  shows "try_wp D lid (svc i) i (try_created l (lid @ ''/lock:'') (Inl e)) y"
proof (cases e)
  case ErrNoNode
  let ?f = "\<lambda>perr. case perr of
      Some err \<Rightarrow> ZkReturn (False, Some (CreateParentError err), l)
    | None \<Rightarrow> ZkCreateSeq (lid @ ''/lock:'') (zl_member l) (\<lambda>r2.
        case r2 of
          Inl err \<Rightarrow> ZkReturn (False, Some (CreateAfterParentError err), l)
        | Inr path \<Rightarrow> try_with_path l path)"
  have "try_wp D lid (svc i) i (?f perr) x" for perr x
  proof (cases perr)
    case None
    have "try_wp D lid (svc i) i (ZkCreateSeq (lid @ ''/lock:'') (zl_member l) (\<lambda>r2.
        case r2 of
          Inl err \<Rightarrow> ZkReturn (False, Some (CreateAfterParentError err), l)
        | Inr path \<Rightarrow> try_with_path l path)) x"
      using l by (intro try_wp_create_seq [OF svc l]) (simp_all add: lock_claim_free)
    with None show ?thesis by simp
  next
    case (Some err)
    with l show ?thesis by (simp add: lock_claim_free)
  qed
  then have "try_wp D lid (svc i) i (zkbind (createParentPath (lid @ ''/lock:'')) ?f) y"
    by (intro zk_wp_bind_any) simp_all
  with ErrNoNode show ?thesis by (simp add: try_created_def)
qed (simp_all add: try_created_def lock_claim_free l)

lemma try_wp_acquire:
  assumes svc: "sequential_service D lid svc env" and c: "lock_claim D lid i l z"
  shows "try_wp D lid (svc i) i (try_acquire l) z"
proof (cases "zl_lockPath l = []")
  case False
  with c show ?thesis by (auto simp: try_acquire_def intro: lock_claim_stable)
next
  case True
  have l: "zl_id l = lid" using c by (simp add: lock_claim_def)
  have "try_wp D lid (svc i) i
      (ZkCreateSeq (lid @ ''/lock:'') (zl_member l) (try_created l (lid @ ''/lock:''))) z"
    by (intro try_wp_create_seq [OF svc l True] try_wp_created [OF svc l True])
       (simp add: try_created_def)
  with True l show ?thesis by (simp add: try_acquire_def Let_def)
qed

lemma svc_moves:
  assumes "sequential_service D lid svc env" and "lock_claim D lid i l z" and "dir_moves D z y"
  shows "lock_claim D lid i l (snd (zks_state (svc i) y))"
    and "lock_claim D lid i l (snd (zks_delete (svc i) p y))"
proof -
  have "dir_moves D y (snd (zks_state (svc i) y))" "dir_moves D y (snd (zks_delete (svc i) p y))"
    using assms(1) by (auto simp: sequential_service_def zk_moves_def)
  with assms(2,3) show "lock_claim D lid i l (snd (zks_state (svc i) y))"
    and "lock_claim D lid i l (snd (zks_delete (svc i) p y))"
    by (blast intro: lock_claim_stable)+
qed

abbreviation unlock_wp ::
    "'z lock_dir \<Rightarrow> string \<Rightarrow> 'z zk_service \<Rightarrow> nat \<Rightarrow> (lock_error option \<times> zk_lock) zkprog \<Rightarrow> 'z \<Rightarrow> bool" where
  "unlock_wp D lid sv i \<equiv> zk_wp sv (dir_moves D) (\<lambda>(e, l) z. lock_claim D lid i l z)"

lemma Try_wp:
  assumes svc: "sequential_service D lid svc env" and c: "lock_claim D lid i l z"
  shows "try_wp D lid (svc i) i (Try l) z"
proof -
  have "zk_wp (svc i) (dir_moves D) (\<lambda>(b, e, l) z. lock_claim D lid i l z)
      (zkbind (try_acquire l) (\<lambda>(acquired, err, l').
         ZkReturn (acquired, err, l'\<lparr>zl_acquired := acquired\<rparr>))) y"
    if "lock_claim D lid i l y" for y
    by (rule zk_wp_bind, rule zk_wp_mono [OF _ try_wp_acquire [OF svc that]])
       (auto intro: lock_claim_stable)
  then show ?thesis
    using svc_moves(1) [OF svc c] by (auto simp: Try_def intro: lock_claim_stable)
qed

lemma Unlock_wp:
  assumes svc: "sequential_service D lid svc env" and c: "lock_claim D lid i l z"
  shows "unlock_wp D lid (svc i) i (Unlock l) z"
proof (cases "zl_lockPath l = []")
  case True
  with c show ?thesis by (auto simp: Unlock_def intro: lock_claim_stable)
next
  case False
  have free: "lock_claim D lid i (l\<lparr>zl_lockPath := [], zl_seq := 0, zl_acquired := False\<rparr>) y" for y
    using c by (simp add: lock_claim_def)
  have kept: "unlock_wp D lid (svc i) i (ZkReturn (e, l)) (snd (zks_delete (svc i) p y))"
    if "dir_moves D z y" for e p y
    using svc_moves(2) [OF svc c that, of p] by (auto intro: lock_claim_stable)
  show ?thesis
    using False free kept by (auto simp: Unlock_def split: option.splits)
qed

lemma zk_wp_after:
  "zk_wp sv (dir_moves D) Q p z \<Longrightarrow> zk_step sv p z = (p', z') \<Longrightarrow> zk_wp sv (dir_moves D) Q p' z'"
  using zk_wp_step [OF reflp_dir_moves, of sv D Q p z] by simp

lemma zk_step_dir_moves:
  "zk_moves sv (dir_moves D) \<Longrightarrow> zk_step sv p z = (p', z') \<Longrightarrow> dir_moves D z z'"
  using zk_moves_step [OF _ reflp_dir_moves, of sv D z p] by simp

text \<open>The operation a member runs: \<open>Try\<close> or \<open>Unlock\<close>, of which only the receiver is kept.\<close>

definition try_op :: "zk_lock \<Rightarrow> zk_lock zkprog" where
  "try_op l = zkbind (Try l) (\<lambda>(_, _, l'). ZkReturn l')"

definition unlock_op :: "zk_lock \<Rightarrow> zk_lock zkprog" where
  "unlock_op l = zkbind (Unlock l) (\<lambda>(_, l'). ZkReturn l')"

definition op_wp ::
    "'z lock_dir \<Rightarrow> string \<Rightarrow> 'z zk_service \<Rightarrow> nat \<Rightarrow> zk_lock zkprog \<Rightarrow> 'z \<Rightarrow> bool" where
  "op_wp D lid sv i p z = zk_wp sv (dir_moves D) (lock_claim D lid i) p z"

lemma op_wp_bind:
  assumes "zk_wp sv (dir_moves D) (\<lambda>a z. lock_claim D lid i (f a) z) p z"
  shows "op_wp D lid sv i (zkbind p (\<lambda>a. ZkReturn (f a))) z"
  unfolding op_wp_def
  by (rule zk_wp_bind, rule zk_wp_mono [OF _ assms]) (auto intro: lock_claim_stable)

lemma op_wp_try:
  assumes "sequential_service D lid svc env" and "lock_claim D lid i l z"
  shows "op_wp D lid (svc i) i (try_op l) z"
  using op_wp_bind [of _ _ _ _ "\<lambda>(_, _, l'). l'"] Try_wp [OF assms]
  by (simp add: try_op_def case_prod_unfold)

lemma op_wp_unlock:
  assumes "sequential_service D lid svc env" and "lock_claim D lid i l z"
  shows "op_wp D lid (svc i) i (unlock_op l) z"
  using op_wp_bind [of _ _ _ _ "\<lambda>(_, l'). l'"] Unlock_wp [OF assms]
  by (simp add: unlock_op_def case_prod_unfold)

section \<open>The system of members\<close>

record 'z lock_sys =
  ls_zk :: 'z
  ls_lock :: "nat \<Rightarrow> zk_lock"
  ls_prog :: "nat \<Rightarrow> zk_lock zkprog option"

definition lock_sys_init :: "'z \<Rightarrow> string \<Rightarrow> (nat \<Rightarrow> string) \<Rightarrow> 'z lock_sys" where
  "lock_sys_init z lid members =
     \<lparr>ls_zk = z, ls_lock = (\<lambda>i. NewZookeeperNonBlockingLock lid (members i)), ls_prog = (\<lambda>_. None)\<rparr>"

text \<open>
  A step: a member starts \<open>Try\<close> or \<open>Unlock\<close>, its operation makes one call, it returns, or the
  environment moves (sessions expire, nodes of other clients come and go).
\<close>

inductive lock_sys_step ::
    "(nat \<Rightarrow> 'z zk_service) \<Rightarrow> ('z \<Rightarrow> 'z \<Rightarrow> bool) \<Rightarrow> 'z lock_sys \<Rightarrow> 'z lock_sys \<Rightarrow> bool"
  for svc env where
  start_try: "ls_prog s i = None \<Longrightarrow>
    lock_sys_step svc env s (s\<lparr>ls_prog := (ls_prog s)(i := Some (try_op (ls_lock s i)))\<rparr>)"
| start_unlock: "ls_prog s i = None \<Longrightarrow>
    lock_sys_step svc env s (s\<lparr>ls_prog := (ls_prog s)(i := Some (unlock_op (ls_lock s i)))\<rparr>)"
| call: "ls_prog s i = Some p \<Longrightarrow> zk_step (svc i) p (ls_zk s) = (p', z') \<Longrightarrow>
    lock_sys_step svc env s (s\<lparr>ls_zk := z', ls_prog := (ls_prog s)(i := Some p')\<rparr>)"
| finish: "ls_prog s i = Some (ZkReturn l) \<Longrightarrow>
    lock_sys_step svc env s
      (s\<lparr>ls_lock := (ls_lock s)(i := l), ls_prog := (ls_prog s)(i := None)\<rparr>)"
| environment: "env (ls_zk s) z' \<Longrightarrow> lock_sys_step svc env s (s\<lparr>ls_zk := z'\<rparr>)"

inductive lock_sys_reachable ::
    "(nat \<Rightarrow> 'z zk_service) \<Rightarrow> ('z \<Rightarrow> 'z \<Rightarrow> bool) \<Rightarrow> 'z lock_sys \<Rightarrow> 'z lock_sys \<Rightarrow> bool"
  for svc env s0 where
  start: "lock_sys_reachable svc env s0 s0"
| step: "lock_sys_reachable svc env s0 s \<Longrightarrow> lock_sys_step svc env s t \<Longrightarrow>
    lock_sys_reachable svc env s0 t"

definition lock_sys_inv ::
    "'z lock_dir \<Rightarrow> string \<Rightarrow> (nat \<Rightarrow> 'z zk_service) \<Rightarrow> 'z lock_sys \<Rightarrow> bool" where
  "lock_sys_inv D lid svc s \<longleftrightarrow>
     (\<forall>i. lock_claim D lid i (ls_lock s i) (ls_zk s) \<and>
        (\<forall>p. ls_prog s i = Some p \<longrightarrow> op_wp D lid (svc i) i p (ls_zk s)))"

lemma lock_sys_inv_init:
  assumes "lid = ''/'' @ trim_char CHR ''/'' lid0"
  shows "lock_sys_inv D lid svc (lock_sys_init z lid0 members)"
  using assms
  by (simp add: lock_sys_inv_def lock_sys_init_def NewZookeeperNonBlockingLock_def lock_claim_def)

lemma lock_sys_inv_moves:
  assumes "lock_sys_inv D lid svc s" and "dir_moves D (ls_zk s) z'"
  shows "lock_sys_inv D lid svc (s\<lparr>ls_zk := z'\<rparr>)"
  using assms
  by (auto simp: lock_sys_inv_def op_wp_def
      intro: lock_claim_stable zk_wp_stable [OF transp_dir_moves])

lemma lock_sys_inv_step:
  assumes svc: "sequential_service D lid svc env"
    and "lock_sys_step svc env s t" and inv: "lock_sys_inv D lid svc s"
  shows "lock_sys_inv D lid svc t"
  using assms(2)
proof cases
  case (start_try i)
  with inv op_wp_try [OF svc] show ?thesis by (auto simp: lock_sys_inv_def)
next
  case (start_unlock i)
  with inv op_wp_unlock [OF svc] show ?thesis by (auto simp: lock_sys_inv_def)
next
  case (call i p p' z')
  have "dir_moves D (ls_zk s) z'"
    using zk_moves_step [of "svc i" "dir_moves D" "ls_zk s" p] svc call
    by (simp add: sequential_service_def)
  then have s': "lock_sys_inv D lid svc (s\<lparr>ls_zk := z'\<rparr>)"
    by (rule lock_sys_inv_moves [OF inv])
  have "op_wp D lid (svc i) i p' z'"
    using zk_wp_step [of "dir_moves D" "svc i" _ p "ls_zk s"] inv call
    by (auto simp: lock_sys_inv_def op_wp_def)
  with s' call show ?thesis by (auto simp: lock_sys_inv_def)
next
  case (finish i l)
  with inv have "op_wp D lid (svc i) i (ZkReturn l) (ls_zk s)"
    by (auto simp: lock_sys_inv_def)
  then have "lock_claim D lid i l (ls_zk s)"
    by (simp add: op_wp_def reflpD [OF reflp_dir_moves])
  with inv finish show ?thesis by (auto simp: lock_sys_inv_def)
next
  case (environment z')
  then show ?thesis
    using lock_sys_inv_moves [OF inv] svc by (auto simp: sequential_service_def)
qed

lemma lock_sys_inv_reachable:
  assumes "sequential_service D lid svc env" and "lock_sys_reachable svc env s0 s"
    and "lock_sys_inv D lid svc s0"
  shows "lock_sys_inv D lid svc s"
  using assms(2,3)
proof (induction rule: lock_sys_reachable.induct)
  case (step s t)
  then show ?case using lock_sys_inv_step [OF assms(1)] by blast
qed

text \<open>A member holds the lock node \<open>n\<close>: its instance has that path, and the node still exists.\<close>

definition holds_node :: "'z lock_dir \<Rightarrow> string \<Rightarrow> 'z lock_sys \<Rightarrow> nat \<Rightarrow> string \<Rightarrow> bool" where
  "holds_node D lid s i n \<longleftrightarrow>
     zl_lockPath (ls_lock s i) = lid @ ''/'' @ n \<and> ld_nodes D (ls_zk s) n \<noteq> None"

lemma lock_claims_unique:
  assumes svc: "sequential_service D lid svc env"
    and "lock_claim D lid i l z" "zl_lockPath l = lid @ ''/'' @ n" "ld_nodes D z n \<noteq> None"
    and "lock_claim D lid j l' z" "zl_lockPath l' = lid @ ''/'' @ m" "ld_nodes D z m \<noteq> None"
  shows "i = j"
proof -
  obtain a b where ab: "ld_nodes D z n = Some a" "ld_nodes D z m = Some b" using assms(4,7) by auto
  note i = lock_claim_node [OF assms(2,3) ab(1)] and j = lock_claim_node [OF assms(5,6) ab(2)]
  have dom: "n \<in> dom (ld_nodes D z)" "m \<in> dom (ld_nodes D z)" using ab by auto
  with i j have "seq_of n = seq_of m" by (simp add: order_antisym)
  moreover have "inj_on seq_of (dom (ld_nodes D z))" using svc by (simp add: sequential_service_def)
  ultimately have "n = m" using dom by (auto dest: inj_onD)
  with ab i j show ?thesis by simp
qed

lemma holds_node_unique:
  assumes "sequential_service D lid svc env" and "lock_sys_inv D lid svc s"
    and "holds_node D lid s i n" and "holds_node D lid s j m"
  shows "i = j"
  using lock_claims_unique [OF assms(1)] assms(2-4) unfolding lock_sys_inv_def holds_node_def by blast

section \<open>An ensemble that behaves as documented\<close>

text \<open>
  The lock directory kept as the list of all nodes ever created, each with its owner or
  \<open>None\<close> once it is gone; the position is the sequence number. It runs out of numbers at
  \<open>2 ^ 31\<close>, as Zookeeper's counter does. Removing a node that does not exist fails.
\<close>

type_synonym mem_zk = "nat option list"

definition mem_name :: "nat \<Rightarrow> string" where
  "mem_name k = ''_c_1-lock:'' @ nat_digits k"

definition mem_seq :: "string \<Rightarrow> nat option" where
  "mem_seq n = (case parseSeq n of
     Inl _ \<Rightarrow> None | Inr s \<Rightarrow> if 0 \<le> s \<and> n = mem_name (nat s) then Some (nat s) else None)"

definition mem_nodes :: "mem_zk \<Rightarrow> string \<rightharpoonup> nat" where
  "mem_nodes z n = (case mem_seq n of
     None \<Rightarrow> None | Some k \<Rightarrow> if k < length z \<and> k < 2 ^ 31 then z ! k else None)"

definition mem_dir :: "mem_zk lock_dir" where
  "mem_dir = \<lparr>ld_nodes = mem_nodes, ld_high = (\<lambda>z. int (length z) - 1),
     ld_seen = (\<lambda>_ z. int (length z) - 1)\<rparr>"

definition mem_service :: "string \<Rightarrow> nat \<Rightarrow> mem_zk zk_service" where
  "mem_service lid i =
     \<lparr>zks_state = (\<lambda>z. (StateHasSession, z)),
      zks_create = (\<lambda>p d e z. (Inr p, z)),
      zks_create_seq = (\<lambda>p d z.
         if p = lid @ ''/lock:'' \<and> length z < 2 ^ 31
         then (Inr (lid @ ''/'' @ mem_name (length z)), z @ [Some i])
         else (Inl (ZkOtherError ''no sequence number''), z)),
      zks_exists = (\<lambda>p z. (Inr True, z)),
      zks_children = (\<lambda>p z.
         if p = lid
         then (Inr (map mem_name (filter (\<lambda>k. z ! k \<noteq> None \<and> k < 2 ^ 31) [0 ..< length z])), z)
         else (Inl ErrNoNode, z)),
      zks_get = (\<lambda>p z. (Inl ErrNoNode, z)),
      zks_delete = (\<lambda>p z.
         case find (\<lambda>k. p = lid @ ''/'' @ mem_name k \<and> z ! k \<noteq> None) [0 ..< length z] of
           None \<Rightarrow> (Some ErrNoNode, z)
         | Some k \<Rightarrow> (None, z[k := None]))\<rparr>"

text \<open>The environment: any set of sessions expires.\<close>

definition mem_expire :: "mem_zk \<Rightarrow> mem_zk \<Rightarrow> bool" where
  "mem_expire z y \<longleftrightarrow> length y = length z \<and> (\<forall>k < length z. y ! k = z ! k \<or> y ! k = None)"

lemma parse_mem_name: "k < 2 ^ 31 \<Longrightarrow> parseSeq (mem_name k) = Inr (int k)"
proof -
  assume k: "k < 2 ^ 31"
  have "Atoi (replicate 0 (digit_char 0) @ nat_digits k) = Inr (int k)"
    using k by (intro Atoi_nat_digits) simp
  then show ?thesis
    using parseSeq_append [of "nat_digits k" "''_c_1-lock''"] by (simp add: mem_name_def)
qed

lemma mem_seq_name: "k < 2 ^ 31 \<Longrightarrow> mem_seq (mem_name k) = Some k"
  by (simp add: mem_seq_def parse_mem_name)

lemma seq_of_mem_name: "k < 2 ^ 31 \<Longrightarrow> seq_of (mem_name k) = int k"
  by (simp add: seq_of_def parse_mem_name)

lemma seq_name_mem_name: "k < 2 ^ 31 \<Longrightarrow> seq_name (mem_name k)"
  by (auto simp: seq_name_def parse_mem_name) (simp add: mem_name_def)

lemma mem_nodes_Some:
  "mem_nodes z n = Some i \<longleftrightarrow> (\<exists>k < length z. k < 2 ^ 31 \<and> n = mem_name k \<and> z ! k = Some i)"
proof
  assume h: "mem_nodes z n = Some i"
  then obtain k where k: "mem_seq n = Some k" "k < length z" "k < 2 ^ 31" "z ! k = Some i"
    by (auto simp: mem_nodes_def split: option.splits if_splits)
  from k(1) have "n = mem_name k"
    by (auto simp: mem_seq_def split: sum.splits if_splits)
  with k show "\<exists>k < length z. k < 2 ^ 31 \<and> n = mem_name k \<and> z ! k = Some i" by blast
next
  assume "\<exists>k < length z. k < 2 ^ 31 \<and> n = mem_name k \<and> z ! k = Some i"
  then show "mem_nodes z n = Some i" by (auto simp: mem_nodes_def mem_seq_name)
qed

lemma mem_shrink_moves:
  assumes "length y = length z" and "\<forall>k < length z. y ! k = z ! k \<or> y ! k = None"
  shows "dir_moves mem_dir z y"
  unfolding dir_moves_def
proof (intro conjI allI impI)
  fix n own
  assume "ld_nodes mem_dir y n = Some own"
  then obtain k where k: "k < length y" "k < 2 ^ 31" "n = mem_name k" "y ! k = Some own"
    by (auto simp: mem_dir_def mem_nodes_Some)
  with assms have "z ! k = Some own" by (metis option.distinct(1))
  with k assms(1) show "ld_nodes mem_dir z n = Some own \<or> ld_high mem_dir z < seq_of n"
    by (auto simp: mem_dir_def mem_nodes_Some)
qed (use assms(1) in \<open>simp_all add: mem_dir_def\<close>)

lemma mem_append_moves: "dir_moves mem_dir z (z @ [Some i])"
  unfolding dir_moves_def
proof (intro conjI allI impI)
  fix n own
  assume "ld_nodes mem_dir (z @ [Some i]) n = Some own"
  then obtain k where k: "k < Suc (length z)" "k < 2 ^ 31" "n = mem_name k"
      "(z @ [Some i]) ! k = Some own"
    by (auto simp: mem_dir_def mem_nodes_Some)
  show "ld_nodes mem_dir z n = Some own \<or> ld_high mem_dir z < seq_of n"
  proof (cases "k < length z")
    case True
    with k have "mem_nodes z n = Some own" by (auto simp: mem_nodes_Some nth_append)
    then show ?thesis by (simp add: mem_dir_def)
  next
    case False
    with k show ?thesis by (simp add: mem_dir_def seq_of_mem_name)
  qed
qed (simp_all add: mem_dir_def)

lemma mem_refl_moves: "dir_moves mem_dir z z"
  by (rule reflpD [OF reflp_dir_moves])

lemma mem_delete_moves: "dir_moves mem_dir z (snd (zks_delete (mem_service lid i) p z))"
proof -
  have "z[j := None] ! k = z ! k \<or> z[j := None] ! k = None" if "k < length z" for j k
    using that by (cases "k = j") simp_all
  then have "dir_moves mem_dir z (z[j := None])" for j
    by (intro mem_shrink_moves) simp_all
  then show ?thesis
    by (simp add: mem_service_def mem_refl_moves split: option.splits)
qed

lemma mem_service_moves: "zk_moves (mem_service lid i) (dir_moves mem_dir)"
  unfolding zk_moves_def
  by (auto simp: mem_delete_moves)
     (simp_all add: mem_service_def mem_refl_moves mem_append_moves)

lemma mem_dir_inj: "inj_on seq_of (dom (ld_nodes mem_dir z))"
proof (rule inj_onI)
  fix m n
  assume "m \<in> dom (ld_nodes mem_dir z)" "n \<in> dom (ld_nodes mem_dir z)" "seq_of m = seq_of n"
  then obtain j k where "m = mem_name j" "n = mem_name k" "j < 2 ^ 31" "k < 2 ^ 31"
      "seq_of (mem_name j) = seq_of (mem_name k)"
    by (auto simp: mem_dir_def mem_nodes_Some)
  then show "m = n" by (simp add: seq_of_mem_name)
qed

theorem mem_sequential_service: "sequential_service mem_dir lid (mem_service lid) mem_expire"
  unfolding sequential_service_def
proof (intro conjI allI impI)
  show "zk_moves (mem_service lid i) (dir_moves mem_dir)" for i by (rule mem_service_moves)
  show "dir_moves mem_dir z y" if "mem_expire z y" for z y
    using that by (auto simp: mem_expire_def intro: mem_shrink_moves)
  show "inj_on seq_of (dom (ld_nodes mem_dir z))" for z by (rule mem_dir_inj)
  show "\<forall>n \<in> dom (ld_nodes mem_dir z). seq_name n \<and> seq_of n \<le> ld_high mem_dir z" for z
    by (auto simp: mem_dir_def mem_nodes_Some seq_name_mem_name seq_of_mem_name)
next
  fix i z d path y
  assume "zks_create_seq (mem_service lid i) (lid @ ''/lock:'') d z = (Inr path, y)"
  then have "length z < 2 ^ 31" "path = lid @ ''/'' @ mem_name (length z)" "y = z @ [Some i]"
    by (auto simp: mem_service_def split: if_splits)
  moreover from this have "ld_nodes mem_dir y (mem_name (length z)) = Some i"
    by (auto simp: mem_dir_def mem_nodes_Some)
  ultimately show "\<exists>n. path = lid @ ''/'' @ n \<and> seq_name n \<and> ld_nodes mem_dir y n = Some i \<and>
      seq_of n \<le> ld_seen mem_dir i y"
    by (intro exI [of _ "mem_name (length z)"])
       (simp add: seq_name_mem_name seq_of_mem_name mem_dir_def)
next
  fix i z names y
  assume "zks_children (mem_service lid i) lid z = (Inr names, y)"
  then have n: "names = map mem_name (filter (\<lambda>k. z ! k \<noteq> None \<and> k < 2 ^ 31) [0 ..< length z])"
      "y = z"
    unfolding mem_service_def by (auto split: if_splits)
  show "\<forall>n \<in> set names. seq_name n" by (auto simp: n seq_name_mem_name)
  show "\<forall>n \<in> dom (ld_nodes mem_dir y). seq_of n \<le> ld_seen mem_dir i y \<longrightarrow> n \<in> set names"
    by (auto simp: n mem_dir_def mem_nodes_Some)
qed

section \<open>Properties\<close>

text \<open>
  C1: mutual exclusion of the target lock. However the calls of any number of members
  interleave, with sessions expiring at any moment, the lock nodes that still exist and that
  some member holds belong to a single member.
\<close>

theorem zk_lock_mutual_exclusion:
  assumes "sequential_service D lid svc env" and "lid = ''/'' @ trim_char CHR ''/'' lid0"
    and "lock_sys_reachable svc env (lock_sys_init z lid0 members) s"
    and "holds_node D lid s i n" and "holds_node D lid s j m"
  shows "i = j"
  using holds_node_unique [OF assms(1) _ assms(4,5)]
    lock_sys_inv_reachable [OF assms(1,3) lock_sys_inv_init [OF assms(2)]] by blast

text \<open>An operation that runs without interleaving is a run of the system.\<close>

definition running :: "'z lock_sys \<Rightarrow> nat \<Rightarrow> zk_lock zkprog \<Rightarrow> 'z lock_sys" where
  "running s i p = s\<lparr>ls_prog := (ls_prog s)(i := Some p)\<rparr>"

definition finished :: "'z lock_sys \<Rightarrow> nat \<Rightarrow> zk_lock \<Rightarrow> 'z lock_sys" where
  "finished s i l = s\<lparr>ls_lock := (ls_lock s)(i := l), ls_prog := (ls_prog s)(i := None)\<rparr>"

lemma reachable_call:
  assumes "lock_sys_reachable svc env s0 (running s i p)"
  shows "lock_sys_reachable svc env s0
    (running (s\<lparr>ls_zk := snd (zk_step (svc i) p (ls_zk s))\<rparr>) i (fst (zk_step (svc i) p (ls_zk s))))"
proof -
  have "lock_sys_step svc env (running s i p) ((running s i p)
      \<lparr>ls_zk := snd (zk_step (svc i) p (ls_zk s)),
       ls_prog := (ls_prog (running s i p))(i := Some (fst (zk_step (svc i) p (ls_zk s))))\<rparr>)"
    by (rule lock_sys_step.call [of _ _ p]) (simp_all add: running_def)
  from lock_sys_reachable.step [OF assms this] show ?thesis by (simp add: running_def)
qed

lemma reachable_finish:
  assumes "lock_sys_reachable svc env s0 (running s i (ZkReturn l))"
  shows "lock_sys_reachable svc env s0 (finished s i l)"
proof -
  have "lock_sys_step svc env (running s i (ZkReturn l)) ((running s i (ZkReturn l))
      \<lparr>ls_lock := (ls_lock (running s i (ZkReturn l)))(i := l),
       ls_prog := (ls_prog (running s i (ZkReturn l)))(i := None)\<rparr>)"
    by (rule lock_sys_step.finish) (simp add: running_def)
  from lock_sys_reachable.step [OF assms this] show ?thesis
    by (simp add: running_def finished_def)
qed

lemma reachable_calls:
  "lock_sys_reachable svc env s0 (running s i p) \<Longrightarrow> zk_steps (svc i) n p (ls_zk s) = (q, z') \<Longrightarrow>
   lock_sys_reachable svc env s0 (running (s\<lparr>ls_zk := z'\<rparr>) i q)"
proof (induction n arbitrary: s p)
  case (Suc n)
  from Suc.IH [OF reachable_call [OF Suc.prems(1)]] Suc.prems(2) show ?case
    by (simp add: running_def split_beta)
next
  case 0
  then have "p = q" "s\<lparr>ls_zk := z'\<rparr> = s" by auto
  with 0 show ?case by (simp only:)
qed

lemma reachable_run:
  assumes "lock_sys_reachable svc env s0 (running s i p)"
  shows "lock_sys_reachable svc env s0
     (finished (s\<lparr>ls_zk := snd (run_zk (svc i) p (ls_zk s))\<rparr>) i (fst (run_zk (svc i) p (ls_zk s))))"
proof -
  obtain n where "zk_steps (svc i) n p (ls_zk s) =
      (ZkReturn (fst (run_zk (svc i) p (ls_zk s))), snd (run_zk (svc i) p (ls_zk s)))"
    using zk_steps_run [of "svc i" p "ls_zk s"] by blast
  from reachable_finish [OF reachable_calls [OF assms this]] show ?thesis .
qed

text \<open>The first member takes a free lock, with a node that exists afterwards.\<close>

lemma mem_try_holds:
  "run_zk (mem_service ''/t'' 0)
     (try_op (NewZookeeperNonBlockingLock ''t'' ''a:1'')) [] =
   (\<lparr>zl_acquired = True, zl_member = ''a:1'', zl_id = ''/t'',
     zl_lockPath = ''/t/'' @ mem_name 0, zl_seq = 0\<rparr>, [Some 0])"
proof -
  have lid: "''/'' @ trim_char CHR ''/'' ''t'' = ''/t''" by code_simp
  have "CHR '':'' \<in> set (mem_name 0)" by (simp add: mem_name_def)
  from parseSeq_child [OF this, of "''/t''"]
  have p: "parseSeq (''/t/'' @ mem_name 0) = Inr 0" "parseSeq (mem_name 0) = Inr 0"
    by (simp_all add: parse_mem_name)
  show ?thesis
    using lid p
    by (simp add: try_op_def Try_def NewZookeeperNonBlockingLock_def try_acquire_def try_created_def
        try_with_path_def lowestSeqChild_def try_compare_def mem_service_def is_connected_def Let_def
        run_zk_bind)
qed

theorem zk_lock_mutual_exclusion_witness:
  "\<exists>s i j n m.
     lock_sys_reachable (mem_service ''/t'') mem_expire
       (lock_sys_init [] ''t'' (\<lambda>_. ''a:1'')) s \<and>
     holds_node mem_dir ''/t'' s i n \<and> holds_node mem_dir ''/t'' s j m \<and> i = j"
proof -
  let ?init = "lock_sys_init [] ''t'' (\<lambda>_. ''a:1'') :: mem_zk lock_sys"
  let ?held = "finished (?init\<lparr>ls_zk := [Some 0]\<rparr>) 0 \<lparr>zl_acquired = True, zl_member = ''a:1'',
    zl_id = ''/t'', zl_lockPath = ''/t/'' @ mem_name 0, zl_seq = 0\<rparr>"
  have "ls_prog ?init 0 = None" by (simp add: lock_sys_init_def)
  from lock_sys_step.start_try [OF this]
  have "lock_sys_step (mem_service ''/t'') mem_expire ?init (running ?init 0 (try_op (ls_lock ?init 0)))"
    by (simp only: running_def)
  from reachable_run [OF lock_sys_reachable.step [OF lock_sys_reachable.start this]]
  have r: "lock_sys_reachable (mem_service ''/t'') mem_expire ?init ?held"
    using mem_try_holds by (simp add: lock_sys_init_def)
  have "mem_nodes [Some 0] (mem_name 0) = Some 0" by (simp add: mem_nodes_Some)
  then have h: "holds_node mem_dir ''/t'' ?held 0 (mem_name 0)"
    by (simp add: holds_node_def finished_def mem_dir_def)
  have "''/t'' = ''/'' @ trim_char CHR ''/'' ''t''" by code_simp
  from zk_lock_mutual_exclusion [OF mem_sequential_service this r h h] r h
  show ?thesis by blast
qed

text \<open>The lowest number among the names of a list of positions.\<close>

lemma lowest_loop_names:
  assumes "\<forall>k \<in> set (k0 # ks). k < 2 ^ 31"
  shows "\<exists>sp. lowest_loop path (map mem_name (k0 # ks)) (- 1) [] = Inr (int (Min (set (k0 # ks))), sp)"
proof -
  let ?p0 = "path @ ''/'' @ mem_name k0"
  have first: "lowest_loop path (map mem_name (k0 # ks)) (- 1) [] =
      lowest_loop path (map mem_name ks) (int k0) ?p0"
    using assms by (simp add: parse_mem_name)
  have p: "\<forall>c \<in> set (map mem_name ks). \<exists>k \<ge> 0. parseSeq c = Inr k"
    using assms by (auto simp: parse_mem_name)
  obtain s sp where r: "lowest_loop path (map mem_name ks) (int k0) ?p0 = Inr (s, sp)"
    using lowest_loop_error [of path "map mem_name ks" "int k0" ?p0] p
    by (cases "lowest_loop path (map mem_name ks) (int k0) ?p0") fastforce+
  note m = lowest_loop_min [OF r p]
  have "\<forall>k \<in> set (k0 # ks). s \<le> int k" "\<exists>k \<in> set (k0 # ks). s = int k"
    using m assms by (auto simp: seq_of_mem_name)
  then have "s = int (Min (set (k0 # ks)))"
    by (metis List.finite_set Min_eqI of_nat_le_iff)
  with r first show ?thesis by metis
qed

definition live :: "mem_zk \<Rightarrow> bool" where
  "live z \<longleftrightarrow> (\<exists>i. Some i \<in> set z)"

lemma mem_delete_last:
  assumes "length z < 2 ^ 31"
  shows "zks_delete (mem_service lid i) (lid @ ''/'' @ mem_name (length z)) (z @ [Some i]) =
    (None, z @ [None])"
proof -
  have inj: "mem_name (length z) \<noteq> mem_name k" if "k < length z" for k
    using that assms by (metis less_trans mem_seq_name nat_neq_iff option.inject)
  have "find (\<lambda>k. lid @ ''/'' @ mem_name (length z) = lid @ ''/'' @ mem_name k \<and>
      (z @ [Some i]) ! k \<noteq> None) [0 ..< length (z @ [Some i])] = Some (length z)"
    using inj unfolding find_Some_iff
    by (intro exI [of _ "length z"]) (auto simp: nth_append)
  then show ?thesis unfolding mem_service_def by simp
qed

text \<open>The lowest number in the directory after the creation of the node \<open>length z\<close>.\<close>

lemma mem_lowest:
  assumes "length z < 2 ^ 31"
  shows "\<exists>lo sp. lowest_loop lid (map mem_name (filter (\<lambda>k. (z @ [Some i]) ! k \<noteq> None \<and> k < 2 ^ 31)
      [0 ..< length (z @ [Some i])])) (- 1) [] = Inr (int lo, sp) \<and> (lo = length z \<longleftrightarrow> \<not> live z)"
proof -
  let ?live = "filter (\<lambda>k. (z @ [Some i]) ! k \<noteq> None \<and> k < 2 ^ 31) [0 ..< length (z @ [Some i])]"
  have mem: "set ?live = {k. k < length z \<and> z ! k \<noteq> None} \<union> {length z}"
    using assms by (auto simp: nth_append)
  obtain k0 ks where ks: "?live = k0 # ks" using mem by (cases ?live) auto
  have "\<forall>k \<in> set (k0 # ks). k < 2 ^ 31" unfolding ks [symmetric] by auto
  from lowest_loop_names [OF this, of lid] obtain sp where
    low: "lowest_loop lid (map mem_name ?live) (- 1) [] = Inr (int (Min (set ?live)), sp)"
    unfolding ks by blast
  have "Min (set ?live) = length z \<longleftrightarrow> \<not> live z"
  proof
    assume e: "Min (set ?live) = length z"
    have "z ! k = None" if "k < length z" for k
    proof (rule ccontr)
      assume "z ! k \<noteq> None"
      with that have "k \<in> set ?live" unfolding mem by blast
      from Min_le [OF List.finite_set this] e that show False by simp
    qed
    then show "\<not> live z" by (auto simp: live_def in_set_conv_nth)
  next
    assume "\<not> live z"
    then have "set ?live = {length z}"
      unfolding mem by (auto simp: live_def in_set_conv_nth)
    then show "Min (set ?live) = length z" by simp
  qed
  with low show ?thesis by blast
qed

lemma mem_try_eq:
  assumes "zl_lockPath l = []" and "\<not> zl_acquired l" and "length z < 2 ^ 31"
  shows "zk_try (mem_service (zl_id l) i) z l =
    (if live z then ((False, None), l, z @ [None])
     else ((True, None),
       l\<lparr>zl_acquired := True, zl_lockPath := zl_id l @ ''/'' @ mem_name (length z),
         zl_seq := int (length z)\<rparr>, z @ [Some i]))"
proof -
  let ?path = "zl_id l @ ''/'' @ mem_name (length z)" and ?z = "z @ [Some i]"
  have "CHR '':'' \<in> set (mem_name (length z))" by (simp add: mem_name_def)
  from parseSeq_child [OF this, of "zl_id l"]
  have p: "parseSeq ?path = Inr (int (length z))"
    using assms(3) by (simp add: parse_mem_name)
  obtain lo sp where low: "lowest_loop (zl_id l) (map mem_name (filter (\<lambda>k. ?z ! k \<noteq> None \<and> k < 2 ^ 31)
      [0 ..< length ?z])) (- 1) [] = Inr (int lo, sp)" and m: "lo = length z \<longleftrightarrow> \<not> live z"
    using mem_lowest [OF assms(3)] by blast
  have svc: "zks_create_seq (mem_service (zl_id l) i) (zl_id l @ ''/lock:'') (zl_member l) z = (Inr ?path, ?z)"
    "zks_children (mem_service (zl_id l) i) (zl_id l) ?z =
      (Inr (map mem_name (filter (\<lambda>k. ?z ! k \<noteq> None \<and> k < 2 ^ 31) [0 ..< length ?z])), ?z)"
    "zks_state (mem_service (zl_id l) i) z = (StateHasSession, z)"
    using assms(3) unfolding mem_service_def by simp_all
  have l: "l\<lparr>zl_acquired := False\<rparr> = l" using assms(2) by simp
  have "run_zk (mem_service (zl_id l) i) (Try l) z =
      run_zk (mem_service (zl_id l) i)
        (zkbind (try_compare l ?path (int (length z)) (Inr (int lo, sp)))
          (\<lambda>(acquired, err, l'). ZkReturn (acquired, err, l'\<lparr>zl_acquired := acquired\<rparr>))) ?z"
    unfolding Try_def try_acquire_def Let_def
    using assms(1) svc p low
    by (simp add: is_connected_def try_created_def try_with_path_def lowestSeqChild_def run_zk_bind)
  then show ?thesis
    using m mem_delete_last [OF assms(3), of "zl_id l" i] l
    by (auto simp: zk_try_def try_compare_def split: prod.splits)
qed



text \<open>
  C37: a release that fails keeps the lock. When the node cannot be removed, because it is
  already gone with its session or for another reason, \<open>Unlock\<close> returns the error and resets
  nothing, and the next \<open>Try\<close> under a connection answers that the lock is held, with the
  deadlock error and without creating a node.
\<close>

theorem zk_failed_release_keeps_lock:
  assumes "zl_lockPath l \<noteq> []" and "zks_delete svc (zl_lockPath l) z = (Some err, z1)"
    and "is_connected (fst (zks_state svc z2))"
  shows "zk_unlock svc z l = (Some (ReleaseError err), l, z1) \<and>
    zk_try svc z2 l =
      ((True, Some ErrDeadlock), l\<lparr>zl_acquired := True\<rparr>, snd (zks_state svc z2))"
  using assms by (simp add: zk_unlock_eq zk_try_held)

theorem zk_failed_release_keeps_lock_witness:
  "zk_try (mem_service ''/t'' 0) [None]
     \<lparr>zl_acquired = True, zl_member = ''a:1'', zl_id = ''/t'', zl_lockPath = ''/t/x:0'', zl_seq = 0\<rparr> =
   ((True, Some ErrDeadlock),
     \<lparr>zl_acquired = True, zl_member = ''a:1'', zl_id = ''/t'', zl_lockPath = ''/t/x:0'', zl_seq = 0\<rparr>,
     [None])"
  using zk_failed_release_keeps_lock
    [of "\<lparr>zl_acquired = True, zl_member = ''a:1'', zl_id = ''/t'', zl_lockPath = ''/t/x:0'', zl_seq = 0\<rparr>"
      "mem_service ''/t'' 0" "[None]" ErrNoNode "[None]" "[None]"]
  by (simp add: mem_service_def is_connected_def)

end
