(* ===== verification/Clustering.thy ===== *)
theory Clustering
  imports ZkLockSystem
begin

text \<open>
  \<open>gateway/clustering/zookeeper.go\<close>: registration of a cluster member and the goroutine of
  \<open>MemberListCallback\<close> that turns the list of the children of the member node into calls of a
  callback, one per member that joined or left. \<open>ChildrenW\<close> answers as \<open>Children\<close> does; its
  watch channel is the wait between two rounds of the loop.
\<close>

section \<open>Member identifiers\<close>

datatype member_id = MemberID string

primrec member_string :: "member_id \<Rightarrow> string" where
  "member_string (MemberID s) = s"

text \<open>Member identifiers are ordered as their strings are.\<close>

instantiation member_id :: linorder
begin

definition less_eq_member_id :: "member_id \<Rightarrow> member_id \<Rightarrow> bool" where
  "less_eq_member_id a b \<longleftrightarrow> member_string a \<le> member_string b"

definition less_member_id :: "member_id \<Rightarrow> member_id \<Rightarrow> bool" where
  "less_member_id a b \<longleftrightarrow> member_string a < member_string b"

instance
proof
  fix a b :: member_id
  assume "a \<le> b" "b \<le> a"
  then show "a = b"
    by (cases a; cases b) (simp add: less_eq_member_id_def)
qed (auto simp: less_eq_member_id_def less_member_id_def)

end

section \<open>Paths\<close>

definition CleanPath :: "string \<Rightarrow> string" where
  "CleanPath path = ''/'' @ trim_char CHR ''/'' path"

fun createPath_loop :: "string \<Rightarrow> string list \<Rightarrow> zk_error option zkprog" where
  "createPath_loop pth [] = ZkReturn None"
| "createPath_loop pth (p # parts) =
     (if p = [] then createPath_loop pth parts
      else (let pth = pth @ ''/'' @ p in
        ZkExists pth (\<lambda>r.
          case r of
            Inl err \<Rightarrow> ZkReturn (Some err)
          | Inr ex \<Rightarrow>
              if ex then createPath_loop pth parts
              else ZkCreate pth [] False (\<lambda>c.
                case c of
                  Inl err \<Rightarrow>
                    if err \<noteq> ErrNodeExists then ZkReturn (Some err) else createPath_loop pth parts
                | Inr _ \<Rightarrow> createPath_loop pth parts))))"

definition createPath :: "string list \<Rightarrow> zk_error option zkprog" where
  "createPath parts = createPath_loop [] parts"

definition CreateParentPath :: "string \<Rightarrow> zk_error option zkprog" where
  "CreateParentPath path =
     (let parts = split_on CHR ''/'' path in createPath (take (length parts - 1) parts))"

definition CreatePath :: "string \<Rightarrow> zk_error option zkprog" where
  "CreatePath path = createPath (split_on CHR ''/'' path)"

section \<open>The member\<close>

text \<open>
  The receiver: the Zookeeper prefix of the configuration, the own identifier, and the
  goroutine whose \<open>stopped\<close> flag \<open>callbackCancel\<close> sets. Goroutines are numbered in the order
  they were started.
\<close>

record cluster_member =
  cm_prefix :: string
  cm_member :: member_id
  cm_cancel :: "nat option"

definition NewZookeeperClusterMember :: "string \<Rightarrow> string \<Rightarrow> cluster_member" where
  "NewZookeeperClusterMember zkprefix member =
     \<lparr>cm_prefix = zkprefix, cm_member = MemberID member, cm_cancel = None\<rparr>"

definition ClusterMemberPath :: string where
  "ClusterMemberPath = ''/members''"

definition registrationPath :: "cluster_member \<Rightarrow> string" where
  "registrationPath c =
     CleanPath (cm_prefix c) @ CleanPath ClusterMemberPath @ CleanPath (member_string (cm_member c))"

definition searchPath :: "cluster_member \<Rightarrow> string" where
  "searchPath c = CleanPath (cm_prefix c) @ CleanPath ClusterMemberPath"

datatype register_error =
    RegisterParentError zk_error
  | RegisterAfterParentError zk_error
  | RegisterError zk_error

definition Register :: "cluster_member \<Rightarrow> register_error option zkprog" where
  "Register c =
     ZkCreate (registrationPath c) [] True (\<lambda>r.
       case r of
         Inl ErrNoNode \<Rightarrow>
           zkbind (CreateParentPath (registrationPath c)) (\<lambda>perr.
             case perr of
               Some err \<Rightarrow> ZkReturn (Some (RegisterParentError err))
             | None \<Rightarrow> ZkCreate (registrationPath c) [] True (\<lambda>r2.
                 case r2 of
                   Inl err \<Rightarrow> ZkReturn (Some (RegisterAfterParentError err))
                 | Inr _ \<Rightarrow> ZkReturn None))
       | Inl err \<Rightarrow> ZkReturn (Some (RegisterError err))
       | Inr _ \<Rightarrow> ZkReturn None)"

definition Unregister :: "cluster_member \<Rightarrow> unit outcome" where
  "Unregister c = Panics (ExplicitPanic ''implement me!'')"

definition MemberList :: "cluster_member \<Rightarrow> (zk_error + member_id list) zkprog" where
  "MemberList c =
     ZkChildren (searchPath c) (\<lambda>r. ZkReturn
       (case r of
          Inl err \<Rightarrow> Inl err
        | Inr children \<Rightarrow>
            Inr (filter (\<lambda>member. member \<noteq> MemberID [] \<and> member \<noteq> cm_member c)
              (map MemberID children))))"

section \<open>The callback goroutine\<close>

fun memberIDInSlice :: "member_id \<Rightarrow> member_id list \<Rightarrow> bool" where
  "memberIDInSlice s [] = False"
| "memberIDInSlice s (v # vs) = (v = s \<or> memberIDInSlice s vs)"

type_synonym 's member_callback = "member_id \<Rightarrow> member_id \<Rightarrow> 's \<Rightarrow> 's"

fun add_members :: "'s member_callback \<Rightarrow> member_id \<Rightarrow> member_id list \<Rightarrow> string list \<Rightarrow>
    member_id list \<Rightarrow> 's \<Rightarrow> member_id list \<times> 's" where
  "add_members cb self previous [] current s = (current, s)"
| "add_members cb self previous (m # children) current s =
     (if MemberID m = self then add_members cb self previous children current s
      else add_members cb self previous children (current @ [MemberID m])
        (if memberIDInSlice (MemberID m) previous then s else cb (MemberID m) (MemberID []) s))"

fun remove_members :: "'s member_callback \<Rightarrow> member_id \<Rightarrow> member_id list \<Rightarrow> member_id list \<Rightarrow>
    's \<Rightarrow> 's" where
  "remove_members cb self current [] s = s"
| "remove_members cb self current (p # previous) s =
     remove_members cb self current previous
       (if p = self \<or> memberIDInSlice p current then s else cb (MemberID []) p s)"

text \<open>
  A goroutine: its \<open>stopped\<close> flag, its two variables, and where it is: at the head of the
  loop, in the sleep after an error, waiting on the watch channel, ended, or panicked.
\<close>

datatype watch_at = AtHead | Sleeping | Waiting | Ended | Panicked

record member_watch =
  mw_stopped :: bool
  mw_previous :: "member_id list"
  mw_errors :: nat
  mw_at :: watch_at

definition new_watch :: member_watch where
  "new_watch = \<lparr>mw_stopped = False, mw_previous = [], mw_errors = 0, mw_at = AtHead\<rparr>"

definition watch_children ::
    "'s member_callback \<Rightarrow> cluster_member \<Rightarrow> member_watch \<Rightarrow> string list \<Rightarrow> 's \<Rightarrow> member_watch \<times> 's" where
  "watch_children cb c w children s =
     (case add_members cb (cm_member c) (mw_previous w) children [] s of
        (current, s1) \<Rightarrow>
          (w\<lparr>mw_errors := 0, mw_previous := current, mw_at := Waiting\<rparr>,
           remove_members cb (cm_member c) current (mw_previous w) s1))"

definition watch_failed :: "member_watch \<Rightarrow> watch_at \<Rightarrow> member_watch" where
  "watch_failed w a = w\<lparr>mw_errors := mw_errors w + 1, mw_at := a\<rparr>"

definition watch_round ::
    "'s member_callback \<Rightarrow> cluster_member \<Rightarrow> member_watch \<Rightarrow> 's \<Rightarrow> (member_watch \<times> 's) zkprog" where
  "watch_round cb c w s =
     (if mw_stopped w then ZkReturn (w\<lparr>mw_at := Ended\<rparr>, s)
      else if mw_errors w > 3 then ZkReturn (w\<lparr>mw_at := Panicked\<rparr>, s)
      else ZkChildren (searchPath c) (\<lambda>r.
        case r of
          Inr children \<Rightarrow> ZkReturn (watch_children cb c w children s)
        | Inl ErrNoNode \<Rightarrow>
            zkbind (CreatePath (searchPath c)) (\<lambda>createErr.
              case createErr of
                Some _ \<Rightarrow> ZkReturn (watch_failed w AtHead, s)
              | None \<Rightarrow> ZkReturn (watch_failed w Sleeping, s))
        | Inl _ \<Rightarrow> ZkReturn (watch_failed w Sleeping, s)))"

text \<open>The sleep ends, or the watch channel fires: the goroutine is at the head of the loop.\<close>

definition watch_wake :: "member_watch \<Rightarrow> member_watch" where
  "watch_wake w = (if mw_at w = Sleeping \<or> mw_at w = Waiting then w\<lparr>mw_at := AtHead\<rparr> else w)"

text \<open>
  \<open>MemberListCallback\<close> stops the goroutine it started before and starts a new one;
  the goroutines of the member are a list.
\<close>

definition MemberListCallback ::
    "cluster_member \<Rightarrow> member_watch list \<Rightarrow> cluster_member \<times> member_watch list" where
  "MemberListCallback c ws =
     (c\<lparr>cm_cancel := Some (length ws)\<rparr>,
      (case cm_cancel c of None \<Rightarrow> ws | Some i \<Rightarrow> ws[i := (ws ! i)\<lparr>mw_stopped := True\<rparr>])
        @ [new_watch])"

section \<open>What a round reports\<close>

lemma memberIDInSlice_set [simp]: "memberIDInSlice m ms \<longleftrightarrow> m \<in> set ms"
  by (induction ms) auto

definition listed_members :: "cluster_member \<Rightarrow> string list \<Rightarrow> member_id list" where
  "listed_members c children = filter (\<lambda>m. m \<noteq> cm_member c) (map MemberID children)"

lemma add_members_fold:
  "add_members cb self previous children current s =
     (current @ filter (\<lambda>m. m \<noteq> self) (map MemberID children),
      fold (\<lambda>m. cb m (MemberID []))
        (filter (\<lambda>m. m \<notin> set previous) (filter (\<lambda>m. m \<noteq> self) (map MemberID children))) s)"
  by (induction children arbitrary: current s) auto

lemma remove_members_fold:
  "remove_members cb self current previous s =
     fold (\<lambda>m. cb (MemberID []) m) (filter (\<lambda>p. p \<noteq> self \<and> p \<notin> set current) previous) s"
  by (induction previous arbitrary: s) auto

lemma watch_children_eq:
  "watch_children cb c w children s =
     (w\<lparr>mw_errors := 0, mw_previous := listed_members c children, mw_at := Waiting\<rparr>,
      fold (\<lambda>m. cb (MemberID []) m)
        (filter (\<lambda>p. p \<noteq> cm_member c \<and> p \<notin> set (listed_members c children)) (mw_previous w))
        (fold (\<lambda>m. cb m (MemberID []))
          (filter (\<lambda>m. m \<notin> set (mw_previous w)) (listed_members c children)) s))"
  by (simp add: watch_children_def add_members_fold remove_members_fold listed_members_def)

text \<open>The callback that keeps the set of the members it was told of.\<close>

definition apply_change :: "member_id set member_callback" where
  "apply_change add rem S =
     (let S' = (if rem \<noteq> MemberID [] then S - {rem} else S)
      in if add \<noteq> MemberID [] then insert add S' else S')"

lemma fold_add: "MemberID [] \<notin> set ms \<Longrightarrow> fold (\<lambda>m. apply_change m (MemberID [])) ms S = S \<union> set ms"
  by (induction ms arbitrary: S) (auto simp: apply_change_def)

lemma fold_remove: "MemberID [] \<notin> set ms \<Longrightarrow> fold (\<lambda>m. apply_change (MemberID []) m) ms S = S - set ms"
  by (induction ms arbitrary: S) (auto simp: apply_change_def)

text \<open>
  The system of one goroutine and a Zookeeper service: a round at the head of the loop, a
  wake-up, a stop from outside, and any move of the service's state.
\<close>

type_synonym ('z, 's) watch_sys = "'z \<times> member_watch \<times> 's"

inductive watch_step ::
    "'z zk_service \<Rightarrow> cluster_member \<Rightarrow> 's member_callback \<Rightarrow>
     ('z, 's) watch_sys \<Rightarrow> ('z, 's) watch_sys \<Rightarrow> bool"
  for svc c cb where
  round: "mw_at w = AtHead \<Longrightarrow> run_zk svc (watch_round cb c w s) z = ((w', s'), z') \<Longrightarrow>
    watch_step svc c cb (z, w, s) (z', w', s')"
| wake: "watch_step svc c cb (z, w, s) (z, watch_wake w, s)"
| stop: "watch_step svc c cb (z, w, s) (z, w\<lparr>mw_stopped := True\<rparr>, s)"
| move: "watch_step svc c cb (z, w, s) (z', w, s)"

inductive watch_reachable ::
    "'z zk_service \<Rightarrow> cluster_member \<Rightarrow> 's member_callback \<Rightarrow> 's \<Rightarrow> ('z, 's) watch_sys \<Rightarrow> bool"
  for svc c cb s0 where
  start: "watch_reachable svc c cb s0 (z, new_watch, s0)"
| step: "watch_reachable svc c cb s0 x \<Longrightarrow> watch_step svc c cb x y \<Longrightarrow>
    watch_reachable svc c cb s0 y"

text \<open>The cases of one round, run against a service in the state \<open>z\<close>.\<close>

lemma watch_round_cases:
  obtains (stopped) "mw_stopped w" "fst (run_zk svc (watch_round cb c w s) z) = (w\<lparr>mw_at := Ended\<rparr>, s)"
  | (panics) "\<not> mw_stopped w" "mw_errors w > 3"
      "fst (run_zk svc (watch_round cb c w s) z) = (w\<lparr>mw_at := Panicked\<rparr>, s)"
  | (children) children where "\<not> mw_stopped w" "mw_errors w \<le> 3"
      "fst (zks_children svc (searchPath c) z) = Inr children"
      "fst (run_zk svc (watch_round cb c w s) z) = watch_children cb c w children s"
  | (failed) err a where "\<not> mw_stopped w" "mw_errors w \<le> 3"
      "fst (zks_children svc (searchPath c) z) = Inl err" "a = AtHead \<or> a = Sleeping"
      "fst (run_zk svc (watch_round cb c w s) z) = (watch_failed w a, s)"
proof (cases "mw_stopped w \<or> mw_errors w > 3")
  case True
  then show ?thesis
    using stopped panics by (auto simp: watch_round_def)
next
  case False
  show ?thesis
  proof (cases "fst (zks_children svc (searchPath c) z)")
    case (Inr cs)
    with False show ?thesis
      by (intro children [of cs]) (auto simp: watch_round_def Let_def)
  next
    case (Inl err)
    obtain a where "a = AtHead \<or> a = Sleeping"
        "fst (run_zk svc (watch_round cb c w s) z) = (watch_failed w a, s)"
      using False Inl
      by (cases err; cases "fst (run_zk svc (CreatePath (searchPath c))
            (snd (zks_children svc (searchPath c) z)))")
         (auto simp: watch_round_def Let_def run_zk_bind)
    with False Inl show ?thesis by (intro failed [of err a]) auto
  qed
qed

definition watch_inv :: "cluster_member \<Rightarrow> member_watch \<Rightarrow> member_id set \<Rightarrow> bool" where
  "watch_inv c w S \<longleftrightarrow>
     S = set (mw_previous w) \<and> cm_member c \<notin> S \<and> MemberID [] \<notin> S \<and> mw_errors w \<le> 4"

text \<open>Zookeeper node names are not empty.\<close>

definition proper_children :: "'z zk_service \<Rightarrow> bool" where
  "proper_children svc \<longleftrightarrow>
     (\<forall>p z cs. fst (zks_children svc p z) = Inr cs \<longrightarrow> [] \<notin> set cs)"

lemma watch_children_tracks:
  assumes "watch_inv c w S" and "[] \<notin> set children"
  shows "snd (watch_children apply_change c w children S) = set (listed_members c children)"
    and "watch_inv c (fst (watch_children apply_change c w children S))
      (snd (watch_children apply_change c w children S))"
proof -
  have "MemberID [] \<notin> set (listed_members c children)" "cm_member c \<notin> set (listed_members c children)"
    using assms(2) by (auto simp: listed_members_def)
  moreover from this
  show "snd (watch_children apply_change c w children S) = set (listed_members c children)"
    using assms by (auto simp: watch_children_eq watch_inv_def fold_add fold_remove)
  ultimately show "watch_inv c (fst (watch_children apply_change c w children S))
      (snd (watch_children apply_change c w children S))"
    by (simp add: watch_children_eq watch_inv_def)
qed

lemma watch_round_inv:
  assumes "proper_children svc" and inv: "watch_inv c w S"
    and "run_zk svc (watch_round apply_change c w S) z = ((w', S'), z')"
  shows "watch_inv c w' S'"
proof (cases rule: watch_round_cases
    [where svc = svc and cb = apply_change and c = c and w = w and s = S and z = z])
  case (children cs)
  then have "[] \<notin> set cs" using assms(1) by (auto simp: proper_children_def)
  from watch_children_tracks(2) [OF inv this]
  have "watch_inv c (fst (w', S')) (snd (w', S'))" using children(4) assms(3) by simp
  then show ?thesis by simp
qed (use inv assms(3) in \<open>auto simp: watch_inv_def watch_failed_def\<close>)

lemma watch_inv_reachable:
  assumes "proper_children svc" and "watch_reachable svc c apply_change {} x"
  shows "watch_inv c (fst (snd x)) (snd (snd x))"
  using assms(2)
proof (induction rule: watch_reachable.induct)
  case start
  then show ?case by (simp add: watch_inv_def new_watch_def)
next
  case (step x y)
  from step.hyps(2) step.IH show ?case
    by (cases rule: watch_step.cases)
       (auto simp: watch_wake_def watch_inv_def
          dest: watch_round_inv [OF assms(1), unfolded watch_inv_def, rotated])
qed

lemma member_round_tracks:
  assumes "proper_children svc" and "watch_reachable svc c apply_change {} (z, w, S)"
    and "\<not> mw_stopped w" and "mw_errors w \<le> 3"
    and "fst (zks_children svc (searchPath c) z) = Inr children"
    and "run_zk svc (watch_round apply_change c w S) z = ((w', S'), z')"
  shows "S' = MemberID ` set children - {cm_member c} \<and> mw_at w' = Waiting \<and> mw_errors w' = 0"
proof -
  have inv: "watch_inv c w S" using watch_inv_reachable [OF assms(1,2)] by simp
  have ne: "[] \<notin> set children" using assms(1,5) by (auto simp: proper_children_def)
  have "(w', S') = watch_children apply_change c w children S"
    using assms(3-6) by (simp add: watch_round_def Let_def)
  with watch_children_tracks(1) [OF inv ne] watch_children_eq [of apply_change c w children S]
  show ?thesis by (auto simp: listed_members_def)
qed

text \<open>
  C17: the member list callback keeps up with the cluster. In every state a goroutine can
  reach, whatever the service did and however many calls failed, a round that gets the children
  of the member node leaves a callback that maintains a set of members with exactly the listed
  members other than this one.
\<close>

theorem member_callback_tracks_members:
  assumes "proper_children svc" and "watch_reachable svc c apply_change {} (z, w, S)"
    and "\<not> mw_stopped w" and "mw_errors w \<le> 3"
    and "fst (zks_children svc (searchPath c) z) = Inr children"
    and "run_zk svc (watch_round apply_change c w S) z = ((w', S'), z')"
  shows "S' = MemberID ` set children - {cm_member c} \<and> mw_at w' = Waiting \<and> mw_errors w' = 0"
  using assms by (rule member_round_tracks)

definition one_child :: "nat zk_service" where
  "one_child =
     \<lparr>zks_state = (\<lambda>z. (StateHasSession, z)), zks_create = (\<lambda>p d e z. (Inr p, z)),
      zks_create_seq = (\<lambda>p d z. (Inr p, z)), zks_exists = (\<lambda>p z. (Inr True, z)),
      zks_children = (\<lambda>p z. (Inr [''a:1'', ''b:1''], z)), zks_get = (\<lambda>p z. (Inr [], z)),
      zks_delete = (\<lambda>p z. (None, z))\<rparr>"

theorem member_callback_tracks_members_witness:
  "snd (fst (run_zk one_child
     (watch_round apply_change (NewZookeeperClusterMember ''/gnmi'' ''a:1'') new_watch {}) 0)) =
   {MemberID ''b:1''}"
proof -
  let ?c = "NewZookeeperClusterMember ''/gnmi'' ''a:1''"
  let ?r = "run_zk one_child (watch_round apply_change ?c new_watch {}) 0"
  have "proper_children one_child" by (auto simp: proper_children_def one_child_def)
  from member_callback_tracks_members [OF this watch_reachable.start, of ?c 0 "[''a:1'', ''b:1'']"
      "fst (fst ?r)" "snd (fst ?r)" "snd ?r"]
  show ?thesis
    by (auto simp: new_watch_def one_child_def NewZookeeperClusterMember_def)
qed

definition log_change :: "(member_id \<times> member_id) list member_callback" where
  "log_change add rem log = log @ [(add, rem)]"

lemma fold_log: "fold (\<lambda>m. log_change (f m) (g m)) ms log = log @ map (\<lambda>m. (f m, g m)) ms"
  by (induction ms arbitrary: log) (auto simp: log_change_def)

text \<open>
  Every change is reported once. A round calls back once for each member that is listed
  and was not before, in the order of the list, and then once for each member that was listed
  before and is not any more.
\<close>

theorem member_callback_reports_once:
  assumes "distinct children" and "distinct (mw_previous w)" and "cm_member c \<notin> set (mw_previous w)"
  shows "\<exists>adds rems w'.
    watch_children log_change c w children log =
      (w', log @ map (\<lambda>m. (m, MemberID [])) adds @ map (\<lambda>m. (MemberID [], m)) rems) \<and>
    distinct adds \<and> distinct rems \<and>
    set adds = (MemberID ` set children - {cm_member c}) - set (mw_previous w) \<and>
    set rems = set (mw_previous w) - MemberID ` set children \<and>
    set (mw_previous w') = MemberID ` set children - {cm_member c} \<and> distinct (mw_previous w')"
proof -
  let ?cur = "listed_members c children"
  have d: "distinct ?cur"
    using assms(1) by (auto simp: listed_members_def distinct_map inj_on_def)
  have s: "set ?cur = MemberID ` set children - {cm_member c}"
    by (auto simp: listed_members_def)
  let ?adds = "filter (\<lambda>m. m \<notin> set (mw_previous w)) ?cur"
  let ?rems = "filter (\<lambda>p. p \<noteq> cm_member c \<and> p \<notin> set ?cur) (mw_previous w)"
  let ?w = "w\<lparr>mw_errors := 0, mw_previous := ?cur, mw_at := Waiting\<rparr>"
  have "watch_children log_change c w children log =
      (?w, log @ map (\<lambda>m. (m, MemberID [])) ?adds @ map (\<lambda>m. (MemberID [], m)) ?rems)"
    by (simp add: watch_children_eq fold_log)
  moreover have "set ?adds = (MemberID ` set children - {cm_member c}) - set (mw_previous w)"
    by (auto simp: s)
  moreover have "set ?rems = set (mw_previous w) - MemberID ` set children"
    using assms(3) by (auto simp: s)
  moreover have "distinct ?adds" "distinct ?rems" using d assms(2) by simp_all
  moreover have "set (mw_previous ?w) = MemberID ` set children - {cm_member c}" using s by simp
  moreover have "distinct (mw_previous ?w)" using d by simp
  ultimately show ?thesis by blast
qed

theorem member_callback_reports_once_witness:
  "snd (watch_children log_change (NewZookeeperClusterMember ''/gnmi'' ''a:1'')
     (new_watch\<lparr>mw_previous := [MemberID ''c:1'']\<rparr>) [''a:1'', ''b:1''] []) =
   [(MemberID ''b:1'', MemberID []), (MemberID [], MemberID ''c:1'')] \<and>
   (\<exists>adds. set adds = {MemberID ''b:1''} \<and> distinct adds)"
  using member_callback_reports_once [of "[''a:1'', ''b:1'']" "new_watch\<lparr>mw_previous := [MemberID ''c:1'']\<rparr>"
      "NewZookeeperClusterMember ''/gnmi'' ''a:1''" "[]"]
  by (auto simp: watch_children_def log_change_def new_watch_def NewZookeeperClusterMember_def)

fun watch_rounds :: "'z zk_service \<Rightarrow> 's member_callback \<Rightarrow> cluster_member \<Rightarrow> nat \<Rightarrow>
    (member_watch \<times> 's) \<times> 'z \<Rightarrow> (member_watch \<times> 's) \<times> 'z" where
  "watch_rounds svc cb c 0 x = x"
| "watch_rounds svc cb c (Suc n) ((w, s), z) =
     watch_rounds svc cb c n (run_zk svc (watch_round cb c (watch_wake w) s) z)"

lemma watch_rounds_failing:
  assumes "\<And>z. \<exists>e. fst (zks_children svc (searchPath c) z) = Inl e"
    and "\<not> mw_stopped w" and "mw_errors w + n \<le> 4" and "mw_at w \<noteq> Panicked"
  shows "\<exists>a z'. watch_rounds svc cb c n ((w, s), z) =
    ((w\<lparr>mw_errors := mw_errors w + n, mw_at := a\<rparr>, s), z') \<and> a \<noteq> Panicked"
  using assms(2-4)
proof (induction n arbitrary: w z)
  case 0
  then show ?case by (intro exI [of _ "mw_at w"]) simp
next
  case (Suc n)
  let ?r = "run_zk svc (watch_round cb c (watch_wake w) s) z"
  have w: "mw_stopped (watch_wake w) = mw_stopped w" "mw_errors (watch_wake w) = mw_errors w"
    by (simp_all add: watch_wake_def)
  obtain a where a: "fst ?r = (watch_failed (watch_wake w) a, s)" "a \<noteq> Panicked"
  proof (cases rule: watch_round_cases
      [where svc = svc and cb = cb and c = c and w = "watch_wake w" and s = s and z = z])
    case (children cs)
    with assms(1) [of z] show ?thesis by auto
  qed (use Suc.prems w that in auto)
  then have r: "?r = ((watch_failed (watch_wake w) a, s), snd ?r)" by (metis prod.collapse)
  have "\<exists>b z'. watch_rounds svc cb c n ((watch_failed (watch_wake w) a, s), snd ?r) =
      (((watch_failed (watch_wake w) a)\<lparr>mw_errors := mw_errors w + Suc n, mw_at := b\<rparr>, s), z') \<and> b \<noteq> Panicked"
    using Suc.IH [of "watch_failed (watch_wake w) a" "snd ?r"] Suc.prems w a(2)
    by (simp add: watch_failed_def)
  moreover have "(watch_failed (watch_wake w) a)\<lparr>mw_errors := k, mw_at := b\<rparr> =
      w\<lparr>mw_errors := k, mw_at := b\<rparr>" for k b
    by (simp add: watch_failed_def watch_wake_def)
  ultimately show ?case using r by (metis watch_rounds.simps(2))
qed

lemma watch_rounds_append:
  "watch_rounds svc cb c (m + n) x = watch_rounds svc cb c n (watch_rounds svc cb c m x)"
proof (induction m arbitrary: x)
  case (Suc m)
  then show ?case by (cases x; cases "fst x") simp
qed simp

text \<open>
  The goroutine gives up after four failures in a row. While the service answers the list
  of children with errors, rounds and wake-ups count up to four errors without a callback, and
  the fifth visit of the loop head panics; an answer in between starts the count again.
\<close>

theorem member_callback_gives_up:
  assumes "\<And>z. \<exists>e. fst (zks_children svc (searchPath c) z) = Inl e"
  shows "(n \<le> 4 \<longrightarrow> (\<exists>w z'. watch_rounds svc cb c n ((new_watch, s), z) = ((w, s), z') \<and>
      mw_errors w = n \<and> mw_at w \<noteq> Panicked)) \<and>
    (\<exists>w z'. watch_rounds svc cb c 5 ((new_watch, s), z) = ((w, s), z') \<and> mw_at w = Panicked)"
proof -
  have r: "\<exists>w z'. watch_rounds svc cb c k ((new_watch, s), z) = ((w, s), z') \<and>
      mw_errors w = k \<and> mw_at w \<noteq> Panicked \<and> \<not> mw_stopped w" if k: "k \<le> 4" for k
  proof -
    obtain a z' where "watch_rounds svc cb c k ((new_watch, s), z) =
        ((new_watch\<lparr>mw_errors := mw_errors new_watch + k, mw_at := a\<rparr>, s), z')" "a \<noteq> Panicked"
      using watch_rounds_failing [of svc c new_watch k cb s z] assms k
      by (auto simp: new_watch_def)
    then show ?thesis
      by (intro exI [of _ "new_watch\<lparr>mw_errors := mw_errors new_watch + k, mw_at := a\<rparr>"] exI [of _ z'])
         (simp add: new_watch_def)
  qed
  obtain w z' where w: "watch_rounds svc cb c 4 ((new_watch, s), z) = ((w, s), z')"
      "mw_errors w = 4" "\<not> mw_stopped w"
    using r [of 4] by auto
  have "watch_rounds svc cb c 5 ((new_watch, s), z) = watch_rounds svc cb c 1 ((w, s), z')"
    using watch_rounds_append [of svc cb c 4 1] w by simp
  also have "\<dots> = (((watch_wake w)\<lparr>mw_at := Panicked\<rparr>, s), z')"
    using w by (simp add: watch_round_def watch_wake_def)
  finally show ?thesis using r by (metis member_watch.select_convs(4) member_watch.surjective
        member_watch.update_convs(4))
qed

definition no_members :: "nat zk_service" where
  "no_members = one_child\<lparr>zks_children := (\<lambda>p z. (Inl ErrNoNode, z))\<rparr>"

theorem member_callback_gives_up_witness:
  "\<exists>w z'. watch_rounds no_members apply_change (NewZookeeperClusterMember ''/gnmi'' ''a:1'') 5
     ((new_watch, {}), 0) = ((w, {}), z') \<and> mw_at w = Panicked"
  using member_callback_gives_up
    [of no_members "NewZookeeperClusterMember ''/gnmi'' ''a:1''" 0 apply_change "{}" 0]
  by (simp add: no_members_def)

definition callbacks_started :: "nat \<Rightarrow> cluster_member \<Rightarrow> cluster_member \<times> member_watch list" where
  "callbacks_started n c = ((\<lambda>(c, ws). MemberListCallback c ws) ^^ n) (c, [])"

lemma callbacks_started_Suc:
  assumes "cm_cancel c = None"
  shows "cm_cancel (fst (callbacks_started (Suc n) c)) = Some n \<and>
    snd (callbacks_started (Suc n) c) =
      replicate n (new_watch\<lparr>mw_stopped := True\<rparr>) @ [new_watch]"
proof (induction n)
  case 0
  then show ?case using assms by (simp add: callbacks_started_def MemberListCallback_def)
next
  case (Suc n)
  have "callbacks_started (Suc (Suc n)) c =
      (case callbacks_started (Suc n) c of (c, ws) \<Rightarrow> MemberListCallback c ws)"
    by (simp add: callbacks_started_def)
  with Suc show ?case
    by (auto simp: MemberListCallback_def nth_append list_update_append replicate_append_same
        split: prod.splits)
qed

text \<open>
  Only the last callback runs. However often \<open>MemberListCallback\<close> is called, every
  goroutine but the one started last has been told to stop, and a goroutine that was told to
  stop ends at its next visit of the loop head without a call of Zookeeper or the callback.
\<close>

theorem only_last_callback_runs:
  assumes "cm_cancel c = None" and "callbacks_started (Suc n) c = (c', ws)"
  shows "length ws = Suc n \<and> (\<forall>i < Suc n. mw_stopped (ws ! i) \<longleftrightarrow> i \<noteq> n) \<and>
    (\<forall>i < n. run_zk svc (watch_round cb c (ws ! i) s) z = (((ws ! i)\<lparr>mw_at := Ended\<rparr>, s), z))"
proof -
  have ws: "ws = replicate n (new_watch\<lparr>mw_stopped := True\<rparr>) @ [new_watch]"
    using callbacks_started_Suc [OF assms(1), of n] assms(2) by simp
  show ?thesis
    by (auto simp: ws nth_append new_watch_def watch_round_def less_Suc_eq)
qed

theorem only_last_callback_runs_witness:
  "map mw_stopped (snd (callbacks_started 3 (NewZookeeperClusterMember ''/gnmi'' ''a:1''))) =
   [True, True, False]"
proof -
  let ?c = "NewZookeeperClusterMember ''/gnmi'' ''a:1''"
  let ?ws = "snd (callbacks_started (Suc 2) ?c)"
  from only_last_callback_runs [of ?c 2 "fst (callbacks_started (Suc 2) ?c)" ?ws one_child apply_change "{}" 0]
  have ws: "length ?ws = 3" "mw_stopped (?ws ! 0)" "mw_stopped (?ws ! 1)" "\<not> mw_stopped (?ws ! 2)"
    by (simp_all add: NewZookeeperClusterMember_def)
  have "map mw_stopped ?ws = map (\<lambda>i. mw_stopped (?ws ! i)) [0, 1, 2]"
    using ws(1) map_nth [of "map mw_stopped ?ws"] by (simp add: upt_rec numeral_2_eq_2)
  with ws show ?thesis by (simp add: numeral_3_eq_3 numeral_2_eq_2)
qed

section \<open>Registration creates the path\<close>

text \<open>
  What the calls that create paths rely on: \<open>Exists\<close> tells whether the node exists, a successful
  \<open>Create\<close> and one that fails with \<open>ErrNodeExists\<close> leave the node existing, and neither call
  removes nodes.
\<close>

definition tree_service :: "'z zk_service \<Rightarrow> ('z \<Rightarrow> string set) \<Rightarrow> bool" where
  "tree_service svc nodes \<longleftrightarrow>
     (\<forall>p z. nodes z \<subseteq> nodes (snd (zks_exists svc p z)) \<and>
        (fst (zks_exists svc p z) = Inr True \<longrightarrow> p \<in> nodes (snd (zks_exists svc p z)))) \<and>
     (\<forall>p d e z. nodes z \<subseteq> nodes (snd (zks_create svc p d e z)) \<and>
        ((\<exists>q. fst (zks_create svc p d e z) = Inr q) \<or>
         fst (zks_create svc p d e z) = Inl ErrNodeExists \<longrightarrow>
         p \<in> nodes (snd (zks_create svc p d e z))))"

text \<open>The paths that \<open>createPath\<close> walks through: the nonempty parts, each after the former.\<close>

fun walked_paths :: "string \<Rightarrow> string list \<Rightarrow> string list" where
  "walked_paths pth [] = []"
| "walked_paths pth (p # parts) =
     (if p = [] then walked_paths pth parts
      else (pth @ ''/'' @ p) # walked_paths (pth @ ''/'' @ p) parts)"

lemma createPath_loop_creates:
  assumes svc: "tree_service svc nodes"
    and "run_zk svc (createPath_loop pth parts) z = (None, z')"
  shows "set (walked_paths pth parts) \<union> nodes z \<subseteq> nodes z'"
  using assms(2)
proof (induction parts arbitrary: pth z)
  case Nil
  then show ?case by simp
next
  case (Cons p parts)
  show ?case
  proof (cases "p = []")
    case True
    with Cons show ?thesis by simp
  next
    case False
    let ?p = "pth @ ''/'' @ p"
    let ?e = "zks_exists svc ?p z"
    let ?c = "zks_create svc ?p [] False (snd ?e)"
    have e: "nodes z \<subseteq> nodes (snd ?e)" "fst ?e = Inr True \<Longrightarrow> ?p \<in> nodes (snd ?e)"
      using svc by (auto simp: tree_service_def)
    have c: "nodes (snd ?e) \<subseteq> nodes (snd ?c)"
      "(\<exists>q. fst ?c = Inr q) \<or> fst ?c = Inl ErrNodeExists \<Longrightarrow> ?p \<in> nodes (snd ?c)"
      using svc by (auto simp: tree_service_def)
    obtain y where y: "run_zk svc (createPath_loop ?p parts) y = (None, z')"
        "nodes z \<subseteq> nodes y" "?p \<in> nodes y"
    proof (cases "fst ?e")
      case (Inl err)
      with Cons.prems False show ?thesis by (simp add: Let_def)
    next
      case (Inr ex)
      show ?thesis
      proof (cases ex)
        case True
        with Inr Cons.prems False e that [of "snd ?e"] show ?thesis by (simp add: Let_def)
      next
        case False
        have "run_zk svc (createPath_loop ?p parts) (snd ?c) = (None, z') \<and>
            ((\<exists>q. fst ?c = Inr q) \<or> fst ?c = Inl ErrNodeExists)"
          using Cons.prems \<open>p \<noteq> []\<close> Inr False
          by (cases "fst ?c") (auto simp: Let_def split: if_splits)
        with e c that [of "snd ?c"] show ?thesis by blast
      qed
    qed
    from Cons.IH [OF y(1)] y(2,3) False show ?thesis by auto
  qed
qed

text \<open>A Zookeeper tree as the list of its paths, the parent of a new node being required.\<close>

definition parent_path :: "string \<Rightarrow> string" where
  "parent_path p = join_with ''/'' (butlast (split_on CHR ''/'' p))"

definition mem_tree :: "string list zk_service" where
  "mem_tree =
     \<lparr>zks_state = (\<lambda>z. (StateHasSession, z)),
      zks_create = (\<lambda>p d e z.
        if parent_path p \<noteq> [] \<and> parent_path p \<notin> set z then (Inl ErrNoNode, z)
        else if p \<in> set z then (Inl ErrNodeExists, z)
        else (Inr p, p # z)),
      zks_create_seq = (\<lambda>p d z. (Inl (ZkOtherError ''unused''), z)),
      zks_exists = (\<lambda>p z. (Inr (p \<in> set z), z)),
      zks_children = (\<lambda>p z. (Inl ErrNoNode, z)),
      zks_get = (\<lambda>p z. (Inl ErrNoNode, z)),
      zks_delete = (\<lambda>p z. (None, removeAll p z))\<rparr>"

lemma tree_service_mem_tree: "tree_service mem_tree set"
  by (auto simp: tree_service_def mem_tree_def)

text \<open>
  A successful \<open>CreatePath\<close> leaves every node on the path existing, and removes none,
  whatever other clients create meanwhile.
\<close>

theorem CreatePath_creates_every_prefix:
  assumes "tree_service svc nodes" and "run_zk svc (CreatePath path) z = (None, z')"
  shows "set (walked_paths [] (split_on CHR ''/'' path)) \<union> nodes z \<subseteq> nodes z'"
  using createPath_loop_creates [OF assms(1)] assms(2) by (simp add: CreatePath_def createPath_def)

theorem CreatePath_creates_every_prefix_witness:
  "{''/gnmi'', ''/gnmi/members''} \<subseteq> set (snd (run_zk mem_tree (CreatePath ''/gnmi/members'') []))"
proof -
  have "fst (run_zk mem_tree (CreatePath ''/gnmi/members'') []) = None" by code_simp
  from CreatePath_creates_every_prefix [OF tree_service_mem_tree, of "''/gnmi/members''" "[]"] this
  have "set (walked_paths [] (split_on CHR ''/'' ''/gnmi/members'')) \<subseteq>
      set (snd (run_zk mem_tree (CreatePath ''/gnmi/members'') []))"
    by (metis Un_subset_iff prod.collapse)
  then show ?thesis by simp
qed

text \<open>
  When \<open>Register\<close> reports success, the registration node of the member exists under the
  configured prefix; if its parent was missing, so does every node on the way to it.
\<close>

theorem Register_creates_node:
  assumes "tree_service svc nodes" and "run_zk svc (Register c) z = (None, z')"
  shows "registrationPath c \<in> nodes z' \<and> nodes z \<subseteq> nodes z' \<and>
    (fst (zks_create svc (registrationPath c) [] True z) = Inl ErrNoNode \<longrightarrow>
       set (walked_paths [] (butlast (split_on CHR ''/'' (registrationPath c)))) \<subseteq> nodes z')"
proof -
  let ?p = "registrationPath c"
  let ?r1 = "zks_create svc ?p [] True z"
  have law: "nodes y \<subseteq> nodes (snd (zks_create svc ?p [] True y)) \<and>
      ((\<exists>q. fst (zks_create svc ?p [] True y) = Inr q) \<longrightarrow> ?p \<in> nodes (snd (zks_create svc ?p [] True y)))" for y
    using assms(1) by (auto simp: tree_service_def)
  show ?thesis
  proof (cases "fst ?r1")
    case (Inr q)
    with assms(2) law [of z] show ?thesis by (auto simp: Register_def Let_def)
  next
    case (Inl err)
    let ?r2 = "run_zk svc (CreateParentPath ?p) (snd ?r1)"
    let ?r3 = "zks_create svc ?p [] True (snd ?r2)"
    have err: "err = ErrNoNode" using assms(2) Inl by (cases err) (auto simp: Register_def Let_def)
    then have r2: "fst ?r2 = None"
      using assms(2) Inl
      by (cases "fst ?r2") (auto simp: Register_def Let_def run_zk_bind)
    have r3: "\<exists>q. fst ?r3 = Inr q" "z' = snd ?r3"
      using assms(2) Inl err r2
      by (cases "fst ?r3"; auto simp: Register_def Let_def run_zk_bind)+
    have "run_zk svc (createPath_loop [] (butlast (split_on CHR ''/'' ?p))) (snd ?r1) = (None, snd ?r2)"
      using r2 by (simp add: CreateParentPath_def createPath_def Let_def butlast_conv_take) (metis prod.collapse)
    from createPath_loop_creates [OF assms(1) this] law [of z] law [of "snd ?r2"] r3
    show ?thesis by auto
  qed
qed

theorem Register_creates_node_witness:
  "''/gnmi/members/a:1'' \<in>
     set (snd (run_zk mem_tree (Register (NewZookeeperClusterMember ''/gnmi/'' ''a:1'')) []))"
proof -
  let ?c = "NewZookeeperClusterMember ''/gnmi/'' ''a:1''"
  have "fst (run_zk mem_tree (Register ?c) []) = None" "registrationPath ?c = ''/gnmi/members/a:1''"
    by code_simp+
  then show ?thesis
    using Register_creates_node [OF tree_service_mem_tree, of ?c "[]"] by (metis prod.collapse)
qed

lemma createPath_loop_eq: "createPath_loop pth parts = create_path_loop pth parts"
  by (induction parts arbitrary: pth) (auto simp: Let_def fun_eq_iff split: sum.splits)

text \<open>The lock package and the cluster package create parent paths by the same calls.\<close>

theorem CreateParentPath_same_as_lock: "CreateParentPath path = createParentPath path"
  by (simp add: CreateParentPath_def createParentPath_def createPath_def createPath_loop_eq Let_def)

end
