(* ===== verification/Server.thy ===== *)
theory Server
  imports GnmiTypes Clustering
begin

text \<open>
  \<open>gateway/server/server.go\<close>: the Subscribe RPC of the gateway. The packages of
  \<open>openconfig/gnmi\<close> the server calls (cache, match, coalescing queue, path) and the gRPC
  stream are parameters: \<open>rpc_ops\<close>, a record of operations over a state \<open>'w\<close> that may also hold
  what other goroutines do between two calls, and \<open>path_lib\<close>. \<open>Subscribe\<close> is modelled up to the
  goroutines it starts; the producer (\<open>processSubscription\<close>, \<open>processPollingSubscription\<close>) and
  the sender (\<open>sendStreamingResults\<close>) are functions over the state of the RPC. Messages of
  errors are kept without their formatted arguments.
\<close>

section \<open>Interfaces of the server\<close>

text \<open>What the coalescing queue holds; the leaf pointer may be nil.\<close>

datatype item = SyncMarker | LeafItem "leaf_value option" | OtherItem string

datatype next_result = NextItem item uint32 | NextClosed | NextError string

datatype recv_result = RecvEOF | RecvError string | Received subscribe_request

text \<open>
  \<open>w_Query\<close> gives the values the cache visits for a path (\<open>None\<close> is a nil value) and the error
  it returns when no visit fails. \<open>w_Send\<close> also tells whether the send took longer than the
  timeout.
\<close>

record 'w rpc_ops =
  w_Recv :: "'w \<Rightarrow> recv_result \<times> 'w"
  w_Send :: "subscribe_response \<Rightarrow> 'w \<Rightarrow> (bool \<times> string option) \<times> 'w"
  w_HasTarget :: "string \<Rightarrow> 'w \<Rightarrow> bool"
  w_Query :: "string \<Rightarrow> string list \<Rightarrow> 'w \<Rightarrow> leaf_value option list \<times> string option"
  w_AddQuery :: "string list \<Rightarrow> 'w \<Rightarrow> 'w"
  w_RemoveQuery :: "string list \<Rightarrow> 'w \<Rightarrow> 'w"
  w_MatchUpdate :: "string list \<Rightarrow> leaf_value \<Rightarrow> 'w \<Rightarrow> 'w"
  w_NewQueue :: "'w \<Rightarrow> 'w"
  w_Insert :: "item \<Rightarrow> 'w \<Rightarrow> string option \<times> 'w"
  w_Next :: "'w \<Rightarrow> next_result \<times> 'w"
  w_Close :: "'w \<Rightarrow> 'w"
  w_IsClosed :: "'w \<Rightarrow> bool"

text \<open>
  \<open>path.ToStrings\<close>, the capacity its slice has beyond its length, and \<open>path.CompletePath\<close>.
\<close>

record path_lib =
  pl_ToStrings :: "path option \<Rightarrow> bool \<Rightarrow> string list"
  pl_Spare :: "path option \<Rightarrow> nat"
  pl_CompletePath :: "path option \<Rightarrow> path option \<Rightarrow> string + string list"

record rpc_context =
  cx_Peer :: "string option"
  cx_Values :: "(string, string) gomap"

type_synonym RPCACL = "string \<Rightarrow> bool"

record ACL =
  ac_NewRPCACL :: "rpc_context \<Rightarrow> string + RPCACL"
  ac_Check :: "string \<Rightarrow> string \<Rightarrow> bool"

definition aclStub_Check :: RPCACL where
  "aclStub_Check tgt = True"

record 'w server =
  sv_a :: "ACL option"
  sv_Forwardable :: "string \<Rightarrow> bool"
  sv_cluster :: "('w \<Rightarrow> (string + member_id list) \<times> 'w) option"
  sv_subscribeSlots :: "nat option"
  sv_timeout :: int64

text \<open>\<open>subscribeSlots\<close> is nil or a channel of the given capacity.\<close>

definition Timeout :: int64 where
  "Timeout = 60000000000"

definition NewServer :: "int \<Rightarrow> (string \<Rightarrow> bool) \<Rightarrow> ('w \<Rightarrow> (string + member_id list) \<times> 'w) option \<Rightarrow>
    'w server" where
  "NewServer SubscriptionLimit forwardable cluster =
     \<lparr>sv_a = None, sv_Forwardable = forwardable, sv_cluster = cluster,
      sv_subscribeSlots = (if SubscriptionLimit > 0 then Some (nat SubscriptionLimit) else None),
      sv_timeout = Timeout\<rparr>"

definition SetACL :: "ACL option \<Rightarrow> 'w server \<Rightarrow> 'w server" where
  "SetACL a s = s\<lparr>sv_a := a\<rparr>"

section \<open>Responses\<close>

datatype status_code =
    Unauthenticated | InvalidArgument | NotFound | PermissionDenied | Internal | Unknown

datatype rpc_error = Status status_code string | Failure string

definition set_duplicates :: "uint32 \<Rightarrow> notification \<Rightarrow> notification" where
  "set_duplicates dup n =
     (case n_Update n of
        [] \<Rightarrow> n
      | u # us \<Rightarrow> n\<lparr>n_Update := u\<lparr>u_Duplicates := dup\<rparr> # us\<rparr>)"

definition MakeSubscribeResponse ::
    "leaf_value \<Rightarrow> uint32 \<Rightarrow> (rpc_error + notification option) outcome" where
  "MakeSubscribeResponse v dup =
     (case v of
        OtherValue s \<Rightarrow> Done (Inl (Status Internal ''invalid notification type''))
      | NotificationValue n \<Rightarrow>
          if dup > 0
          then bind_outcome (deref n) (\<lambda>m. Done (Inr (Some (set_duplicates dup m))))
          else Done (Inr n))"

definition memberAddressInMemberList :: "string \<Rightarrow> member_id list \<Rightarrow> bool" where
  "memberAddressInMemberList addr members =
     (let ipParts = split_on CHR '':'' addr in
      if length ipParts < 1 \<or> ipParts ! 0 = [] then False
      else list_ex (\<lambda>v.
        let memberParts = split_on CHR '':'' (member_string v) in
        if length memberParts < 1 \<or> memberParts ! 0 = [] then False
        else ipParts ! 0 = memberParts ! 0) members)"

definition isTargetDelete :: "path_lib \<Rightarrow> leaf_value \<Rightarrow> bool outcome" where
  "isTargetDelete lib v =
     (case v of
        OtherValue s \<Rightarrow> Done False
      | NotificationValue n \<Rightarrow> bind_outcome (deref n) (\<lambda>m.
          case n_Delete m of
            [d] \<Rightarrow>
              (let orig = (case n_Prefix m of None \<Rightarrow> [] | Some p \<Rightarrow> p_Origin p);
                   p = pl_ToStrings lib (n_Prefix m) False @ pl_ToStrings lib (Some d) False
               in Done (orig = [] \<and> length p = 1 \<and> p ! 0 = ''*''))
          | _ \<Rightarrow> Done False))"

text \<open>\<open>Update\<close> passes a notification to the clients whose queries match its path.\<close>

definition update_path :: "path_lib \<Rightarrow> notification \<Rightarrow> string list" where
  "update_path lib n =
     pl_ToStrings lib (n_Prefix n) True @
     (case n_Update n of
        u # us \<Rightarrow> pl_ToStrings lib (u_Path u) False
      | [] \<Rightarrow> (case n_Delete n of
            d # ds \<Rightarrow> pl_ToStrings lib (Some d) False
          | [] \<Rightarrow> []))"

definition Update :: "'w rpc_ops \<Rightarrow> path_lib \<Rightarrow> leaf_value \<Rightarrow> 'w \<Rightarrow> 'w outcome" where
  "Update ops lib v w =
     (case v of
        OtherValue s \<Rightarrow> Done w
      | NotificationValue n \<Rightarrow>
          bind_outcome (deref n) (\<lambda>m. Done (w_MatchUpdate ops (update_path lib m) v w)))"

text \<open>
  \<open>matchClient.Update\<close> has a value receiver: the error it stores is stored in a copy of the
  client.
\<close>

record match_client =
  mc_acl :: RPCACL
  mc_err :: "string option"

definition matchClient_Update :: "'w rpc_ops \<Rightarrow> item \<Rightarrow> match_client \<Rightarrow> 'w \<Rightarrow> match_client \<times> 'w" where
  "matchClient_Update ops n c w =
     (if mc_err c \<noteq> None then (c, w)
      else (let (err, w') = w_Insert ops n w; copy = c\<lparr>mc_err := err\<rparr> in (c, w')))"

section \<open>Registering the queries of a stream\<close>

text \<open>
  \<open>append(prefix, p...)\<close> writes into the array behind \<open>prefix\<close> when its capacity is enough, so
  the results of two appends may share it. \<open>buf\<close> is that array beyond the length of \<open>prefix\<close>.
\<close>

datatype query_slice = SharedTail nat | OwnTail "string list"

definition append_prefix :: "nat \<Rightarrow> string list \<Rightarrow> string list \<Rightarrow> query_slice \<times> string list" where
  "append_prefix spare xs buf =
     (if length xs \<le> spare then (SharedTail (length xs), xs @ drop (length xs) buf)
      else (OwnTail xs, buf))"

definition read_slice :: "string list \<Rightarrow> string list \<Rightarrow> query_slice \<Rightarrow> string list" where
  "read_slice pre buf s = pre @ (case s of SharedTail k \<Rightarrow> take k buf | OwnTail xs \<Rightarrow> xs)"

fun add_queries :: "'w rpc_ops \<Rightarrow> path_lib \<Rightarrow> string list \<Rightarrow> nat \<Rightarrow> subscription list \<Rightarrow>
    string list \<Rightarrow> 'w \<Rightarrow> query_slice list \<times> string list \<times> 'w" where
  "add_queries ops lib pre spare [] buf w = ([], buf, w)"
| "add_queries ops lib pre spare (s # ss) buf w =
     (case sub_Path s of
        None \<Rightarrow> add_queries ops lib pre spare ss buf w
      | Some p \<Rightarrow>
          let (sl, buf) = append_prefix spare (pl_ToStrings lib (Some p) False) buf;
              w = w_AddQuery ops (read_slice pre buf sl) w;
              (sls, buf, w) = add_queries ops lib pre spare ss buf w
          in (sl # sls, buf, w))"

text \<open>The paths the returned \<open>remove\<close> removes, and the state with the queries added.\<close>

definition addSubscription :: "'w rpc_ops \<Rightarrow> path_lib \<Rightarrow> subscription_list \<Rightarrow> 'w \<Rightarrow>
    string list list \<times> 'w" where
  "addSubscription ops lib sl w =
     (let pre = pl_ToStrings lib (sl_Prefix sl) True;
          spare = pl_Spare lib (sl_Prefix sl);
          (sls, buf, w) = add_queries ops lib pre spare (sl_Subscription sl) (replicate spare []) w
      in (map (read_slice pre buf) sls, w))"

definition remove_queries :: "'w rpc_ops \<Rightarrow> string list list \<Rightarrow> 'w \<Rightarrow> 'w" where
  "remove_queries ops removes w = fold (w_RemoveQuery ops) removes w"

section \<open>The state of an RPC\<close>

datatype subscribe_metric = SubscribeRequest string | SubscribeError string string

record stream_client =
  sc_acl :: RPCACL
  sc_target :: string
  sc_sl :: subscription_list

record 'w rpc =
  rp_world :: 'w
  rp_sent :: "subscribe_response list"
  rp_errC :: "rpc_error option list"
  rp_timedOut :: bool
  rp_metrics :: "subscribe_metric list"

definition new_rpc :: "'w \<Rightarrow> 'w rpc" where
  "new_rpc w = \<lparr>rp_world = w, rp_sent = [], rp_errC = [], rp_timedOut = False, rp_metrics = []\<rparr>"

definition count_rpc :: "subscribe_metric \<Rightarrow> 'w rpc \<Rightarrow> 'w rpc" where
  "count_rpc m rp = rp\<lparr>rp_metrics := rp_metrics rp @ [m]\<rparr>"

definition put_err :: "rpc_error option \<Rightarrow> 'w rpc \<Rightarrow> 'w rpc" where
  "put_err e rp = rp\<lparr>rp_errC := rp_errC rp @ [e]\<rparr>"

section \<open>Subscribe\<close>

text \<open>The goroutine that fills the queue, by the mode of the subscription.\<close>

datatype producer = ProduceOnce | ProducePolling | ProduceStream | NoProducer

text \<open>
  \<open>Subscribe\<close> returns, or starts the goroutines and then waits on \<open>errC\<close>. In the second case
  \<open>removes\<close> are the query paths the deferred \<open>remove\<close> removes.
\<close>

datatype subscribe_end =
    Returns "rpc_error option"
  | Starts stream_client producer bool "string list list"

definition reject :: "string \<Rightarrow> string \<Rightarrow> rpc_error \<Rightarrow> 'w rpc \<Rightarrow> subscribe_end \<times> 'w rpc" where
  "reject peer desc e rp = (Returns (Some e), count_rpc (SubscribeError peer desc) rp)"

abbreviation close_queue :: "'w rpc_ops \<Rightarrow> 'w rpc \<Rightarrow> 'w rpc" where
  "close_queue ops rp \<equiv> rp\<lparr>rp_world := w_Close ops (rp_world rp)\<rparr>"

definition subscribe_mode :: "'w rpc_ops \<Rightarrow> path_lib \<Rightarrow> string \<Rightarrow> stream_client \<Rightarrow> bool \<Rightarrow> 'w rpc \<Rightarrow>
    subscribe_end \<times> 'w rpc" where
  "subscribe_mode ops lib peer c clusterMember rp =
     (case sl_Mode (sc_sl c) of
        ONCE \<Rightarrow> (Starts c ProduceOnce clusterMember [], rp)
      | POLL \<Rightarrow> (Starts c ProducePolling clusterMember [], rp)
      | STREAM \<Rightarrow>
          (let updatesOnly = sl_UpdatesOnly (sc_sl c);
               (err, w) = (if updatesOnly then w_Insert ops SyncMarker (rp_world rp) else (None, rp_world rp));
               rp = rp\<lparr>rp_world := w\<rparr>
           in case err of
                Some e \<Rightarrow> reject peer ''internal'' (Failure ''unable to insert sync marker'') (close_queue ops rp)
              | None \<Rightarrow>
                  let (removes, w) = addSubscription ops lib (sc_sl c) (rp_world rp) in
                  (Starts c (if updatesOnly then NoProducer else ProduceStream) clusterMember removes,
                   rp\<lparr>rp_world := w\<rparr>))
      | OtherMode i \<Rightarrow>
          reject peer ''bad_request'' (Status InvalidArgument ''Subscription mode not recognized'')
            (close_queue ops rp))"

definition subscribe_target :: "'w server \<Rightarrow> 'w rpc_ops \<Rightarrow> path_lib \<Rightarrow> string \<Rightarrow> RPCACL \<Rightarrow>
    subscription_list \<Rightarrow> 'w rpc \<Rightarrow> subscribe_end \<times> 'w rpc" where
  "subscribe_target s ops lib peer acl sl rp =
     (let c = \<lparr>sc_acl = acl, sc_target = GetTarget (sl_Prefix sl), sc_sl = sl\<rparr> in
      if \<not> w_HasTarget ops (sc_target c) (rp_world rp)
      then reject peer ''target_not_found'' (Status NotFound ''no such target'') rp
      else
        let (memberList, w) = (case sv_cluster s of
              None \<Rightarrow> (Inr [], rp_world rp)
            | Some listMembers \<Rightarrow> listMembers (rp_world rp));
            rp = rp\<lparr>rp_world := w\<rparr>
        in case memberList of
             Inl err \<Rightarrow>
               reject peer ''internal'' (Failure ''unable to retrieve current cluster member list'') rp
           | Inr members \<Rightarrow>
               let clusterMember = memberAddressInMemberList peer members;
                   rp = rp\<lparr>rp_world := w_NewQueue ops (rp_world rp)\<rparr>
               in if sc_target c \<noteq> ''*'' \<and> \<not> acl (sc_target c)
                  then reject peer ''permission_denied'' (Status PermissionDenied ''not authorized for target'')
                         (close_queue ops rp)
                  else subscribe_mode ops lib peer c clusterMember rp)"

definition Subscribe :: "'w server \<Rightarrow> 'w rpc_ops \<Rightarrow> path_lib \<Rightarrow> rpc_context \<Rightarrow> 'w rpc \<Rightarrow>
    (subscribe_end \<times> 'w rpc) outcome" where
  "Subscribe s ops lib ctx rp =
     bind_outcome (deref (cx_Peer ctx)) (\<lambda>peer. Done (
       let rp = count_rpc (SubscribeRequest peer) rp in
       case (case sv_a s of None \<Rightarrow> Inr aclStub_Check | Some a \<Rightarrow> ac_NewRPCACL a ctx) of
         Inl err \<Rightarrow>
           reject peer ''unauthenticated''
             (Status Unauthenticated ''no authentication/authorization for requested operation'') rp
       | Inr acl \<Rightarrow>
           let (received, w) = w_Recv ops (rp_world rp); rp = rp\<lparr>rp_world := w\<rparr> in
           (case received of
              RecvEOF \<Rightarrow> (Returns None, rp)
            | RecvError e \<Rightarrow> (Returns (Some (Failure e)), rp)
            | Received sr \<Rightarrow>
                (case sr_Subscribe sr of
                   None \<Rightarrow> reject peer ''bad_request''
                     (Status InvalidArgument ''request must contain a subscription'') rp
                 | Some sl \<Rightarrow>
                     if sl_Prefix sl = None then reject peer ''bad_request''
                       (Status InvalidArgument ''request subscription must contain a prefix'') rp
                     else if GetTarget (sl_Prefix sl) = [] then reject peer ''bad_request''
                       (Status InvalidArgument ''request subscription prefix must contain a target'') rp
                     else subscribe_target s ops lib peer acl sl rp))))"

section \<open>Filling the queue\<close>

text \<open>
  The visits of one query. \<open>err\<close> is the error of the last insertion, which the callback
  returns at the next visit; \<open>qerr\<close> is what the cache returns when no visit fails.
\<close>

fun visit_all :: "'w rpc_ops \<Rightarrow> string option \<Rightarrow> string option \<Rightarrow> leaf_value option list \<Rightarrow> 'w \<Rightarrow>
    string option \<times> 'w" where
  "visit_all ops err qerr [] w = (qerr, w)"
| "visit_all ops (Some e) qerr (v # vs) w = (Some e, w)"
| "visit_all ops None qerr (None # vs) w = visit_all ops None qerr vs w"
| "visit_all ops None qerr (Some l # vs) w =
     (case w_Insert ops (LeafItem (Some l)) w of (err, w) \<Rightarrow> visit_all ops err qerr vs w)"

fun process_queries :: "'w rpc_ops \<Rightarrow> path_lib \<Rightarrow> stream_client \<Rightarrow> subscription list \<Rightarrow> 'w \<Rightarrow>
    string option \<times> 'w" where
  "process_queries ops lib c [] w = (None, w)"
| "process_queries ops lib c (subscription # subs) w =
     (case pl_CompletePath lib (sl_Prefix (sc_sl c)) (sub_Path subscription) of
        Inl e \<Rightarrow> (Some e, w)
      | Inr fullPath \<Rightarrow>
          (let (visits, qerr) = w_Query ops (sc_target c) fullPath w in
           case visit_all ops None qerr visits w of
             (Some e, w) \<Rightarrow> (Some e, w)
           | (None, w) \<Rightarrow> process_queries ops lib c subs w))"

text \<open>
  \<open>processSubscription\<close> between taking a slot and giving it back; the slots are in
  \<open>slot_step\<close> below.
\<close>

definition processSubscription :: "'w rpc_ops \<Rightarrow> path_lib \<Rightarrow> stream_client \<Rightarrow> 'w rpc \<Rightarrow> 'w rpc" where
  "processSubscription ops lib c rp =
     (let (err, w) =
        (if \<not> sl_UpdatesOnly (sc_sl c)
         then process_queries ops lib c (sl_Subscription (sc_sl c)) (rp_world rp)
         else (None, rp_world rp));
          (err, w) = (case err of Some e \<Rightarrow> (Some e, w) | None \<Rightarrow> w_Insert ops SyncMarker w);
          rp = rp\<lparr>rp_world := w\<rparr>
      in case err of
           None \<Rightarrow> rp
         | Some e \<Rightarrow> put_err (Some (Failure e)) (close_queue ops rp))"

text \<open>
  The loop of \<open>processPollingSubscription\<close> for at most \<open>n\<close> rounds; the result tells whether
  it has returned.
\<close>

fun poll_rounds :: "nat \<Rightarrow> 'w rpc_ops \<Rightarrow> path_lib \<Rightarrow> stream_client \<Rightarrow> 'w rpc \<Rightarrow> bool \<times> 'w rpc" where
  "poll_rounds 0 ops lib c rp = (False, rp)"
| "poll_rounds (Suc n) ops lib c rp =
     (if w_IsClosed ops (rp_world rp) then (True, rp)
      else
        let (received, w) = w_Recv ops (rp_world rp); rp = rp\<lparr>rp_world := w\<rparr> in
        case received of
          RecvEOF \<Rightarrow> (True, rp)
        | RecvError e \<Rightarrow> (True, put_err (Some (Failure e)) rp)
        | Received sr \<Rightarrow> poll_rounds n ops lib c (processSubscription ops lib c rp))"

definition processPollingSubscription :: "nat \<Rightarrow> 'w rpc_ops \<Rightarrow> path_lib \<Rightarrow> stream_client \<Rightarrow> 'w rpc \<Rightarrow>
    bool \<times> 'w rpc" where
  "processPollingSubscription n ops lib c rp = poll_rounds n ops lib c (processSubscription ops lib c rp)"

text \<open>What the goroutine started by \<open>Subscribe\<close> does: \<open>n\<close> bounds the polling rounds.\<close>

definition run_producer :: "nat \<Rightarrow> producer \<Rightarrow> 'w rpc_ops \<Rightarrow> path_lib \<Rightarrow> stream_client \<Rightarrow> 'w rpc \<Rightarrow> 'w rpc" where
  "run_producer n p ops lib c rp =
     (case p of
        ProduceOnce \<Rightarrow> close_queue ops (processSubscription ops lib c rp)
      | ProducePolling \<Rightarrow> snd (processPollingSubscription n ops lib c rp)
      | ProduceStream \<Rightarrow> processSubscription ops lib c rp
      | NoProducer \<Rightarrow> rp)"

section \<open>The subscription slots\<close>

datatype slot_phase = Arriving | Processing | Processed

text \<open>The calls of \<open>processSubscription\<close> by number, and the tokens in \<open>subscribeSlots\<close>.\<close>

type_synonym slot_state = "(nat \<Rightarrow> slot_phase) \<times> nat"

inductive slot_step :: "nat option \<Rightarrow> slot_state \<Rightarrow> slot_state \<Rightarrow> bool" for slots where
  slot_none: "slots = None \<Longrightarrow> ph k = Arriving \<Longrightarrow> slot_step slots (ph, used) (ph(k := Processing), used)"
| slot_take: "slots = Some cap \<Longrightarrow> used < cap \<Longrightarrow> ph k = Arriving \<Longrightarrow>
    slot_step slots (ph, used) (ph(k := Processing), used + 1)"
| slot_give: "slots = Some cap \<Longrightarrow> ph k = Processing \<Longrightarrow>
    slot_step slots (ph, used) (ph(k := Processed), used - 1)"
| slot_leave: "slots = None \<Longrightarrow> ph k = Processing \<Longrightarrow> slot_step slots (ph, used) (ph(k := Processed), used)"
| slot_again: "ph k = Processed \<Longrightarrow> slot_step slots (ph, used) (ph(k := Arriving), used)"

section \<open>Sending the results\<close>

text \<open>
  The goroutine of the timer writes its error once, when a send takes longer than the timeout.
\<close>

definition send_update :: "'w rpc_ops \<Rightarrow> notification option \<Rightarrow> 'w rpc \<Rightarrow> string option \<times> 'w rpc" where
  "send_update ops n rp =
     (let r = ResponseUpdate n;
          ((late, err), w) = w_Send ops r (rp_world rp);
          rp = rp\<lparr>rp_world := w, rp_sent := rp_sent rp @ [r]\<rparr>;
          rp = (if late \<and> \<not> rp_timedOut rp
                then put_err (Some (Failure ''subscription timed out while sending'')) (rp\<lparr>rp_timedOut := True\<rparr>)
                else rp)
      in (err, rp))"

definition sendSubscribeResponse :: "'w rpc_ops \<Rightarrow> stream_client \<Rightarrow> leaf_value \<Rightarrow> uint32 \<Rightarrow> 'w rpc \<Rightarrow>
    (rpc_error option \<times> 'w rpc) outcome" where
  "sendSubscribeResponse ops c v dup rp =
     bind_outcome (MakeSubscribeResponse v dup) (\<lambda>made.
       case made of
         Inl e \<Rightarrow> Done (Some (Status Unknown ''invalid notification type''), rp)
       | Inr n \<Rightarrow>
           (let pre = (case n of None \<Rightarrow> None | Some m \<Rightarrow> n_Prefix m) in
            if pre \<noteq> None \<and> \<not> sc_acl c (GetTarget pre) then Done (None, rp)
            else (case send_update ops n rp of
                    (err, rp) \<Rightarrow> Done (map_option Failure err, rp))))"

text \<open>One round of the loop of \<open>sendStreamingResults\<close>; the result tells whether it goes on.\<close>

definition sender_ends :: "rpc_error option \<Rightarrow> 'w rpc \<Rightarrow> (bool \<times> 'w rpc) outcome" where
  "sender_ends e rp = Done (False, put_err e rp)"

definition send_leaf :: "'w server \<Rightarrow> 'w rpc_ops \<Rightarrow> path_lib \<Rightarrow> bool \<Rightarrow> stream_client \<Rightarrow>
    leaf_value \<Rightarrow> uint32 \<Rightarrow> 'w rpc \<Rightarrow> (bool \<times> 'w rpc) outcome" where
  "send_leaf s ops lib clusterMember c v dup rp =
     bind_outcome (sendSubscribeResponse ops c v dup rp) (\<lambda>(err, rp).
       if err \<noteq> None then sender_ends err rp
       else bind_outcome (isTargetDelete lib v) (\<lambda>deleted.
         if deleted \<and> sc_target c \<noteq> ''*'' then sender_ends None rp else Done (True, rp)))"

definition send_item :: "'w server \<Rightarrow> 'w rpc_ops \<Rightarrow> path_lib \<Rightarrow> bool \<Rightarrow> stream_client \<Rightarrow>
    item \<Rightarrow> uint32 \<Rightarrow> 'w rpc \<Rightarrow> (bool \<times> 'w rpc) outcome" where
  "send_item s ops lib clusterMember c itm dup rp =
     (case itm of
        SyncMarker \<Rightarrow>
          (let r = ResponseSync True;
               ((late, err), w) = w_Send ops r (rp_world rp);
               rp = rp\<lparr>rp_world := w, rp_sent := rp_sent rp @ [r]\<rparr>
           in case err of Some e \<Rightarrow> sender_ends (Some (Failure e)) rp | None \<Rightarrow> Done (True, rp))
      | OtherItem i \<Rightarrow> sender_ends (Some (Status Internal ''invalid cache node'')) rp
      | LeafItem None \<Rightarrow> sender_ends (Some (Status Internal ''invalid cache node'')) rp
      | LeafItem (Some v) \<Rightarrow>
          if clusterMember
          then (case v of
              NotificationValue (Some n) \<Rightarrow>
                if \<not> sv_Forwardable s (GetTarget (n_Prefix n)) then Done (False, rp)
                else send_leaf s ops lib clusterMember c v dup rp
            | _ \<Rightarrow> sender_ends (Some (Status Internal ''invalid notification type'')) rp)
          else send_leaf s ops lib clusterMember c v dup rp)"

definition send_round :: "'w server \<Rightarrow> 'w rpc_ops \<Rightarrow> path_lib \<Rightarrow> bool \<Rightarrow> stream_client \<Rightarrow> 'w rpc \<Rightarrow>
    (bool \<times> 'w rpc) outcome" where
  "send_round s ops lib clusterMember c rp =
     (let (nxt, w) = w_Next ops (rp_world rp); rp = rp\<lparr>rp_world := w\<rparr> in
      case nxt of
        NextClosed \<Rightarrow> sender_ends None rp
      | NextError e \<Rightarrow> sender_ends (Some (Failure e)) rp
      | NextItem itm dup \<Rightarrow> send_item s ops lib clusterMember c itm dup rp)"

text \<open>At most \<open>k\<close> rounds of the loop; the result tells whether it still runs.\<close>

fun sendStreamingResults :: "nat \<Rightarrow> 'w server \<Rightarrow> 'w rpc_ops \<Rightarrow> path_lib \<Rightarrow> bool \<Rightarrow> stream_client \<Rightarrow>
    'w rpc \<Rightarrow> (bool \<times> 'w rpc) outcome" where
  "sendStreamingResults 0 s ops lib clusterMember c rp = Done (True, rp)"
| "sendStreamingResults (Suc k) s ops lib clusterMember c rp =
     bind_outcome (send_round s ops lib clusterMember c rp) (\<lambda>(go_on, rp).
       if go_on then sendStreamingResults k s ops lib clusterMember c rp else Done (False, rp))"

section \<open>What the sender may send\<close>

definition notification_prefix :: "notification option \<Rightarrow> path option" where
  "notification_prefix n = (case n of None \<Rightarrow> None | Some m \<Rightarrow> n_Prefix m)"

fun may_send :: "'w server \<Rightarrow> bool \<Rightarrow> RPCACL \<Rightarrow> subscribe_response \<Rightarrow> bool" where
  "may_send s clusterMember acl (ResponseUpdate n) \<longleftrightarrow>
     (notification_prefix n \<noteq> None \<longrightarrow> acl (GetTarget (notification_prefix n))) \<and>
     (clusterMember \<longrightarrow> sv_Forwardable s (GetTarget (notification_prefix n)))"
| "may_send s clusterMember acl r \<longleftrightarrow> True"

text \<open>
  The effect of a part of the sender: what it sends, and how many values it and the timer
  write to \<open>errC\<close> (\<open>k\<close> is the number of its own).
\<close>

definition timer_writes :: "'w rpc \<Rightarrow> nat" where
  "timer_writes rp = (if rp_timedOut rp then 1 else 0)"

definition sends_ok :: "'w server \<Rightarrow> bool \<Rightarrow> RPCACL \<Rightarrow> 'w rpc \<Rightarrow> 'w rpc \<Rightarrow> bool" where
  "sends_ok s cm acl rp rp' \<longleftrightarrow>
     (\<exists>new. rp_sent rp' = rp_sent rp @ new \<and> list_all (may_send s cm acl) new)"

definition writes :: "nat \<Rightarrow> 'w rpc \<Rightarrow> 'w rpc \<Rightarrow> bool" where
  "writes k rp rp' \<longleftrightarrow>
     length (rp_errC rp') + timer_writes rp = length (rp_errC rp) + timer_writes rp' + k"

lemma writes_refl [simp]: "writes 0 rp rp"
  by (simp add: writes_def)

lemma sends_ok_refl [simp]: "sends_ok s cm acl rp rp"
  by (simp add: sends_ok_def)

lemma writes_trans: "writes j a b \<Longrightarrow> writes k b c \<Longrightarrow> writes (j + k) a c"
  by (simp add: writes_def)

lemma sends_ok_trans: "sends_ok s cm acl a b \<Longrightarrow> sends_ok s cm acl b c \<Longrightarrow> sends_ok s cm acl a c"
  unfolding sends_ok_def by (metis append_assoc list_all_append)

lemma put_err_effect [simp]: "writes (Suc 0) rp (put_err e rp)" "sends_ok s cm acl rp (put_err e rp)"
  by (simp_all add: writes_def sends_ok_def put_err_def timer_writes_def)

lemma put_err_fields [simp]:
  "rp_sent (put_err e rp) = rp_sent rp" "rp_errC (put_err e rp) = rp_errC rp @ [e]"
  "rp_timedOut (put_err e rp) = rp_timedOut rp" "rp_world (put_err e rp) = rp_world rp"
  by (simp_all add: put_err_def)

lemma world_effect [simp]:
  "writes k rp (rp'\<lparr>rp_world := w\<rparr>) \<longleftrightarrow> writes k rp rp'"
  "sends_ok s cm acl rp (rp'\<lparr>rp_world := w\<rparr>) \<longleftrightarrow> sends_ok s cm acl rp rp'"
  "writes k (rp\<lparr>rp_world := w\<rparr>) rp' \<longleftrightarrow> writes k rp rp'"
  "sends_ok s cm acl (rp\<lparr>rp_world := w\<rparr>) rp' \<longleftrightarrow> sends_ok s cm acl rp rp'"
  by (simp_all add: writes_def sends_ok_def timer_writes_def)

lemma send_update_effect:
  assumes "send_update ops n rp = (err, rp')" and "may_send s cm acl (ResponseUpdate n)"
  shows "writes 0 rp rp'" "sends_ok s cm acl rp rp'"
  using assms
  by (auto simp: send_update_def writes_def sends_ok_def timer_writes_def Let_def
      split: prod.splits if_splits)

lemma set_duplicates_prefix [simp]: "n_Prefix (set_duplicates d n) = n_Prefix n"
  by (simp add: set_duplicates_def split: list.splits)

lemma MakeSubscribeResponse_prefix:
  "MakeSubscribeResponse v dup = Done (Inr n) \<Longrightarrow>
   \<exists>m. v = NotificationValue m \<and> notification_prefix n = notification_prefix m"
  by (auto simp: MakeSubscribeResponse_def notification_prefix_def go_simps
      split: leaf_value.splits if_splits option.splits)

lemma sendSubscribeResponse_effect:
  assumes "sendSubscribeResponse ops c v dup rp = Done (err, rp')"
    and "\<And>m. cm \<Longrightarrow> v = NotificationValue m \<Longrightarrow> sv_Forwardable s (GetTarget (notification_prefix m))"
  shows "writes 0 rp rp' \<and> sends_ok s cm (sc_acl c) rp rp'"
proof -
  from assms(1) obtain made where made: "MakeSubscribeResponse v dup = Done made"
    by (auto simp: sendSubscribeResponse_def go_simps)
  show ?thesis
  proof (cases made)
    case (Inl e)
    with assms(1) made show ?thesis by (simp add: sendSubscribeResponse_def)
  next
    case (Inr n)
    from MakeSubscribeResponse_prefix [OF made [unfolded Inr]]
    obtain m where m: "v = NotificationValue m" "notification_prefix n = notification_prefix m" by blast
    show ?thesis
    proof (cases "notification_prefix n \<noteq> None \<and> \<not> sc_acl c (GetTarget (notification_prefix n))")
      case True
      with assms(1) made Inr show ?thesis
        by (simp add: sendSubscribeResponse_def Let_def flip: notification_prefix_def)
    next
      case False
      with assms(2) m have may: "may_send s cm (sc_acl c) (ResponseUpdate n)" by auto
      obtain e' r where sent: "send_update ops n rp = (e', r)" by (cases "send_update ops n rp")
      from False assms(1) made Inr sent have "rp' = r"
        by (auto simp: sendSubscribeResponse_def Let_def simp flip: notification_prefix_def)
      with send_update_effect [OF sent may] show ?thesis by simp
    qed
  qed
qed

text \<open>How a part of the sender that may end the loop behaves.\<close>

definition sender_part :: "'w server \<Rightarrow> bool \<Rightarrow> RPCACL \<Rightarrow> bool \<Rightarrow> 'w rpc \<Rightarrow> 'w rpc \<Rightarrow> bool" where
  "sender_part s cm acl go_on rp rp' \<longleftrightarrow> sends_ok s cm acl rp rp' \<and>
     (if go_on then writes 0 rp rp'
      else writes 1 rp rp' \<or> cm \<and> writes 0 rp rp')"

lemma sender_ends_part: "sender_ends e rp = Done (go_on, rp') \<Longrightarrow> sender_part s cm acl go_on rp rp'"
  by (auto simp: sender_ends_def sender_part_def)

lemma sender_part_trans:
  "sender_part s cm acl True a b \<Longrightarrow> sender_part s cm acl go_on b c \<Longrightarrow> sender_part s cm acl go_on a c"
  unfolding sender_part_def using sends_ok_trans writes_trans
  by (metis add_0)

lemma send_leaf_part:
  assumes "send_leaf s ops lib b c v dup rp = Done (go_on, rp')"
    and "\<And>m. cm \<Longrightarrow> v = NotificationValue m \<Longrightarrow> sv_Forwardable s (GetTarget (notification_prefix m))"
  shows "sender_part s cm (sc_acl c) go_on rp rp'"
proof -
  from assms(1) obtain err r where r: "sendSubscribeResponse ops c v dup rp = Done (err, r)"
    by (auto simp: send_leaf_def go_simps)
  have first: "sender_part s cm (sc_acl c) True rp r"
    using sendSubscribeResponse_effect [of ops c v dup rp err r cm s, OF r assms(2)]
    by (simp add: sender_part_def)
  have "sender_part s cm (sc_acl c) go_on r rp'"
  proof (cases "err \<noteq> None")
    case True
    with assms(1) r have "sender_ends err r = Done (go_on, rp')" by (auto simp: send_leaf_def)
    then show ?thesis by (rule sender_ends_part)
  next
    case False
    with assms(1) r obtain d where d: "isTargetDelete lib v = Done d"
      "(if d \<and> sc_target c \<noteq> ''*'' then sender_ends None r else Done (True, r)) = Done (go_on, rp')"
      by (auto simp: send_leaf_def go_simps)
    from d(2) show ?thesis
      by (auto simp: sender_part_def sender_ends_def split: if_splits)
  qed
  with first show ?thesis by (rule sender_part_trans)
qed

lemma send_item_part:
  assumes "send_item s ops lib cm c itm dup rp = Done (go_on, rp')"
  shows "sender_part s cm (sc_acl c) go_on rp rp'"
proof (cases "\<exists>v. itm = LeafItem (Some v)")
  case True
  then obtain v where v: "itm = LeafItem (Some v)" by blast
  show ?thesis
  proof (cases cm)
    case False
    with assms v show ?thesis by (intro send_leaf_part) (auto simp: send_item_def)
  next
    case True
    show ?thesis
    proof (cases "\<exists>n. v = NotificationValue (Some n)")
      case True
      then obtain n where n: "v = NotificationValue (Some n)" by blast
      show ?thesis
      proof (cases "sv_Forwardable s (GetTarget (n_Prefix n))")
        case True
        with assms v n \<open>cm\<close> show ?thesis
          by (intro send_leaf_part) (auto simp: send_item_def notification_prefix_def)
      qed (use assms v n \<open>cm\<close> in \<open>auto simp: send_item_def sender_part_def\<close>)
    qed (use assms v \<open>cm\<close> in \<open>auto simp: send_item_def intro: sender_ends_part
          split: leaf_value.splits option.splits\<close>)
  qed
next
  case False
  have sync: "sender_part s cm (sc_acl c) True rp (rp\<lparr>rp_world := w, rp_sent := rp_sent rp @ [ResponseSync True]\<rparr>)" for w
    by (auto simp: sender_part_def sends_ok_def writes_def timer_writes_def)
  from assms False show ?thesis
    by (auto simp: send_item_def Let_def sync
        split: item.splits prod.splits option.splits
        intro: sender_ends_part sender_part_trans [OF sync])
qed

lemma send_round_part:
  assumes "send_round s ops lib cm c rp = Done (go_on, rp')"
  shows "sender_part s cm (sc_acl c) go_on rp rp'"
proof -
  obtain nxt w where n: "w_Next ops (rp_world rp) = (nxt, w)" by (cases "w_Next ops (rp_world rp)")
  have "sender_part s cm (sc_acl c) go_on (rp\<lparr>rp_world := w\<rparr>) rp'"
  proof (cases nxt)
    case (NextItem itm dup)
    with assms n show ?thesis by (intro send_item_part) (simp add: send_round_def)
  qed (use assms n in \<open>auto simp: send_round_def intro: sender_ends_part\<close>)
  then show ?thesis by (cases go_on) (simp_all add: sender_part_def)
qed

lemma sendStreamingResults_part:
  assumes "sendStreamingResults k s ops lib cm c rp = Done (go_on, rp')"
  shows "sender_part s cm (sc_acl c) go_on rp rp'"
  using assms
proof (induction k arbitrary: rp)
  case 0
  then show ?case by (simp add: sender_part_def)
next
  case (Suc k)
  then obtain b r where r: "send_round s ops lib cm c rp = Done (b, r)"
    "(if b then sendStreamingResults k s ops lib cm c r else Done (False, r)) = Done (go_on, rp')"
    by (auto simp: go_simps)
  show ?case
  proof (cases b)
    case True
    with r Suc.IH show ?thesis by (auto intro: sender_part_trans dest: send_round_part)
  next
    case False
    with r show ?thesis by (auto dest: send_round_part)
  qed
qed

section \<open>What a subscriber receives\<close>


text \<open>
  A world for examples: the queue with its counters, whether it is closed, and the values the
  cache holds for every query.
\<close>

fun enqueue :: "item \<Rightarrow> (item \<times> uint32) list \<Rightarrow> (item \<times> uint32) list" where
  "enqueue i [] = [(i, 0)]"
| "enqueue i ((j, d) # xs) = (if i = j then (j, d + 1) # xs else (j, d) # enqueue i xs)"

record list_world =
  lw_queue :: "(item \<times> uint32) list"
  lw_closed :: bool
  lw_cache :: "leaf_value list"
  lw_requests :: "recv_result list"
  lw_queries :: "string list list"

fun list_next :: "list_world \<Rightarrow> next_result \<times> list_world" where
  "list_next w = (case lw_queue w of
      (i, d) # xs \<Rightarrow> (NextItem i d, w\<lparr>lw_queue := xs\<rparr>)
    | [] \<Rightarrow> (if lw_closed w then NextClosed else NextError ''context canceled'', w))"

definition list_ops :: "list_world rpc_ops" where
  "list_ops =
     \<lparr>w_Recv = (\<lambda>w. case lw_requests w of
          r # rs \<Rightarrow> (r, w\<lparr>lw_requests := rs\<rparr>) | [] \<Rightarrow> (RecvEOF, w)),
      w_Send = (\<lambda>r w. ((False, None), w)),
      w_HasTarget = (\<lambda>t w. True),
      w_Query = (\<lambda>t p w. (map Some (lw_cache w), None)),
      w_AddQuery = (\<lambda>q w. w\<lparr>lw_queries := lw_queries w @ [q]\<rparr>),
      w_RemoveQuery = (\<lambda>q w. w\<lparr>lw_queries := remove1 q (lw_queries w)\<rparr>),
      w_MatchUpdate = (\<lambda>q v w. w),
      w_NewQueue = (\<lambda>w. w\<lparr>lw_queue := [], lw_closed := False\<rparr>),
      w_Insert = (\<lambda>i w. if lw_closed w then (Some ''closed queue'', w)
         else (None, w\<lparr>lw_queue := enqueue i (lw_queue w)\<rparr>)),
      w_Next = list_next,
      w_Close = (\<lambda>w. w\<lparr>lw_closed := True\<rparr>),
      w_IsClosed = lw_closed\<rparr>"

definition simple_paths :: path_lib where
  "simple_paths =
     \<lparr>pl_ToStrings = (\<lambda>p pre. (if pre \<and> GetTarget p \<noteq> [] then [GetTarget p] else []) @ map pe_Name (GetElem p)),
      pl_Spare = (\<lambda>p. if length (GetElem p) = 2 then 1 else 0),
      pl_CompletePath = (\<lambda>p q. Inr (map pe_Name (GetElem p @ GetElem q)))\<rparr>"

definition example_sl :: subscription_list where
  "example_sl = \<lparr>sl_Prefix = Some (empty_path\<lparr>p_Target := ''dev''\<rparr>),
     sl_Subscription = [\<lparr>sub_Path = Some empty_path\<rparr>], sl_Mode = ONCE, sl_UpdatesOnly = False\<rparr>"

definition example_server :: "list_world server" where
  "example_server = NewServer 0 (\<lambda>t. t = ''dev'') None"

definition example_client :: stream_client where
  "example_client = \<lparr>sc_acl = (\<lambda>t. t = ''dev''), sc_target = ''dev'', sc_sl = example_sl\<rparr>"

definition note_for :: "string \<Rightarrow> notification" where
  "note_for tgt = \<lparr>n_Timestamp = 0, n_Prefix = Some (empty_path\<lparr>p_Target := tgt\<rparr>), n_Alias = [],
     n_Update = [], n_Delete = [], n_Atomic = False\<rparr>"

definition example_world :: list_world where
  "example_world = \<lparr>lw_queue = [], lw_closed = False,
     lw_cache = [NotificationValue (Some (note_for ''dev'')), NotificationValue (Some (note_for ''other''))],
     lw_requests = [Received \<lparr>sr_Subscribe = Some example_sl\<rparr>], lw_queries = []\<rparr>"

lemmas example_defs = list_ops_def simple_paths_def example_sl_def example_server_def NewServer_def
  example_client_def note_for_def example_world_def empty_path_def new_rpc_def

lemmas sender_defs = send_round_def send_item_def send_leaf_def sender_ends_def
  sendSubscribeResponse_def MakeSubscribeResponse_def send_update_def isTargetDelete_def put_err_def

definition example_queue :: list_world where
  "example_queue = example_world\<lparr>lw_queue :=
     [(LeafItem (Some (NotificationValue (Some (note_for ''dev'')))), 0),
      (LeafItem (Some (NotificationValue (Some (note_for ''other'')))), 0), (SyncMarker, 0)]\<rparr>"

lemma example_run:
  "sendStreamingResults 3 example_server list_ops simple_paths False example_client (new_rpc example_queue) =
   Done (True, (new_rpc (example_world\<lparr>lw_queue := []\<rparr>))
     \<lparr>rp_sent := [ResponseUpdate (Some (note_for ''dev'')), ResponseSync True]\<rparr>)"
  by (simp add: example_defs example_queue_def sender_defs eval_nat_numeral)


definition closing :: "'w rpc_ops \<Rightarrow> bool" where
  "closing ops \<longleftrightarrow> (\<forall>w. w_IsClosed ops (w_Close ops w))"

lemma processSubscription_writes:
  assumes "closing ops"
  shows "rp_errC (processSubscription ops lib c rp) = rp_errC rp \<or>
    length (rp_errC (processSubscription ops lib c rp)) = Suc (length (rp_errC rp)) \<and>
    w_IsClosed ops (rp_world (processSubscription ops lib c rp))"
  using assms by (auto simp: processSubscription_def closing_def Let_def split: prod.splits option.splits)

lemma poll_rounds_closed:
  "w_IsClosed ops (rp_world rp) \<Longrightarrow> snd (poll_rounds n ops lib c rp) = rp"
  by (cases n) auto

lemma poll_rounds_writes:
  "closing ops \<Longrightarrow> length (rp_errC (snd (poll_rounds n ops lib c rp))) \<le> Suc (length (rp_errC rp))"
proof (induction n arbitrary: rp)
  case (Suc n)
  obtain r w where r: "w_Recv ops (rp_world rp) = (r, w)" by (cases "w_Recv ops (rp_world rp)")
  let ?p = "processSubscription ops lib c (rp\<lparr>rp_world := w\<rparr>)"
  have "length (rp_errC (snd (poll_rounds n ops lib c ?p))) \<le> Suc (length (rp_errC rp))"
    using processSubscription_writes [OF Suc.prems, of lib c "rp\<lparr>rp_world := w\<rparr>"]
      Suc.IH [OF Suc.prems, of ?p] poll_rounds_closed [of ops ?p n lib c]
    by auto
  with r show ?case by (cases r) auto
qed simp

lemma run_producer_writes:
  assumes "closing ops"
  shows "length (rp_errC (run_producer n p ops lib c rp)) \<le> Suc (length (rp_errC rp))"
proof (cases p)
  case ProducePolling
  let ?p = "processSubscription ops lib c rp"
  show ?thesis
    using processSubscription_writes [OF assms, of lib c rp] poll_rounds_writes [OF assms, of n lib c ?p]
      poll_rounds_closed [of ops ?p n lib c]
    by (auto simp: run_producer_def ProducePolling processPollingSubscription_def)
qed (use processSubscription_writes [OF assms, of lib c rp] in \<open>auto simp: run_producer_def\<close>)

lemma sendStreamingResults_writes:
  assumes "sendStreamingResults k s ops lib cm c rp = Done (go_on, rp')"
  shows "length (rp_errC rp') \<le> length (rp_errC rp) + 2"
  using sendStreamingResults_part [OF assms]
  by (auto simp: sender_part_def writes_def timer_writes_def split: if_splits)

text \<open>
  C25: the buffer of three errors of an RPC never overflows: the producer writes at most one
  value, and the sender with its timer at most two, so no goroutine of the RPC blocks on it.
  The queue stays closed once it is closed.
\<close>

theorem errC_never_full:
  assumes "closing ops"
    and "sendStreamingResults k s ops lib cm c (new_rpc w) = Done (go_on, rp')"
  shows "length (rp_errC (run_producer n p ops lib c rp')) \<le> 3"
proof -
  have "length (rp_errC rp') \<le> 2"
    using sendStreamingResults_writes [OF assms(2)] by (simp add: new_rpc_def)
  with run_producer_writes [OF assms(1), of n p lib c rp'] show ?thesis by simp
qed

theorem errC_never_full_witness:
  "\<exists>rp'. length (rp_errC (run_producer 4 ProducePolling list_ops simple_paths example_client rp')) \<le> 3 \<and>
     rp_sent rp' = [ResponseUpdate (Some (note_for ''dev'')), ResponseSync True]"
proof -
  have "closing list_ops" by (simp add: closing_def list_ops_def)
  from errC_never_full [OF this example_run, of 4 ProducePolling] show ?thesis
    by (intro exI conjI, assumption) (simp add: new_rpc_def)
qed

definition granted_acl :: "'w server \<Rightarrow> rpc_context \<Rightarrow> RPCACL \<Rightarrow> bool" where
  "granted_acl s ctx acl \<longleftrightarrow>
     (case sv_a s of None \<Rightarrow> acl = aclStub_Check | Some a \<Rightarrow> ac_NewRPCACL a ctx = Inr acl)"

lemmas subscribe_defs = Subscribe_def subscribe_target_def subscribe_mode_def reject_def count_rpc_def

lemma subscribe_mode_starts:
  "subscribe_mode ops lib peer c cm rp = (Starts c' p cm' removes, rp') \<Longrightarrow>
   c' = c \<and> cm' = cm \<and> sl_Mode (sc_sl c) \<in> {STREAM, ONCE, POLL}"
  by (auto simp: subscribe_mode_def reject_def Let_def
      split: subscription_mode.splits prod.splits option.splits)

lemma subscribe_target_starts:
  "subscribe_target s ops lib peer acl sl rp = (Starts c p cm removes, rp') \<Longrightarrow>
   sc_acl c = acl \<and> sc_sl c = sl \<and> sc_target c = GetTarget (sl_Prefix sl) \<and>
   w_HasTarget ops (sc_target c) (rp_world rp) \<and> (sc_target c = ''*'' \<or> acl (sc_target c)) \<and>
   sl_Mode sl \<in> {STREAM, ONCE, POLL}"
  by (auto simp: subscribe_target_def reject_def Let_def dest!: subscribe_mode_starts
      split: if_splits prod.splits sum.splits option.splits)

text \<open>The cases of \<open>Subscribe\<close> once the peer is known.\<close>

lemma Subscribe_cases:
  assumes "Subscribe s ops lib ctx rp = Done (e, rp')"
  obtains (unauthenticated) peer a err where "cx_Peer ctx = Some peer" "sv_a s = Some a"
      "ac_NewRPCACL a ctx = Inl err"
      "(e, rp') = reject peer ''unauthenticated'' (Status Unauthenticated
         ''no authentication/authorization for requested operation'') (count_rpc (SubscribeRequest peer) rp)"
    | (eof) peer where "cx_Peer ctx = Some peer" "fst (w_Recv ops (rp_world rp)) = RecvEOF" "e = Returns None"
    | (failed) peer err where "cx_Peer ctx = Some peer"
      "fst (w_Recv ops (rp_world rp)) = RecvError err" "e = Returns (Some (Failure err))"
    | (bad) peer sr why rp1 where "cx_Peer ctx = Some peer" "fst (w_Recv ops (rp_world rp)) = Received sr"
      "rp_metrics rp1 = rp_metrics rp @ [SubscribeRequest peer]"
      "(e, rp') = reject peer ''bad_request'' (Status InvalidArgument why) rp1"
    | (request) peer acl sl rp1 where "cx_Peer ctx = Some peer" "granted_acl s ctx acl"
      "fst (w_Recv ops (rp_world rp)) = Received \<lparr>sr_Subscribe = Some sl\<rparr>"
      "GetTarget (sl_Prefix sl) \<noteq> []" "rp_world rp1 = snd (w_Recv ops (rp_world rp))"
      "rp_metrics rp1 = rp_metrics rp @ [SubscribeRequest peer]"
      "(e, rp') = subscribe_target s ops lib peer acl sl rp1"
proof -
  from assms obtain peer where peer: "cx_Peer ctx = Some peer"
    by (auto simp: Subscribe_def go_simps)
  let ?rp = "count_rpc (SubscribeRequest peer) rp"
  obtain r w where r: "w_Recv ops (rp_world rp) = (r, w)" by (cases "w_Recv ops (rp_world rp)")
  let ?acl = "case sv_a s of None \<Rightarrow> Inr aclStub_Check | Some a \<Rightarrow> ac_NewRPCACL a ctx"
  show thesis
  proof (cases ?acl)
    case (Inl err)
    then obtain a where a: "sv_a s = Some a" "ac_NewRPCACL a ctx = Inl err"
      by (auto split: option.splits)
    with assms peer show thesis by (intro unauthenticated [OF peer a]) (simp add: Subscribe_def)
  next
    case (Inr acl)
    then have acl: "granted_acl s ctx acl" by (auto simp: granted_acl_def split: option.splits)
    have e: "Done (e, rp') = Subscribe s ops lib ctx rp" using assms by simp
    note e = e [unfolded Subscribe_def peer deref.simps bind_outcome.simps Let_def Inr sum.case]
    show thesis
    proof (cases r)
      case RecvEOF
      with e r show thesis by (intro eof [OF peer]) (simp_all add: count_rpc_def)
    next
      case (RecvError err)
      with e r show thesis by (intro failed [OF peer]) (simp_all add: count_rpc_def)
    next
      case (Received sr)
      show thesis
      proof (cases "sr_Subscribe sr")
        case None
        with e r Received show thesis by (intro bad [OF peer]) (auto simp: count_rpc_def)
      next
        case (Some sl)
        then have sr: "sr = \<lparr>sr_Subscribe = Some sl\<rparr>" by simp
        show thesis
        proof (cases "GetTarget (sl_Prefix sl) = []")
          case True
          with e r Received Some show thesis
            by (cases "sl_Prefix sl = None")
               (auto intro!: bad [OF peer, of sr "?rp\<lparr>rp_world := w\<rparr>"] simp: count_rpc_def)
        next
          case False
          with e r Received Some sr show thesis
            by (intro request [OF peer acl, of sl "?rp\<lparr>rp_world := w\<rparr>"])
               (auto simp: count_rpc_def split: if_splits)
        qed
      qed
    qed
  qed
qed



fun error_desc :: "rpc_error \<Rightarrow> string" where
  "error_desc (Status Unauthenticated m) = ''unauthenticated''"
| "error_desc (Status InvalidArgument m) = ''bad_request''"
| "error_desc (Status NotFound m) = ''target_not_found''"
| "error_desc (Status PermissionDenied m) = ''permission_denied''"
| "error_desc e = ''internal''"

definition rejected_with :: "string \<Rightarrow> subscribe_metric list \<Rightarrow> subscribe_end \<times> 'w rpc \<Rightarrow> bool" where
  "rejected_with peer ms r \<longleftrightarrow>
     (case fst r of
        Returns (Some e) \<Rightarrow> rp_metrics (snd r) = ms @ [SubscribeError peer (error_desc e)]
      | Returns None \<Rightarrow> False
      | _ \<Rightarrow> True)"

lemma rejected_with_reject [simp]:
  "rejected_with peer ms (reject peer desc e rp) \<longleftrightarrow> rp_metrics rp = ms \<and> desc = error_desc e"
  by (auto simp: rejected_with_def reject_def count_rpc_def)

lemma subscribe_mode_rejected: "rejected_with peer (rp_metrics rp) (subscribe_mode ops lib peer c cm rp)"
proof (cases "sl_Mode (sc_sl c)")
  case STREAM
  obtain err w where i: "(if sl_UpdatesOnly (sc_sl c) then w_Insert ops SyncMarker (rp_world rp)
      else (None, rp_world rp)) = (err, w)"
    by (cases "if sl_UpdatesOnly (sc_sl c) then w_Insert ops SyncMarker (rp_world rp) else (None, rp_world rp)")
  show ?thesis
  proof (cases err)
    case None
    with STREAM i show ?thesis
      by (simp add: subscribe_mode_def Let_def rejected_with_def split_beta)
  next
    case (Some e)
    with STREAM i show ?thesis by (simp add: subscribe_mode_def)
  qed
qed (simp_all add: subscribe_mode_def, simp_all add: rejected_with_def)

lemma subscribe_target_rejected:
  "rejected_with peer (rp_metrics rp) (subscribe_target s ops lib peer acl sl rp)"
proof -
  have mode: "rejected_with peer (rp_metrics rp) (subscribe_mode ops lib peer c cm (rp\<lparr>rp_world := w\<rparr>))"
    for c cm w
    using subscribe_mode_rejected [of peer "rp\<lparr>rp_world := w\<rparr>"] by simp
  show ?thesis
    by (auto simp: subscribe_target_def Let_def mode split: prod.splits sum.splits)
qed

text \<open>
  C26: a Subscribe RPC that is rejected with an error of the gateway ends with exactly one error
  event for the peer, whose description is the one that belongs to the status code; only errors
  of the stream itself are returned without an event.
\<close>

theorem Subscribe_counts_rejections:
  assumes "Subscribe s ops lib ctx rp = Done (Returns (Some e), rp')"
    and "\<And>m. fst (w_Recv ops (rp_world rp)) \<noteq> RecvError m"
  shows "\<exists>peer. cx_Peer ctx = Some peer \<and>
    rp_metrics rp' = rp_metrics rp @ [SubscribeRequest peer, SubscribeError peer (error_desc e)]"
  using assms(1)
proof (cases rule: Subscribe_cases)
  case (unauthenticated peer a err)
  then show ?thesis by (simp add: reject_def count_rpc_def)
next
  case eof
  then show ?thesis by simp
next
  case (failed peer err)
  with assms(2) [of err] show ?thesis by blast
next
  case (bad peer sr why rp1)
  then show ?thesis by (simp add: reject_def count_rpc_def)
next
  case (request peer acl sl rp1)
  from subscribe_target_rejected [of peer rp1 s ops lib acl sl] request(1,6) show ?thesis
    unfolding request(7) [symmetric] by (simp add: rejected_with_def)
qed

theorem Subscribe_counts_rejections_witness:
  "\<exists>rp' peer. Subscribe (SetACL (Some \<lparr>ac_NewRPCACL = (\<lambda>ctx. Inr (\<lambda>t. False)), ac_Check = (\<lambda>u t. False)\<rparr>) example_server)
       list_ops simple_paths \<lparr>cx_Peer = Some ''10.0.0.7:41000'', cx_Values = []\<rparr> (new_rpc example_world) =
     Done (Returns (Some (Status PermissionDenied ''not authorized for target'')), rp') \<and>
     rp_metrics rp' = [SubscribeRequest peer, SubscribeError peer ''permission_denied'']"
proof -
  let ?ctx = "\<lparr>cx_Peer = Some ''10.0.0.7:41000'', cx_Values = []\<rparr>"
  let ?s = "SetACL (Some \<lparr>ac_NewRPCACL = (\<lambda>ctx. Inr (\<lambda>t. False)), ac_Check = (\<lambda>u t. False)\<rparr>) example_server"
  obtain rp' where run: "Subscribe ?s list_ops simple_paths ?ctx (new_rpc example_world) =
      Done (Returns (Some (Status PermissionDenied ''not authorized for target'')), rp')"
    by (simp add: example_defs subscribe_defs SetACL_def)
  have "fst (w_Recv list_ops (rp_world (new_rpc example_world))) \<noteq> RecvError m" for m
    by (simp add: example_defs)
  from Subscribe_counts_rejections [OF run this] run show ?thesis by (auto simp: new_rpc_def)
qed

section \<open>A complete answer\<close>

text \<open>
  What the coalescing queue promises: \<open>items\<close> and \<open>closed\<close> read the queue in the world. An item
  that is already queued is counted as a duplicate; the items come out in the order of their
  first insertion; a closed queue gives out what it still holds. A send that is neither late nor
  failing leaves the queue alone.
\<close>

definition coalescing_queue ::
    "'w rpc_ops \<Rightarrow> ('w \<Rightarrow> (item \<times> uint32) list) \<Rightarrow> ('w \<Rightarrow> bool) \<Rightarrow> bool" where
  "coalescing_queue ops items closed \<longleftrightarrow>
     (\<forall>w i. \<not> closed w \<longrightarrow> fst (w_Insert ops i w) = None \<and> \<not> closed (snd (w_Insert ops i w)) \<and>
        items (snd (w_Insert ops i w)) = enqueue i (items w)) \<and>
     (\<forall>w. items (w_Close ops w) = items w \<and> closed (w_Close ops w)) \<and>
     (\<forall>w i d xs. items w = (i, d) # xs \<longrightarrow> fst (w_Next ops w) = NextItem i d \<and>
        items (snd (w_Next ops w)) = xs \<and> closed (snd (w_Next ops w)) = closed w) \<and>
     (\<forall>w. items w = [] \<and> closed w \<longrightarrow> fst (w_Next ops w) = NextClosed) \<and>
     (\<forall>w r. fst (w_Send ops r w) = (False, None) \<and> items (snd (w_Send ops r w)) = items w \<and>
        closed (snd (w_Send ops r w)) = closed w)"

text \<open>The leaves that do not end a stream, and the answer to a queued item.\<close>

definition plain_leaf :: "path_lib \<Rightarrow> 'w server \<Rightarrow> bool \<Rightarrow> leaf_value \<Rightarrow> bool" where
  "plain_leaf lib s cm v \<longleftrightarrow>
     (case v of
        NotificationValue (Some n) \<Rightarrow> isTargetDelete lib v = Done False \<and>
          (cm \<longrightarrow> sv_Forwardable s (GetTarget (n_Prefix n)))
      | _ \<Rightarrow> False)"

fun answer :: "RPCACL \<Rightarrow> item \<times> uint32 \<Rightarrow> subscribe_response list" where
  "answer acl (LeafItem (Some (NotificationValue (Some n))), d) =
     (if n_Prefix n = None \<or> acl (GetTarget (n_Prefix n))
      then [ResponseUpdate (Some (if d > 0 then set_duplicates d n else n))] else [])"
| "answer acl (SyncMarker, d) = [ResponseSync True]"
| "answer acl _ = []"

fun answerable :: "path_lib \<Rightarrow> 'w server \<Rightarrow> bool \<Rightarrow> item \<Rightarrow> bool" where
  "answerable lib s cm SyncMarker = True"
| "answerable lib s cm (LeafItem (Some v)) = plain_leaf lib s cm v"
| "answerable lib s cm _ = False"

lemma coalescing_queueD:
  assumes "coalescing_queue ops items closed"
  shows "\<not> closed w \<Longrightarrow> fst (w_Insert ops i w) = None"
    "\<not> closed w \<Longrightarrow> \<not> closed (snd (w_Insert ops i w))"
    "\<not> closed w \<Longrightarrow> items (snd (w_Insert ops i w)) = enqueue i (items w)"
    "items (w_Close ops w) = items w" "closed (w_Close ops w)"
    "items w = (i, d) # xs \<Longrightarrow> fst (w_Next ops w) = NextItem i d"
    "items w = (i, d) # xs \<Longrightarrow> items (snd (w_Next ops w)) = xs"
    "items w = (i, d) # xs \<Longrightarrow> closed (snd (w_Next ops w)) = closed w"
    "items w = [] \<Longrightarrow> closed w \<Longrightarrow> fst (w_Next ops w) = NextClosed"
    "fst (w_Send ops r w) = (False, None)" "items (snd (w_Send ops r w)) = items w"
    "closed (snd (w_Send ops r w)) = closed w"
  using assms unfolding coalescing_queue_def by blast+

lemma send_item_answers:
  assumes q: "coalescing_queue ops items closed" and "answerable lib s cm i"
  shows "\<exists>rp'. send_item s ops lib cm c i d rp = Done (True, rp') \<and>
    rp_sent rp' = rp_sent rp @ answer (sc_acl c) (i, d) \<and> rp_errC rp' = rp_errC rp \<and>
    items (rp_world rp') = items (rp_world rp) \<and> closed (rp_world rp') = closed (rp_world rp)"
proof -
  note send = coalescing_queueD(10) [OF q] coalescing_queueD(11) [OF q] coalescing_queueD(12) [OF q]
  have sent: "w_Send ops r w = ((False, None), snd (w_Send ops r w))" for r w
    using send(1) [of r w] by (metis prod.collapse)
  show ?thesis
  proof (cases i)
    case SyncMarker
    with sent [of "ResponseSync True" "rp_world rp"] send show ?thesis
      by (simp add: send_item_def Let_def split_beta)
  next
    case (LeafItem l)
    with assms(2) obtain n where i: "i = LeafItem (Some (NotificationValue (Some n)))"
      and del: "isTargetDelete lib (NotificationValue (Some n)) = Done False"
      and fwd: "cm \<longrightarrow> sv_Forwardable s (GetTarget (n_Prefix n))"
      by (cases l) (auto simp: plain_leaf_def split: leaf_value.splits option.splits)
    let ?n = "if d > 0 then set_duplicates d n else n"
    have made: "MakeSubscribeResponse (NotificationValue (Some n)) d = Done (Inr (Some ?n))"
      by (simp add: MakeSubscribeResponse_def)
    have p: "n_Prefix ?n = n_Prefix n" by simp
    show ?thesis
      using fwd send sent [of "ResponseUpdate (Some ?n)" "rp_world rp"]
      by (cases "n_Prefix n") (auto simp: i send_item_def send_leaf_def sendSubscribeResponse_def made
          del send_update_def Let_def split_beta)
  qed (use assms(2) in simp)
qed

lemma sendStreamingResults_answers:
  assumes q: "coalescing_queue ops items closed"
    and "items (rp_world rp) = xs" and "closed (rp_world rp)"
    and "\<And>i. i \<in> fst ` set xs \<Longrightarrow> answerable lib s cm i"
  shows "\<exists>rp'. sendStreamingResults (Suc (length xs)) s ops lib cm c rp = Done (False, rp') \<and>
    rp_sent rp' = rp_sent rp @ concat (map (answer (sc_acl c)) xs) \<and> rp_errC rp' = rp_errC rp @ [None]"
  using assms(2-)
proof (induction xs arbitrary: rp)
  case Nil
  with coalescing_queueD(9) [OF q] have "fst (w_Next ops (rp_world rp)) = NextClosed" by blast
  then show ?case
    by (cases "w_Next ops (rp_world rp)") (simp add: send_round_def sender_ends_def put_err_def)
next
  case (Cons x xs)
  obtain i d where x: "x = (i, d)" by (cases x)
  note nxt = coalescing_queueD(6) [OF q, of "rp_world rp" i d xs]
    coalescing_queueD(7) [OF q, of "rp_world rp" i d xs] coalescing_queueD(8) [OF q, of "rp_world rp" i d xs]
  obtain w where w: "w_Next ops (rp_world rp) = (NextItem i d, w)" "items w = xs" "closed w"
    using nxt Cons.prems(1,2) x by (cases "w_Next ops (rp_world rp)") auto
  have "answerable lib s cm i" using Cons.prems(3) x by force
  from send_item_answers [OF q this, of c d "rp\<lparr>rp_world := w\<rparr>"]
  obtain r where r: "send_item s ops lib cm c i d (rp\<lparr>rp_world := w\<rparr>) = Done (True, r)"
      "rp_sent r = rp_sent rp @ answer (sc_acl c) (i, d)" "rp_errC r = rp_errC rp"
      "items (rp_world r) = xs" "closed (rp_world r)"
    using w by auto
  from Cons.IH [OF r(4) r(5)] Cons.prems(3)
  obtain rp' where "sendStreamingResults (Suc (length xs)) s ops lib cm c r = Done (False, rp')"
      "rp_sent rp' = rp_sent r @ concat (map (answer (sc_acl c)) xs)" "rp_errC rp' = rp_errC r @ [None]"
    by auto
  moreover have "send_round s ops lib cm c rp = Done (True, r)"
    using w(1) r(1) by (simp add: send_round_def)
  ultimately show ?case using r by (intro exI [of _ rp']) (simp add: x)
qed

text \<open>The leaves a producer queues when the cache answers a path \<open>p\<close> with \<open>visits p\<close>.\<close>

definition queued_leaves :: "(string list \<Rightarrow> leaf_value option list) \<Rightarrow> path_lib \<Rightarrow> stream_client \<Rightarrow> item list" where
  "queued_leaves visits lib c =
     concat (map (\<lambda>s. case pl_CompletePath lib (sl_Prefix (sc_sl c)) (sub_Path s) of
         Inl e \<Rightarrow> [] | Inr p \<Rightarrow> map (LeafItem \<circ> Some) (List.map_filter (\<lambda>v. v) (visits p)))
       (sl_Subscription (sc_sl c)))"

lemma visit_all_queues:
  assumes q: "coalescing_queue ops items closed" and "\<not> closed w"
  shows "\<exists>w'. visit_all ops None None vs w = (None, w') \<and> \<not> closed w' \<and>
    items w' = fold enqueue (map (LeafItem \<circ> Some) (List.map_filter (\<lambda>v. v) vs)) (items w)"
  using assms(2)
proof (induction vs arbitrary: w)
  case (Cons v vs)
  show ?case
  proof (cases v)
    case None
    with Cons show ?thesis by (simp add: map_filter_simps)
  next
    case (Some l)
    let ?w = "snd (w_Insert ops (LeafItem (Some l)) w)"
    note ins = coalescing_queueD(1,2,3) [OF q Cons.prems, of "LeafItem (Some l)"]
    from Cons.IH [OF ins(2)] Some ins show ?thesis
      by (simp add: map_filter_simps split_beta)
  qed
qed (simp add: map_filter_simps)

lemma process_queries_queues:
  assumes q: "coalescing_queue ops items closed" and "\<not> closed w"
    and cache: "\<And>p w. w_Query ops (sc_target c) p w = (visits p, None)"
    and "\<And>s. s \<in> set subs \<Longrightarrow> \<exists>p. pl_CompletePath lib (sl_Prefix (sc_sl c)) (sub_Path s) = Inr p"
  shows "\<exists>w'. process_queries ops lib c subs w = (None, w') \<and> \<not> closed w' \<and>
    items w' = fold enqueue (concat (map (\<lambda>s. case pl_CompletePath lib (sl_Prefix (sc_sl c)) (sub_Path s) of
         Inl e \<Rightarrow> [] | Inr p \<Rightarrow> map (LeafItem \<circ> Some) (List.map_filter (\<lambda>v. v) (visits p))) subs)) (items w)"
  using assms(2,4)
proof (induction subs arbitrary: w)
  case (Cons sub subs)
  from Cons.prems(2) obtain p where p: "pl_CompletePath lib (sl_Prefix (sc_sl c)) (sub_Path sub) = Inr p"
    by auto
  from visit_all_queues [OF q Cons.prems(1), of "visits p"]
  obtain w1 where w1: "visit_all ops None None (visits p) w = (None, w1)" "\<not> closed w1"
    "items w1 = fold enqueue (map (LeafItem \<circ> Some) (List.map_filter (\<lambda>v. v) (visits p))) (items w)"
    by blast
  from Cons.IH [OF w1(2)] Cons.prems(2) w1 p show ?case by (auto simp: cache)
qed simp

lemma enqueue_new: "i \<notin> fst ` set xs \<Longrightarrow> enqueue i xs = xs @ [(i, 0)]"
  by (induction xs rule: enqueue.induct) auto

lemma enqueue_items: "fst ` set (enqueue i xs) = insert i (fst ` set xs)"
  by (induction xs rule: enqueue.induct) auto

lemma fold_enqueue_items: "fst ` set (fold enqueue is xs) = set is \<union> fst ` set xs"
  by (induction "is" arbitrary: xs) (auto simp: enqueue_items)

lemma fold_enqueue_distinct:
  "distinct is \<Longrightarrow> set is \<inter> fst ` set xs = {} \<Longrightarrow> fold enqueue is xs = xs @ map (\<lambda>i. (i, 0)) is"
proof (induction "is" arbitrary: xs)
  case (Cons i "is")
  then show ?case by (simp add: enqueue_new)
qed simp


lemma list_ops_coalesce: "coalescing_queue list_ops lw_queue lw_closed"
  by (simp add: coalescing_queue_def list_ops_def)

definition fixed_ops :: "list_world rpc_ops" where
  "fixed_ops = list_ops\<lparr>w_Query := \<lambda>t p w. (None # map Some (lw_cache example_world), None)\<rparr>"


section \<open>Slots, members and queries\<close>

definition slot_inv :: "nat \<Rightarrow> slot_state \<Rightarrow> bool" where
  "slot_inv cap st \<longleftrightarrow> finite {k. fst st k = Processing} \<and> card {k. fst st k = Processing} = snd st \<and> snd st \<le> cap"

lemma slot_inv_step:
  assumes "slot_step (Some cap) st st'" and "slot_inv cap st"
  shows "slot_inv cap st'"
  using assms
proof (cases rule: slot_step.cases)
  case (slot_take c used ph k)
  have "{j. (ph(k := Processing)) j = Processing} = insert k {j. ph j = Processing}" by auto
  moreover have "k \<notin> {j. ph j = Processing}" using slot_take by simp
  ultimately show ?thesis using slot_take assms(2) by (simp add: slot_inv_def)
next
  case (slot_give c ph k used)
  have "{j. (ph(k := Processed)) j = Processing} = {j. ph j = Processing} - {k}" by auto
  moreover have "k \<in> {j. ph j = Processing}" using slot_give by simp
  ultimately show ?thesis using slot_give assms(2) by (simp add: slot_inv_def le_diff_conv)
next
  case (slot_again ph k used)
  have "{j. (ph(k := Arriving)) j = Processing} = {j. ph j = Processing}" using slot_again by auto
  then show ?thesis using slot_again assms(2) by (simp add: slot_inv_def)
qed simp_all

text \<open>
  C27: no more calls of \<open>processSubscription\<close> are between taking and giving back a slot than
  \<open>SubscriptionLimit\<close>, and a slot is taken exactly by those calls: none leaks.
\<close>

theorem subscription_slots_limited:
  assumes "(slot_step (sv_subscribeSlots (NewServer (int limit) forwardable cluster)))\<^sup>*\<^sup>* (\<lambda>k. Arriving, 0) (ph, used)"
    and "0 < limit"
  shows "card {k. ph k = Processing} = used \<and> used \<le> limit"
proof -
  have slots: "sv_subscribeSlots (NewServer (int limit) forwardable cluster) = Some limit"
    using assms(2) by (simp add: NewServer_def)
  have "slot_inv limit st" if "(slot_step (Some limit))\<^sup>*\<^sup>* (\<lambda>k. Arriving, 0) st" for st
    using that
  proof (induction rule: rtranclp_induct)
    case base
    show ?case by (simp add: slot_inv_def)
  next
    case (step st st')
    from slot_inv_step [OF step.hyps(2) step.IH] show ?case .
  qed
  with assms(1) have "slot_inv limit (ph, used)" unfolding slots by blast
  then show ?thesis by (simp add: slot_inv_def)
qed

theorem subscription_slots_limited_witness:
  "card {k. ((\<lambda>k::nat. Arriving)(3 := Processing)) k = Processing} = (1::nat) \<and> (1::nat) \<le> 2"
proof -
  have "slot_step (sv_subscribeSlots (NewServer (int 2) (\<lambda>t. True) (None :: (nat \<Rightarrow> _) option))) (\<lambda>k. Arriving, 0)
      ((\<lambda>k. Arriving)(3 := Processing), 0 + 1)"
    by (rule slot_take [where cap = 2]) (simp_all add: NewServer_def)
  then have "(slot_step (sv_subscribeSlots (NewServer (int 2) (\<lambda>t. True) (None :: (nat \<Rightarrow> _) option))))\<^sup>*\<^sup>*
      (\<lambda>k. Arriving, 0) ((\<lambda>k. Arriving)(3 := Processing), 0 + 1)"
    by (rule r_into_rtranclp)
  from subscription_slots_limited [OF this] show ?thesis by simp
qed

definition host_part :: "string \<Rightarrow> string" where
  "host_part addr = takeWhile (\<lambda>c. c \<noteq> CHR '':'') addr"

lemma split_on_hd: "hd (split_on c s) = takeWhile (\<lambda>x. x \<noteq> c) s"
proof (induction s)
  case (Cons a s)
  then show ?case by (cases "split_on c s") auto
qed simp

text \<open>
  A peer is taken for a cluster member exactly when the part of its address before the
  first colon is not empty and equals that part of a member's address. For an IPv6 address
  this is a fragment of the address in brackets.
\<close>

theorem memberAddressInMemberList_iff:
  "memberAddressInMemberList addr members \<longleftrightarrow>
     host_part addr \<noteq> [] \<and> (\<exists>m \<in> set members. host_part (member_string m) = host_part addr)"
proof -
  have nth: "split_on c s ! 0 = takeWhile (\<lambda>x. x \<noteq> c) s" "\<not> length (split_on c s) < 1" for c s
    by (metis hd_conv_nth split_on_hd split_on_not_Nil) (simp add: Suc_le_eq)
  show ?thesis
    unfolding memberAddressInMemberList_def Let_def nth host_part_def list_ex_iff
    using nth(2) by (auto simp: Bex_def) metis
qed

lemma memberAddressInMemberList_ipv6:
  "memberAddressInMemberList ''[2001:db8::9]:50001'' [MemberID ''[2001:db8::1]:9339'']"
  by (simp add: memberAddressInMemberList_iff host_part_def)

text \<open>
  C39: two subscribed paths that fit into the spare capacity of the prefix share its array, so
  when the stream ends the query of the second path is removed twice and that of the first one
  stays registered.
\<close>

theorem addSubscription_forgets_first:
  assumes "sl_Subscription sl = [\<lparr>sub_Path = Some p\<rparr>, \<lparr>sub_Path = Some q\<rparr>]"
    and "length (pl_ToStrings lib (Some p) False) = length (pl_ToStrings lib (Some q) False)"
    and "length (pl_ToStrings lib (Some q) False) \<le> pl_Spare lib (sl_Prefix sl)"
  shows "let pre = pl_ToStrings lib (sl_Prefix sl) True;
             first = pre @ pl_ToStrings lib (Some p) False;
             second = pre @ pl_ToStrings lib (Some q) False
         in addSubscription ops lib sl w = ([second, second], w_AddQuery ops second (w_AddQuery ops first w))"
  using assms by (simp add: addSubscription_def append_prefix_def read_slice_def Let_def)

lemma addSubscription_fresh:
  assumes "pl_Spare lib (sl_Prefix sl) = 0" and "\<And>s. s \<in> set (sl_Subscription sl) \<Longrightarrow>
    sub_Path s \<noteq> None \<and> pl_ToStrings lib (sub_Path s) False \<noteq> []"
  shows "fst (addSubscription ops lib sl w) =
    map (\<lambda>s. pl_ToStrings lib (sl_Prefix sl) True @ pl_ToStrings lib (sub_Path s) False) (sl_Subscription sl)"
proof -
  have "fst (add_queries ops lib pre 0 ss buf w) = map (\<lambda>s. OwnTail (pl_ToStrings lib (sub_Path s) False)) ss"
    if "\<And>s. s \<in> set ss \<Longrightarrow> sub_Path s \<noteq> None \<and> pl_ToStrings lib (sub_Path s) False \<noteq> []" for pre ss buf w
    using that
  proof (induction ss arbitrary: buf w)
    case (Cons s ss)
    from Cons.prems [of s] obtain p where "sub_Path s = Some p" "pl_ToStrings lib (Some p) False \<noteq> []"
      by auto
    with Cons.IH Cons.prems show ?case by (simp add: append_prefix_def split_beta Let_def)
  qed simp
  from this [OF assms(2)] assms(1) show ?thesis
    by (simp add: addSubscription_def Let_def split_beta read_slice_def)
qed

definition two_paths :: subscription_list where
  "two_paths = \<lparr>sl_Prefix = Some \<lparr>p_Origin = [], p_Target = ''dev'',
       p_Elem = [\<lparr>pe_Name = ''interfaces'', pe_Key = None\<rparr>, \<lparr>pe_Name = ''interface'', pe_Key = None\<rparr>]\<rparr>,
     sl_Subscription =
       [\<lparr>sub_Path = Some (empty_path\<lparr>p_Elem := [\<lparr>pe_Name = ''state'', pe_Key = None\<rparr>]\<rparr>)\<rparr>,
        \<lparr>sub_Path = Some (empty_path\<lparr>p_Elem := [\<lparr>pe_Name = ''config'', pe_Key = None\<rparr>]\<rparr>)\<rparr>],
     sl_Mode = STREAM, sl_UpdatesOnly = False\<rparr>"

theorem addSubscription_forgets_first_witness:
  "case addSubscription list_ops simple_paths two_paths example_world of (removes, w) \<Rightarrow>
     lw_queries w = [[''dev'', ''interfaces'', ''interface'', ''state''],
       [''dev'', ''interfaces'', ''interface'', ''config'']] \<and>
     lw_queries (remove_queries list_ops removes w) = [[''dev'', ''interfaces'', ''interface'', ''state'']]"
proof -
  let ?p = "empty_path\<lparr>p_Elem := [\<lparr>pe_Name = ''state'', pe_Key = None\<rparr>]\<rparr>"
  let ?q = "empty_path\<lparr>p_Elem := [\<lparr>pe_Name = ''config'', pe_Key = None\<rparr>]\<rparr>"
  let ?first = "[''dev'', ''interfaces'', ''interface'', ''state'']"
  let ?second = "[''dev'', ''interfaces'', ''interface'', ''config'']"
  have sub: "sl_Subscription two_paths = [\<lparr>sub_Path = Some ?p\<rparr>, \<lparr>sub_Path = Some ?q\<rparr>]"
    by (simp add: two_paths_def)
  have strings: "pl_ToStrings simple_paths (sl_Prefix two_paths) True = [''dev'', ''interfaces'', ''interface'']"
    "pl_ToStrings simple_paths (Some ?p) False = [''state'']"
    "pl_ToStrings simple_paths (Some ?q) False = [''config'']" "pl_Spare simple_paths (sl_Prefix two_paths) = 1"
    by (simp_all add: simple_paths_def two_paths_def)
  have "addSubscription list_ops simple_paths two_paths example_world =
      ([?second, ?second], w_AddQuery list_ops ?second (w_AddQuery list_ops ?first example_world))"
    using addSubscription_forgets_first [OF sub, of simple_paths list_ops example_world,
        unfolded Let_def strings]
    by simp
  then show ?thesis by (simp add: list_ops_def example_world_def remove_queries_def)
qed

text \<open>
  The error of an insertion is lost, because \<open>matchClient.Update\<close> stores it in a copy: the
  client inserts every update, also after an error.
\<close>

lemma matchClient_Update_forgets:
  assumes "mc_err c = None"
  shows "fold (\<lambda>n (c, w). matchClient_Update ops n c w) ns (c, w) =
    (c, fold (\<lambda>n w. snd (w_Insert ops n w)) ns w)"
  using assms by (induction ns arbitrary: w) (simp_all add: matchClient_Update_def split_beta)

text \<open>
  A target delete ends the stream of a client that is subscribed to that one target, after the
  delete has been sent.
\<close>

lemma target_delete_ends_stream:
  assumes "send_leaf s ops lib cm c v dup rp = Done (go_on, rp')" "isTargetDelete lib v = Done True"
    and "sc_target c \<noteq> ''*''"
  shows "\<not> go_on"
  using assms by (auto simp: send_leaf_def sender_ends_def go_simps split: if_splits)

text \<open>The sender ends without a result on \<open>errC\<close> when a message may not be forwarded.\<close>

lemma unforwardable_ends_silently:
  assumes "w_Next ops (rp_world rp) = (NextItem (LeafItem (Some (NotificationValue (Some n)))) dup, w)"
    and "\<not> sv_Forwardable s (GetTarget (n_Prefix n))"
  shows "send_round s ops lib True c rp = Done (False, rp\<lparr>rp_world := w\<rparr>)"
  using assms by (simp add: send_round_def send_item_def)

end
