(* ===== verification/Streaming.thy ===== *)
theory Streaming
  imports Server
begin

text \<open>
  The goroutines of a Subscribe RPC (\<open>gateway/server/server.go\<close>) running at the same time. ONCE:
  the producer inserts its items one by one and then closes the queue, the sender takes and sends
  them. STREAM: besides the producer, the match tree inserts an item for every update of the
  cache. The steps come in any order; the sender waits while the queue is empty and open.
\<close>

section \<open>What passes through the queue\<close>

text \<open>How often an item is in a queue with counters, as the counters count it.\<close>

definition occurrences :: "item \<Rightarrow> (item \<times> uint32) list \<Rightarrow> uint32" where
  "occurrences i xs = (\<Sum>(j, d) \<leftarrow> xs. if j = i then d + 1 else 0)"

lemma occurrences_simps [simp]:
  "occurrences i [] = 0"
  "occurrences i ((j, d) # xs) = (if j = i then d + 1 else 0) + occurrences i xs"
  "occurrences i (xs @ ys) = occurrences i xs + occurrences i ys"
  by (simp_all add: occurrences_def)

lemma occurrences_enqueue: "occurrences i (enqueue j xs) = occurrences i xs + (if j = i then 1 else 0)"
  by (induction j xs rule: enqueue.induct) auto

text \<open>
  What has been put into the queue (\<open>ins\<close>) is what has been taken from it (\<open>out\<close>) or is still in
  it (\<open>q\<close>), with the same counts.
\<close>

definition accounted :: "(item \<times> uint32) list \<Rightarrow> (item \<times> uint32) list \<Rightarrow> item list \<Rightarrow> bool" where
  "accounted out q ins \<longleftrightarrow> fst ` set (out @ q) = set ins \<and>
     (\<forall>i. occurrences i (out @ q) = of_nat (count_list ins i))"

lemma accounted_Nil [simp]: "accounted [] [] []"
  by (simp add: accounted_def)

lemma accounted_insert: "accounted out q ins \<Longrightarrow> accounted out (enqueue i q) (ins @ [i])"
  by (auto simp: accounted_def image_Un enqueue_items occurrences_enqueue)

lemma accounted_take: "accounted (out @ [x]) q ins = accounted out (x # q) ins"
  by (cases x) (simp add: accounted_def)

lemma accounted_done: "accounted out [] ins \<Longrightarrow> fst ` set out = set ins"
  by (simp add: accounted_def)

lemma accounted_item: "accounted out ((i, d) # q) ins \<Longrightarrow> i \<in> set ins"
  by (auto simp: accounted_def)

definition sync_last :: "(item \<times> uint32) list \<Rightarrow> bool" where
  "sync_last xs \<longleftrightarrow> (\<exists>ys. xs = ys @ [(SyncMarker, 0)] \<and> SyncMarker \<notin> fst ` set ys)"

lemma sync_last_enqueue:
  "SyncMarker \<notin> fst ` set (out @ xs) \<Longrightarrow> sync_last (out @ enqueue SyncMarker xs)"
  by (simp add: enqueue_new image_Un sync_last_def)

lemma queued_leaves_no_sync: "SyncMarker \<notin> set (queued_leaves visits lib c)"
  by (auto simp: queued_leaves_def split: sum.splits)

text \<open>
  One walk over the cache: the leaves and then the sync marker are put into the queue, \<open>ins\<close>
  already and \<open>pending\<close> not yet. When the walk is over and the queue empty, what has been taken
  is a complete answer.
\<close>

definition filling :: "item list \<Rightarrow> (item \<times> uint32) list \<Rightarrow> (item \<times> uint32) list \<Rightarrow> item list \<Rightarrow> item list \<Rightarrow> bool" where
  "filling leaves out q ins pending \<longleftrightarrow>
     leaves @ [SyncMarker] = ins @ pending \<and> accounted out q ins \<and> (pending = [] \<longrightarrow> sync_last (out @ q))"

definition complete_answer :: "item list \<Rightarrow> (item \<times> uint32) list \<Rightarrow> bool" where
  "complete_answer leaves out \<longleftrightarrow>
     (\<exists>ys. out = ys @ [(SyncMarker, 0)] \<and> fst ` set ys = set leaves \<and>
        (\<forall>i. occurrences i ys = of_nat (count_list leaves i)))"

lemma filling_start [simp]: "filling leaves [] [] [] (leaves @ [SyncMarker])"
  by (simp add: filling_def)

lemma filling_take: "filling leaves (out @ [x]) q ins pending = filling leaves out (x # q) ins pending"
  by (simp add: filling_def accounted_take)

lemma filling_item: "filling leaves out ((i, d) # q) ins pending \<Longrightarrow> i \<in> insert SyncMarker (set leaves)"
  by (drule filling_def [THEN iffD1]) (metis Un_iff accounted_item list.set(2) set_append insert_is_Un sup_commute list.set(1))

lemma filling_insert:
  assumes "filling leaves out q ins (i # rest)" and sync: "SyncMarker \<notin> set leaves"
  shows "filling leaves out (enqueue i q) (ins @ [i]) rest"
proof -
  have all: "leaves @ [SyncMarker] = (ins @ [i]) @ rest" "accounted out q ins"
    using assms(1) by (simp_all add: filling_def)
  have "sync_last (out @ enqueue i q)" if "rest = []"
  proof -
    from all(1) that have "i = SyncMarker" "leaves = ins" by simp_all
    moreover from this all(2) have "SyncMarker \<notin> fst ` set (out @ q)" using sync by (simp add: accounted_def)
    ultimately show ?thesis by (simp add: sync_last_enqueue)
  qed
  with all show ?thesis by (simp add: filling_def accounted_insert)
qed

lemma filling_answered:
  assumes "filling leaves out [] ins []" and sync: "SyncMarker \<notin> set leaves"
  shows "complete_answer leaves out"
proof -
  have all: "leaves @ [SyncMarker] = ins" "fst ` set out = set ins" "sync_last out"
    "\<And>i. occurrences i out = of_nat (count_list ins i)"
    using assms(1) by (simp_all add: filling_def accounted_def)
  from all(3) obtain ys where ys: "out = ys @ [(SyncMarker, 0)]" "SyncMarker \<notin> fst ` set ys"
    by (auto simp: sync_last_def)
  have "insert SyncMarker (fst ` set ys) = insert SyncMarker (set leaves)"
    using all(2) ys(1) all(1) [symmetric] by simp
  then have "fst ` set ys = set leaves" by (simp add: insert_ident [OF ys(2) sync])
  moreover have "occurrences i ys = of_nat (count_list leaves i)" for i
    using all(4) [of i] ys by (simp add: all(1) [symmetric] split: if_splits)
  ultimately show ?thesis using ys(1) by (auto simp: complete_answer_def)
qed

text \<open>One round of the sender, on a queue with an item and on a closed empty one.\<close>

lemma send_round_next:
  assumes q: "coalescing_queue ops items closed" and xs: "items (rp_world rp) = (i, d) # xs"
    and "answerable lib s cm i" and r: "send_round s ops lib cm c rp = Done (go_on, rp')"
  shows "go_on \<and> rp_sent rp' = rp_sent rp @ answer (sc_acl c) (i, d) \<and> rp_errC rp' = rp_errC rp \<and>
    items (rp_world rp') = xs \<and> closed (rp_world rp') = closed (rp_world rp)"
proof -
  note nxt = coalescing_queueD(6-8) [OF q xs]
  obtain w where w: "w_Next ops (rp_world rp) = (NextItem i d, w)" "items w = xs" "closed w = closed (rp_world rp)"
    using nxt by (cases "w_Next ops (rp_world rp)") auto
  with send_item_answers [OF q assms(3), of c d "rp\<lparr>rp_world := w\<rparr>"] r show ?thesis
    by (auto simp: send_round_def)
qed

lemma send_round_can:
  assumes q: "coalescing_queue ops items closed" and xs: "items (rp_world rp) = (i, d) # xs"
    and a: "answerable lib s cm i"
  obtains go_on rp' where "send_round s ops lib cm c rp = Done (go_on, rp')"
proof -
  obtain w where "w_Next ops (rp_world rp) = (NextItem i d, w)"
    using coalescing_queueD(6) [OF q xs] by (cases "w_Next ops (rp_world rp)") auto
  with send_item_answers [OF q a, of c d "rp\<lparr>rp_world := w\<rparr>"] that show ?thesis
    by (auto simp: send_round_def)
qed

lemma send_round_closed:
  assumes q: "coalescing_queue ops items closed" and "items (rp_world rp) = []" and "closed (rp_world rp)"
    and r: "send_round s ops lib cm c rp = Done (go_on, rp')"
  shows "\<not> go_on \<and> rp_sent rp' = rp_sent rp \<and> rp_errC rp' = rp_errC rp @ [None]"
  using coalescing_queueD(9) [OF q assms(2,3)] r
  by (cases "w_Next ops (rp_world rp)") (auto simp: send_round_def sender_ends_def put_err_def)

section \<open>ONCE\<close>

record 'w once =
  on_pending :: "item list"
  on_closed :: bool
  on_running :: bool
  on_rpc :: "'w rpc"

inductive once_step :: "'w server \<Rightarrow> 'w rpc_ops \<Rightarrow> ('w \<Rightarrow> (item \<times> uint32) list) \<Rightarrow> path_lib \<Rightarrow> bool \<Rightarrow> stream_client \<Rightarrow>
    'w once \<Rightarrow> 'w once \<Rightarrow> bool" for s ops items lib cm c where
  insert: "on_pending st = i # rest \<Longrightarrow> w_Insert ops i (rp_world (on_rpc st)) = (None, w) \<Longrightarrow>
    once_step s ops items lib cm c st (st\<lparr>on_pending := rest, on_rpc := (on_rpc st)\<lparr>rp_world := w\<rparr>\<rparr>)"
| close: "on_pending st = [] \<Longrightarrow> \<not> on_closed st \<Longrightarrow>
    once_step s ops items lib cm c st (st\<lparr>on_closed := True, on_rpc := close_queue ops (on_rpc st)\<rparr>)"
| send: "on_running st \<Longrightarrow> items (rp_world (on_rpc st)) \<noteq> [] \<or> on_closed st \<Longrightarrow>
    send_round s ops lib cm c (on_rpc st) = Done (go_on, rp') \<Longrightarrow>
    once_step s ops items lib cm c st (st\<lparr>on_running := go_on, on_rpc := rp'\<rparr>)"

definition once_start :: "item list \<Rightarrow> 'w rpc \<Rightarrow> 'w once" where
  "once_start is rp = \<lparr>on_pending = is @ [SyncMarker], on_closed = False, on_running = True, on_rpc = rp\<rparr>"

text \<open>The queue while the sender runs; it ends on an empty queue.\<close>

definition once_queue :: "('w \<Rightarrow> (item \<times> uint32) list) \<Rightarrow> 'w once \<Rightarrow> (item \<times> uint32) list" where
  "once_queue items st = (if on_running st then items (rp_world (on_rpc st)) else [])"

text \<open>
  The invariant: \<open>out\<close> is what the sender has taken from the queue, \<open>ins\<close> what the producer has
  put into it.
\<close>

definition once_inv :: "('w \<Rightarrow> (item \<times> uint32) list) \<Rightarrow> ('w \<Rightarrow> bool) \<Rightarrow> stream_client \<Rightarrow> 'w rpc \<Rightarrow>
    item list \<Rightarrow> (item \<times> uint32) list \<Rightarrow> item list \<Rightarrow> 'w once \<Rightarrow> bool" where
  "once_inv items closed c rp leaves out ins st \<longleftrightarrow>
     filling leaves out (once_queue items st) ins (on_pending st) \<and>
     (on_running st \<longrightarrow> closed (rp_world (on_rpc st)) = on_closed st) \<and>
     (on_closed st \<longrightarrow> on_pending st = []) \<and> (\<not> on_running st \<longrightarrow> on_closed st) \<and>
     rp_sent (on_rpc st) = rp_sent rp @ concat (map (answer (sc_acl c)) out) \<and>
     rp_errC (on_rpc st) = rp_errC rp @ (if on_running st then [] else [None])"

text \<open>The length of what is left to do.\<close>

definition once_rank :: "('w \<Rightarrow> (item \<times> uint32) list) \<Rightarrow> 'w once \<Rightarrow> nat" where
  "once_rank items st = 2 * length (on_pending st) + length (once_queue items st) +
     (if on_closed st then 0 else 1) + (if on_running st then 1 else 0)"

lemma length_enqueue: "length (enqueue i xs) \<le> Suc (length xs)"
  by (induction i xs rule: enqueue.induct) auto

text \<open>Each kind of step keeps the invariant and comes closer to the end.\<close>

lemma once_insert_inv:
  assumes q: "coalescing_queue ops items closed" and inv: "once_inv items closed c rp leaves out ins st"
    and sync: "SyncMarker \<notin> set leaves" and p: "on_pending st = i # rest"
    and w: "w_Insert ops i (rp_world (on_rpc st)) = (None, w)"
    and st': "st' = st\<lparr>on_pending := rest, on_rpc := (on_rpc st)\<lparr>rp_world := w\<rparr>\<rparr>"
  shows "once_inv items closed c rp leaves out (ins @ [i]) st' \<and> once_rank items st' < once_rank items st"
proof -
  have run: "on_running st" "\<not> on_closed st" "\<not> closed (rp_world (on_rpc st))"
    using inv p by (auto simp: once_inv_def)
  have items: "items w = enqueue i (items (rp_world (on_rpc st)))" "\<not> closed w"
    using coalescing_queueD(2,3) [OF q run(3), of i] w by simp_all
  let ?q = "once_queue items st"
  have queue: "once_queue items st' = enqueue i ?q"
    using run(1) items(1) by (simp add: once_queue_def st')
  have "filling leaves out (enqueue i ?q) (ins @ [i]) rest"
    using inv p sync by (intro filling_insert) (simp_all add: once_inv_def)
  moreover have "once_rank items st' < once_rank items st"
    using length_enqueue [of i ?q] by (simp add: once_rank_def queue p del: One_nat_def) (simp add: st')
  ultimately show ?thesis
    using inv run items by (simp add: once_inv_def queue) (simp add: st')
qed

lemma once_close_inv:
  assumes q: "coalescing_queue ops items closed" and inv: "once_inv items closed c rp leaves out ins st"
    and p: "on_pending st = []" "\<not> on_closed st"
    and st': "st' = st\<lparr>on_closed := True, on_rpc := close_queue ops (on_rpc st)\<rparr>"
  shows "once_inv items closed c rp leaves out ins st' \<and> once_rank items st' < once_rank items st"
proof -
  have run: "on_running st" using inv p by (auto simp: once_inv_def)
  have queue: "once_queue items st' = once_queue items st"
    by (simp add: once_queue_def st' coalescing_queueD(4) [OF q])
  from inv p run have "once_inv items closed c rp leaves out ins st'"
    by (simp add: once_inv_def queue) (simp add: st' coalescing_queueD(5) [OF q])
  moreover have "once_rank items st' < once_rank items st"
    using p by (simp add: once_rank_def queue) (simp add: st')
  ultimately show ?thesis by blast
qed

lemma once_send_inv:
  assumes q: "coalescing_queue ops items closed" and inv: "once_inv items closed c rp leaves out ins st"
    and ok: "\<And>i. i \<in> set leaves \<Longrightarrow> answerable lib s cm i"
    and run: "on_running st" "items (rp_world (on_rpc st)) \<noteq> [] \<or> on_closed st"
    and r: "send_round s ops lib cm c (on_rpc st) = Done (go_on, rp')"
    and st': "st' = st\<lparr>on_running := go_on, on_rpc := rp'\<rparr>"
  shows "\<exists>out. once_inv items closed c rp leaves out ins st' \<and> once_rank items st' < once_rank items st"
proof (cases "items (rp_world (on_rpc st))")
  case Nil
  with run inv have cl: "closed (rp_world (on_rpc st))" "on_closed st" by (auto simp: once_inv_def)
  note e = send_round_closed [OF q Nil cl(1) r]
  have "once_inv items closed c rp leaves out ins st'"
    using inv e run Nil cl(2) by (auto simp: once_inv_def once_queue_def st')
  moreover have "once_rank items st' < once_rank items st"
    using e run by (simp add: once_rank_def once_queue_def st')
  ultimately show ?thesis by blast
next
  case (Cons x xs)
  obtain i d where x: "x = (i, d)" by (cases x)
  have "filling leaves out ((i, d) # xs) ins (on_pending st)"
    using inv run Cons x by (simp add: once_inv_def once_queue_def)
  from filling_item [OF this] have "answerable lib s cm i" using ok by auto
  note e = send_round_next [OF q Cons [unfolded x] this r]
  have "once_inv items closed c rp leaves (out @ [(i, d)]) ins st'"
    using inv e run Cons x by (simp add: once_inv_def once_queue_def filling_take st')
  moreover have "once_rank items st' < once_rank items st"
    using e run Cons by (simp add: once_rank_def once_queue_def st')
  ultimately show ?thesis by blast
qed

lemma once_step_inv:
  assumes "coalescing_queue ops items closed" and "once_inv items closed c rp leaves out ins st"
    and "\<And>i. i \<in> set leaves \<Longrightarrow> answerable lib s cm i" and "SyncMarker \<notin> set leaves"
    and "once_step s ops items lib cm c st st'"
  shows "\<exists>out ins. once_inv items closed c rp leaves out ins st' \<and> once_rank items st' < once_rank items st"
  using assms(5)
proof (cases rule: once_step.cases)
  case (insert i rest w)
  from once_insert_inv [OF assms(1,2,4) insert(2,3,1)] show ?thesis by blast
next
  case close
  from once_close_inv [OF assms(1,2) close(2,3,1)] show ?thesis by blast
next
  case (send go_on rp')
  from once_send_inv [OF assms(1-3) send(2-4,1)] show ?thesis by blast
qed

lemma once_progress:
  assumes q: "coalescing_queue ops items closed" and inv: "once_inv items closed c rp leaves out ins st"
    and ok: "\<And>i. i \<in> set leaves \<Longrightarrow> answerable lib s cm i" and run: "on_running st"
  shows "\<exists>st'. once_step s ops items lib cm c st st'"
proof (cases "on_pending st")
  case (Cons i rest)
  with inv run have "\<not> closed (rp_world (on_rpc st))" by (auto simp: once_inv_def)
  from coalescing_queueD(1) [OF q this, of i]
  have "w_Insert ops i (rp_world (on_rpc st)) = (None, snd (w_Insert ops i (rp_world (on_rpc st))))"
    by (metis prod.collapse)
  with once_step.insert [OF Cons this] show ?thesis by blast
next
  case Nil
  show ?thesis
  proof (cases "on_closed st")
    case False
    with Nil once_step.close show ?thesis by metis
  next
    case closed: True
    with inv run have cl: "closed (rp_world (on_rpc st))" by (simp add: once_inv_def)
    have "\<exists>go_on rp'. send_round s ops lib cm c (on_rpc st) = Done (go_on, rp')"
    proof (cases "items (rp_world (on_rpc st))")
      case Nil
      from coalescing_queueD(9) [OF q Nil cl] show ?thesis
        by (cases "w_Next ops (rp_world (on_rpc st))") (auto simp: send_round_def sender_ends_def)
    next
      case (Cons x xs)
      obtain i d where x: "x = (i, d)" by (cases x)
      have "filling leaves out ((i, d) # xs) ins (on_pending st)"
        using inv run Cons x by (simp add: once_inv_def once_queue_def)
      from filling_item [OF this] have a: "answerable lib s cm i" using ok by auto
      show ?thesis by (rule send_round_can [OF q Cons [unfolded x] a]) blast
    qed
    with once_step.send [OF run] closed show ?thesis by blast
  qed
qed

lemma once_runs:
  assumes q: "coalescing_queue ops items closed" and "once_inv items closed c rp leaves out0 ins0 st0"
    and ok: "\<And>i. i \<in> set leaves \<Longrightarrow> answerable lib s cm i" and sync: "SyncMarker \<notin> set leaves"
    and run: "(once_step s ops items lib cm c ^^ n) st0 st"
  shows "\<exists>out ins. once_inv items closed c rp leaves out ins st \<and> n + once_rank items st \<le> once_rank items st0"
  using run
proof (induction n arbitrary: st)
  case 0
  with assms(2) show ?case by auto
next
  case (Suc n)
  then obtain u where u: "(once_step s ops items lib cm c ^^ n) st0 u" "once_step s ops items lib cm c u st" by auto
  from Suc.IH [OF u(1)] obtain out ins where IH: "once_inv items closed c rp leaves out ins u"
      "n + once_rank items u \<le> once_rank items st0" by blast
  from once_step_inv [OF q IH(1) ok sync u(2)] IH(2) show ?case by fastforce
qed



section \<open>STREAM\<close>

text \<open>
  A STREAM subscription after \<open>addSubscription\<close>: the producer walks the cache and ends with the
  sync marker, \<open>matchClient.Update\<close> inserts the updates of the cache that match, the sender sends.
\<close>

record 'w streaming =
  st_walk :: "item list"
  st_match :: match_client
  st_running :: bool
  st_rpc :: "'w rpc"

datatype stream_event =
    Walked item
  | Updated "leaf_value option"
  | Taken

fun event_items :: "stream_event \<Rightarrow> item list" where
  "event_items (Walked i) = [i]"
| "event_items (Updated v) = [LeafItem v]"
| "event_items Taken = []"

abbreviation inserted :: "stream_event list \<Rightarrow> item list" where
  "inserted es \<equiv> concat (map event_items es)"

inductive stream_step :: "'w server \<Rightarrow> 'w rpc_ops \<Rightarrow> ('w \<Rightarrow> (item \<times> uint32) list) \<Rightarrow> path_lib \<Rightarrow> bool \<Rightarrow> stream_client \<Rightarrow>
    stream_event \<Rightarrow> 'w streaming \<Rightarrow> 'w streaming \<Rightarrow> bool" for s ops items lib cm c where
  walk: "st_walk st = i # rest \<Longrightarrow> w_Insert ops i (rp_world (st_rpc st)) = (None, w) \<Longrightarrow>
    stream_step s ops items lib cm c (Walked i) st
      (st\<lparr>st_walk := rest, st_rpc := (st_rpc st)\<lparr>rp_world := w\<rparr>\<rparr>)"
| update: "matchClient_Update ops (LeafItem v) (st_match st) (rp_world (st_rpc st)) = (mc, w) \<Longrightarrow>
    stream_step s ops items lib cm c (Updated v) st
      (st\<lparr>st_match := mc, st_rpc := (st_rpc st)\<lparr>rp_world := w\<rparr>\<rparr>)"
| send: "st_running st \<Longrightarrow> items (rp_world (st_rpc st)) \<noteq> [] \<Longrightarrow>
    send_round s ops lib cm c (st_rpc st) = Done (go_on, rp') \<Longrightarrow>
    stream_step s ops items lib cm c Taken st (st\<lparr>st_running := go_on, st_rpc := rp'\<rparr>)"

inductive stream_run :: "'w server \<Rightarrow> 'w rpc_ops \<Rightarrow> ('w \<Rightarrow> (item \<times> uint32) list) \<Rightarrow> path_lib \<Rightarrow> bool \<Rightarrow> stream_client \<Rightarrow>
    'w streaming \<Rightarrow> stream_event list \<Rightarrow> 'w streaming \<Rightarrow> bool" for s ops items lib cm c st0 where
  start: "stream_run s ops items lib cm c st0 [] st0"
| step: "stream_run s ops items lib cm c st0 es st \<Longrightarrow> stream_step s ops items lib cm c e st st' \<Longrightarrow>
    stream_run s ops items lib cm c st0 (es @ [e]) st'"

definition stream_start :: "item list \<Rightarrow> match_client \<Rightarrow> 'w rpc \<Rightarrow> 'w streaming" where
  "stream_start leaves mc rp =
     \<lparr>st_walk = leaves @ [SyncMarker], st_match = mc, st_running = True, st_rpc = rp\<rparr>"

text \<open>In a list of items, the leaves of the walk come before the sync marker.\<close>

definition sync_after :: "item list \<Rightarrow> item list \<Rightarrow> bool" where
  "sync_after leaves xs \<longleftrightarrow>
     (SyncMarker \<in> set xs \<longrightarrow> set leaves \<subseteq> set (takeWhile (\<lambda>i. i \<noteq> SyncMarker) xs))"

lemma map_fst_enqueue: "map fst (enqueue i q) = map fst q @ (if i \<in> fst ` set q then [] else [i])"
  by (induction i q rule: enqueue.induct) auto

lemma sync_after_append: "SyncMarker \<in> set xs \<Longrightarrow> sync_after leaves (xs @ ys) = sync_after leaves xs"
  by (simp add: sync_after_def)

lemma sync_after_leaf: "sync_after leaves xs \<Longrightarrow> i \<noteq> SyncMarker \<Longrightarrow> sync_after leaves (xs @ [i])"
  by (auto simp: sync_after_def)

lemma sync_after_marker: "SyncMarker \<notin> set xs \<Longrightarrow> set leaves \<subseteq> set xs \<Longrightarrow> sync_after leaves (xs @ [SyncMarker])"
  by (subst sync_after_def, subst takeWhile_append2) auto

definition stream_inv :: "('w \<Rightarrow> (item \<times> uint32) list) \<Rightarrow> ('w \<Rightarrow> bool) \<Rightarrow> stream_client \<Rightarrow> 'w rpc \<Rightarrow>
    item list \<Rightarrow> stream_event list \<Rightarrow> (item \<times> uint32) list \<Rightarrow> 'w streaming \<Rightarrow> bool" where
  "stream_inv items closed c rp leaves es out st \<longleftrightarrow>
     accounted out (items (rp_world (st_rpc st))) (inserted es) \<and>
     sync_after leaves (map fst (out @ items (rp_world (st_rpc st)))) \<and>
     (\<exists>walked. leaves @ [SyncMarker] = walked @ st_walk st \<and> set walked \<subseteq> set (inserted es) \<and>
        (SyncMarker \<in> set (inserted es) \<longrightarrow> st_walk st = [])) \<and>
     \<not> closed (rp_world (st_rpc st)) \<and> st_running st \<and> mc_err (st_match st) = None \<and>
     rp_sent (st_rpc st) = rp_sent rp @ concat (map (answer (sc_acl c)) out) \<and>
     rp_errC (st_rpc st) = rp_errC rp"

text \<open>An insertion into the queue.\<close>

lemma queue_insert:
  assumes "coalescing_queue ops items closed" and "\<not> closed w" and "w_Insert ops i w = (e, w')"
  shows "e = None \<and> \<not> closed w' \<and> items w' = enqueue i (items w)"
  using coalescing_queueD(1-3) [OF assms(1,2), of i] assms(3) by simp

lemma sync_after_enqueue:
  assumes "sync_after leaves (map fst (out @ q))"
    and "i = SyncMarker \<Longrightarrow> SyncMarker \<notin> fst ` set (out @ q) \<and> set leaves \<subseteq> fst ` set (out @ q)"
  shows "sync_after leaves (map fst (out @ enqueue i q))"
proof (cases "i \<in> fst ` set q")
  case True
  then have "map fst (out @ enqueue i q) = map fst (out @ q)" by (simp add: map_fst_enqueue)
  with assms(1) show ?thesis by (simp only:)
next
  case False
  then have e: "map fst (out @ enqueue i q) = map fst (out @ q) @ [i]" by (simp add: map_fst_enqueue)
  show ?thesis
  proof (cases "i = SyncMarker")
    case True
    have "sync_after leaves (map fst (out @ q) @ [SyncMarker])"
      by (rule sync_after_marker) (use assms(2) [OF True] in \<open>simp_all add: image_Un\<close>)
    with True e show ?thesis by simp
  next
    case False
    from sync_after_leaf [OF assms(1) this] e show ?thesis by simp
  qed
qed

lemma stream_walk_inv:
  assumes q: "coalescing_queue ops items closed" and inv: "stream_inv items closed c rp leaves es out st"
    and sync: "SyncMarker \<notin> set leaves" and p: "st_walk st = i # rest"
    and w: "w_Insert ops i (rp_world (st_rpc st)) = (None, w)"
    and st': "st' = st\<lparr>st_walk := rest, st_rpc := (st_rpc st)\<lparr>rp_world := w\<rparr>\<rparr>"
  shows "stream_inv items closed c rp leaves (es @ [Walked i]) out st'"
proof -
  let ?q = "items (rp_world (st_rpc st))"
  have w': "\<not> closed w" "items w = enqueue i ?q"
    using queue_insert [OF q _ w] inv by (auto simp: stream_inv_def)
  from inv p obtain walked where walked: "leaves @ [SyncMarker] = walked @ i # rest"
      "set walked \<subseteq> set (inserted es)" "SyncMarker \<notin> set (inserted es)"
    by (auto simp: stream_inv_def)
  have rest: "rest = []" "walked = leaves" if "i = SyncMarker"
    using walked(1) sync that by (auto simp: append_eq_append_conv2 append_eq_Cons_conv Cons_eq_append_conv)
  have acc: "accounted out ?q (inserted es)" using inv by (simp add: stream_inv_def)
  have "sync_after leaves (map fst (out @ enqueue i ?q))"
  proof (rule sync_after_enqueue)
    show "sync_after leaves (map fst (out @ ?q))" using inv by (simp add: stream_inv_def)
    show "SyncMarker \<notin> fst ` set (out @ ?q) \<and> set leaves \<subseteq> fst ` set (out @ ?q)" if "i = SyncMarker"
      using acc walked(2,3) rest(2) [OF that] by (simp add: accounted_def)
  qed
  moreover have "\<exists>v. leaves @ [SyncMarker] = v @ rest \<and> set v \<subseteq> set (inserted (es @ [Walked i])) \<and>
      (SyncMarker \<in> set (inserted (es @ [Walked i])) \<longrightarrow> rest = [])"
    using walked rest(1) by (intro exI [of _ "walked @ [i]"]) auto
  ultimately show ?thesis
    using inv accounted_insert [OF acc, of i] w' by (simp add: stream_inv_def st')
qed

lemma stream_update_inv:
  assumes q: "coalescing_queue ops items closed" and inv: "stream_inv items closed c rp leaves es out st"
    and w: "matchClient_Update ops (LeafItem v) (st_match st) (rp_world (st_rpc st)) = (mc, w)"
    and st': "st' = st\<lparr>st_match := mc, st_rpc := (st_rpc st)\<lparr>rp_world := w\<rparr>\<rparr>"
  shows "stream_inv items closed c rp leaves (es @ [Updated v]) out st'"
proof -
  let ?q = "items (rp_world (st_rpc st))"
  obtain e where "w_Insert ops (LeafItem v) (rp_world (st_rpc st)) = (e, w)" "mc = st_match st"
    using inv w by (auto simp: stream_inv_def matchClient_Update_def Let_def split: prod.splits)
  with queue_insert [OF q _ this(1)] inv
  have w': "\<not> closed w" "items w = enqueue (LeafItem v) ?q" "mc = st_match st" by (auto simp: stream_inv_def)
  have acc: "accounted out ?q (inserted es)" using inv by (simp add: stream_inv_def)
  have "sync_after leaves (map fst (out @ enqueue (LeafItem v) ?q))"
    by (rule sync_after_enqueue) (use inv in \<open>simp_all add: stream_inv_def\<close>)
  with inv accounted_insert [OF acc, of "LeafItem v"] w' show ?thesis
    by (auto simp: stream_inv_def st')
qed

lemma stream_send_inv:
  assumes q: "coalescing_queue ops items closed" and inv: "stream_inv items closed c rp leaves es out st"
    and ok: "\<And>i. i \<in> set (inserted es) \<Longrightarrow> answerable lib s cm i"
    and ne: "items (rp_world (st_rpc st)) \<noteq> []"
    and r: "send_round s ops lib cm c (st_rpc st) = Done (go_on, rp')"
    and st': "st' = st\<lparr>st_running := go_on, st_rpc := rp'\<rparr>"
  shows "\<exists>out. stream_inv items closed c rp leaves (es @ [Taken]) out st'"
proof -
  from ne obtain i d xs where x: "items (rp_world (st_rpc st)) = (i, d) # xs"
    by (cases "items (rp_world (st_rpc st))") auto
  have acc: "accounted out ((i, d) # xs) (inserted es)" using inv x by (simp add: stream_inv_def)
  from ok [OF accounted_item [OF this]] have "answerable lib s cm i" .
  note e = send_round_next [OF q x this r]
  have "stream_inv items closed c rp leaves (es @ [Taken]) (out @ [(i, d)]) st'"
    using inv e x acc by (simp add: stream_inv_def accounted_take st')
  then show ?thesis by blast
qed

lemma stream_run_inv:
  assumes q: "coalescing_queue ops items closed" and sync: "SyncMarker \<notin> set leaves"
    and "stream_run s ops items lib cm c st0 es st" and "stream_inv items closed c rp leaves [] [] st0"
    and "\<And>i. i \<in> set (inserted es) \<Longrightarrow> answerable lib s cm i"
  shows "\<exists>out. stream_inv items closed c rp leaves es out st"
  using assms(3,5)
proof (induction rule: stream_run.induct)
  case start
  from assms(4) show ?case by blast
next
  case (step es st e st')
  then obtain out where inv: "stream_inv items closed c rp leaves es out st" by fastforce
  have ok: "answerable lib s cm i" if "i \<in> set (inserted es)" for i using step.prems that by simp
  from step.hyps(2) show ?case
  proof (cases rule: stream_step.cases)
    case (walk i rest w)
    from stream_walk_inv [OF q inv sync walk(3,4,2)] walk(1) show ?thesis by blast
  next
    case (update v mc w)
    from stream_update_inv [OF q inv update(3,2)] update(1) show ?thesis by blast
  next
    case (send go_on rp')
    from stream_send_inv [OF q inv ok send(4,5,2)] send(1) show ?thesis by blast
  qed
qed

text \<open>While the queue holds an item, the sender can send it.\<close>

lemma stream_can_send:
  assumes q: "coalescing_queue ops items closed" and inv: "stream_inv items closed c rp leaves es out st"
    and ok: "\<And>i. i \<in> set (inserted es) \<Longrightarrow> answerable lib s cm i" and "items (rp_world (st_rpc st)) \<noteq> []"
  shows "\<exists>st'. stream_step s ops items lib cm c Taken st st'"
proof -
  from assms(4) obtain i d xs where x: "items (rp_world (st_rpc st)) = (i, d) # xs"
    by (cases "items (rp_world (st_rpc st))") auto
  then have "accounted out ((i, d) # xs) (inserted es)" using inv by (simp add: stream_inv_def)
  from ok [OF accounted_item [OF this]] have a: "answerable lib s cm i" .
  obtain go_on rp' where "send_round s ops lib cm c (st_rpc st) = Done (go_on, rp')"
    by (rule send_round_can [OF q x a])
  with inv assms(4) stream_step.send show ?thesis by (metis stream_inv_def)
qed



end
