(* ===== verification/Polling.thy ===== *)
theory Polling
  imports Streaming
begin

text \<open>
  A POLL subscription (\<open>processPollingSubscription\<close> in \<open>gateway/server/server.go\<close>): the
  goroutine walks the cache once at the start and once for every further message of the client,
  while the sender sends what is in the queue. The steps come in any order.
\<close>

section \<open>The two goroutines\<close>

text \<open>
  \<open>pl_walk\<close> is what the current walk has still to insert; \<open>pl_active\<close> says that the goroutine
  of the polls has not returned. The cache changes between the polls, so a walk may find anything
  (\<open>visits\<close>); with \<open>UpdatesOnly\<close> it finds nothing. Its queries and insertions do not fail here: a
  failure closes the queue and ends the RPC, as in \<open>processSubscription\<close>.
\<close>

record 'w polling =
  pl_walk :: "item list"
  pl_active :: bool
  pl_running :: bool
  pl_rpc :: "'w rpc"

datatype poll_event =
    Queued item
  | Polled "item list"
  | PollsEnd
  | Sent

inductive poll_step :: "'w server \<Rightarrow> 'w rpc_ops \<Rightarrow> ('w \<Rightarrow> (item \<times> uint32) list) \<Rightarrow> path_lib \<Rightarrow> bool \<Rightarrow> stream_client \<Rightarrow>
    poll_event \<Rightarrow> 'w polling \<Rightarrow> 'w polling \<Rightarrow> bool" for s ops items lib cm c where
  walk: "pl_walk st = i # rest \<Longrightarrow> w_Insert ops i (rp_world (pl_rpc st)) = (None, w) \<Longrightarrow>
    poll_step s ops items lib cm c (Queued i) st
      (st\<lparr>pl_walk := rest, pl_rpc := (pl_rpc st)\<lparr>rp_world := w\<rparr>\<rparr>)"
| closed: "pl_walk st = [] \<Longrightarrow> pl_active st \<Longrightarrow> w_IsClosed ops (rp_world (pl_rpc st)) \<Longrightarrow>
    poll_step s ops items lib cm c PollsEnd st (st\<lparr>pl_active := False\<rparr>)"
| poll: "pl_walk st = [] \<Longrightarrow> pl_active st \<Longrightarrow> \<not> w_IsClosed ops (rp_world (pl_rpc st)) \<Longrightarrow>
    w_Recv ops (rp_world (pl_rpc st)) = (Received sr, w) \<Longrightarrow>
    poll_step s ops items lib cm c (Polled (queued_leaves visits lib c)) st
      (st\<lparr>pl_walk := queued_leaves visits lib c @ [SyncMarker], pl_rpc := (pl_rpc st)\<lparr>rp_world := w\<rparr>\<rparr>)"
| eof: "pl_walk st = [] \<Longrightarrow> pl_active st \<Longrightarrow> \<not> w_IsClosed ops (rp_world (pl_rpc st)) \<Longrightarrow>
    w_Recv ops (rp_world (pl_rpc st)) = (RecvEOF, w) \<Longrightarrow>
    poll_step s ops items lib cm c PollsEnd st
      (st\<lparr>pl_active := False, pl_rpc := (pl_rpc st)\<lparr>rp_world := w\<rparr>\<rparr>)"
| fail: "pl_walk st = [] \<Longrightarrow> pl_active st \<Longrightarrow> \<not> w_IsClosed ops (rp_world (pl_rpc st)) \<Longrightarrow>
    w_Recv ops (rp_world (pl_rpc st)) = (RecvError e, w) \<Longrightarrow>
    poll_step s ops items lib cm c PollsEnd st
      (st\<lparr>pl_active := False, pl_rpc := put_err (Some (Failure e)) ((pl_rpc st)\<lparr>rp_world := w\<rparr>)\<rparr>)"
| send: "pl_running st \<Longrightarrow> items (rp_world (pl_rpc st)) \<noteq> [] \<Longrightarrow>
    send_round s ops lib cm c (pl_rpc st) = Done (go_on, rp') \<Longrightarrow>
    poll_step s ops items lib cm c Sent st (st\<lparr>pl_running := go_on, pl_rpc := rp'\<rparr>)"

inductive_cases poll_stepE: "poll_step s ops items lib cm c e st st'"

inductive poll_run :: "'w server \<Rightarrow> 'w rpc_ops \<Rightarrow> ('w \<Rightarrow> (item \<times> uint32) list) \<Rightarrow> path_lib \<Rightarrow> bool \<Rightarrow> stream_client \<Rightarrow>
    'w polling \<Rightarrow> poll_event list \<Rightarrow> 'w polling \<Rightarrow> bool" for s ops items lib cm c st0 where
  start: "poll_run s ops items lib cm c st0 [] st0"
| step: "poll_run s ops items lib cm c st0 es st \<Longrightarrow> poll_step s ops items lib cm c e st st' \<Longrightarrow>
    poll_run s ops items lib cm c st0 (es @ [e]) st'"

definition poll_start :: "item list \<Rightarrow> 'w rpc \<Rightarrow> 'w polling" where
  "poll_start leaves rp =
     \<lparr>pl_walk = leaves @ [SyncMarker], pl_active = True, pl_running = True, pl_rpc = rp\<rparr>"

text \<open>The walks that polls have started.\<close>

fun poll_walks :: "poll_event list \<Rightarrow> item list list" where
  "poll_walks [] = []"
| "poll_walks (Polled leaves # es) = leaves # poll_walks es"
| "poll_walks (e # es) = poll_walks es"

lemma poll_walks_append [simp]: "poll_walks (es @ fs) = poll_walks es @ poll_walks fs"
  by (induction es rule: poll_walks.induct) auto

text \<open>A message of the client does not touch the queue.\<close>

definition receiving_apart :: "'w rpc_ops \<Rightarrow> ('w \<Rightarrow> (item \<times> uint32) list) \<Rightarrow> ('w \<Rightarrow> bool) \<Rightarrow> bool" where
  "receiving_apart ops items closed \<longleftrightarrow>
     (\<forall>w. items (snd (w_Recv ops w)) = items w \<and> closed (snd (w_Recv ops w)) = closed w)"

text \<open>
  A client that takes turns: it polls again when it has got as many sync responses as there were
  walks, the first one included.
\<close>

abbreviation syncs :: "subscribe_response list \<Rightarrow> nat" where
  "syncs rs \<equiv> count_list rs (ResponseSync True)"

inductive patient_run :: "'w server \<Rightarrow> 'w rpc_ops \<Rightarrow> ('w \<Rightarrow> (item \<times> uint32) list) \<Rightarrow> path_lib \<Rightarrow> bool \<Rightarrow> stream_client \<Rightarrow>
    'w polling \<Rightarrow> poll_event list \<Rightarrow> 'w polling \<Rightarrow> bool" for s ops items lib cm c st0 where
  start: "patient_run s ops items lib cm c st0 [] st0"
| step: "patient_run s ops items lib cm c st0 es st \<Longrightarrow> poll_step s ops items lib cm c e st st' \<Longrightarrow>
    ((\<exists>leaves. e = Polled leaves) \<longrightarrow>
      syncs (rp_sent (pl_rpc st)) = syncs (rp_sent (pl_rpc st0)) + length (poll_walks es) + 1) \<Longrightarrow>
    patient_run s ops items lib cm c st0 (es @ [e]) st'"

section \<open>The answers to the polls\<close>

lemma syncs_answer: "syncs (answer acl x) = (if fst x = SyncMarker then 1 else 0)"
  by (cases "(acl, x)" rule: answer.cases) auto

lemma syncs_answers: "syncs (concat (map (answer acl) xs)) = count_list (map fst xs) SyncMarker"
  by (induction xs) (simp_all add: syncs_answer)

lemma complete_answer_syncs:
  "complete_answer leaves out \<Longrightarrow> SyncMarker \<notin> set leaves \<Longrightarrow> count_list (map fst out) SyncMarker = 1"
  by (auto simp: complete_answer_def count_list_0_iff)

lemma complete_answers_syncs:
  "list_all2 complete_answer walks outs \<Longrightarrow> SyncMarker \<notin> \<Union> (set ` set walks) \<Longrightarrow>
    count_list (map fst (concat outs)) SyncMarker = length walks"
  by (induction rule: list_all2_induct) (simp_all add: complete_answer_syncs)

text \<open>The sync marker is the last of a walk, so when it has been taken the queue is empty.\<close>

lemma sync_last_taken:
  assumes "sync_last (out @ q)" and "count_list (map fst out) SyncMarker \<noteq> 0"
  shows "q = []"
proof (rule ccontr)
  assume "q \<noteq> []"
  with assms(1) have "SyncMarker \<notin> fst ` set out"
    by (cases q rule: rev_cases) (auto simp: sync_last_def simp flip: append_assoc)
  with assms(2) show False by (simp add: count_list_0_iff)
qed

text \<open>
  The invariant: \<open>outs\<close> are the answers to the walks that are over, \<open>out\<close> what has been taken
  of the walk after them.
\<close>

definition poll_inv :: "('w \<Rightarrow> (item \<times> uint32) list) \<Rightarrow> ('w \<Rightarrow> bool) \<Rightarrow> stream_client \<Rightarrow> 'w rpc \<Rightarrow>
    item list list \<Rightarrow> (item \<times> uint32) list list \<Rightarrow> item list \<Rightarrow> (item \<times> uint32) list \<Rightarrow> item list \<Rightarrow>
    'w polling \<Rightarrow> bool" where
  "poll_inv items closed c rp walks outs leaves out ins st \<longleftrightarrow>
     list_all2 complete_answer walks outs \<and> SyncMarker \<notin> \<Union> (set ` set (walks @ [leaves])) \<and>
     filling leaves out (items (rp_world (pl_rpc st))) ins (pl_walk st) \<and>
     \<not> closed (rp_world (pl_rpc st)) \<and> pl_running st \<and>
     rp_sent (pl_rpc st) = rp_sent rp @ concat (map (answer (sc_acl c)) (concat outs @ out))"

lemma poll_walk_inv:
  assumes q: "coalescing_queue ops items closed" and inv: "poll_inv items closed c rp walks outs leaves out ins st"
    and p: "pl_walk st = i # rest" and w: "w_Insert ops i (rp_world (pl_rpc st)) = (None, w)"
    and st': "st' = st\<lparr>pl_walk := rest, pl_rpc := (pl_rpc st)\<lparr>rp_world := w\<rparr>\<rparr>"
  shows "poll_inv items closed c rp walks outs leaves out (ins @ [i]) st'"
proof -
  have "\<not> closed w" "items w = enqueue i (items (rp_world (pl_rpc st)))"
    using queue_insert [OF q _ w] inv by (auto simp: poll_inv_def)
  with inv p show ?thesis by (auto simp: poll_inv_def st' intro: filling_insert)
qed

lemma poll_message_inv:
  assumes "receiving_apart ops items closed" and "poll_inv items closed c rp walks outs leaves out ins st"
    and "w_Recv ops (rp_world (pl_rpc st)) = (r, w)" and "pl_walk st' = pl_walk st" "pl_running st' = pl_running st"
    and "rp_world (pl_rpc st') = w" "rp_sent (pl_rpc st') = rp_sent (pl_rpc st)"
  shows "poll_inv items closed c rp walks outs leaves out ins st'"
  using assms(1) [unfolded receiving_apart_def, rule_format, of "rp_world (pl_rpc st)"] assms(2-)
  by (simp add: poll_inv_def)

text \<open>A poll that comes after the sync response starts from an empty queue.\<close>

lemma poll_again_inv:
  assumes apart: "receiving_apart ops items closed" and inv: "poll_inv items closed c rp walks outs leaves out ins st"
    and "pl_walk st = []" and r: "w_Recv ops (rp_world (pl_rpc st)) = (Received sr, w)"
    and patient: "syncs (rp_sent (pl_rpc st)) = syncs (rp_sent rp) + length walks + 1"
    and "SyncMarker \<notin> set new"
    and st': "st' = st\<lparr>pl_walk := new @ [SyncMarker], pl_rpc := (pl_rpc st)\<lparr>rp_world := w\<rparr>\<rparr>"
  shows "poll_inv items closed c rp (walks @ [leaves]) (outs @ [out]) new [] [] st'"
proof -
  let ?q = "items (rp_world (pl_rpc st))"
  from inv \<open>pl_walk st = []\<close> have f: "list_all2 complete_answer walks outs" "filling leaves out ?q ins []"
    "SyncMarker \<notin> \<Union> (set ` set walks)" "SyncMarker \<notin> set leaves"
    "rp_sent (pl_rpc st) = rp_sent rp @ concat (map (answer (sc_acl c)) (concat outs @ out))"
    by (simp_all add: poll_inv_def)
  have "count_list (map fst (concat outs @ out)) SyncMarker = length walks + 1"
    using patient unfolding f(5) by (simp add: syncs_answers del: map_append concat_append)
  then have "count_list (map fst out) SyncMarker = 1"
    using complete_answers_syncs [OF f(1,3)] by simp
  then have empty: "?q = []"
    using f(2) by (intro sync_last_taken [of out]) (simp_all add: filling_def)
  with f(2) have "filling leaves out [] ins []" by simp
  from filling_answered [OF this f(4)] have "list_all2 complete_answer (walks @ [leaves]) (outs @ [out])"
    using f(1) by (simp add: list_all2_appendI)
  moreover have "items w = []" "closed w = closed (rp_world (pl_rpc st))"
    using apart [unfolded receiving_apart_def, rule_format, of "rp_world (pl_rpc st)"] r empty by simp_all
  ultimately show ?thesis using inv f(3,4) \<open>SyncMarker \<notin> set new\<close> by (simp add: poll_inv_def st')
qed

lemma poll_send_inv:
  assumes q: "coalescing_queue ops items closed" and inv: "poll_inv items closed c rp walks outs leaves out ins st"
    and ok: "\<And>i. i \<in> set leaves \<Longrightarrow> answerable lib s cm i" and ne: "items (rp_world (pl_rpc st)) \<noteq> []"
    and r: "send_round s ops lib cm c (pl_rpc st) = Done (go_on, rp')"
    and st': "st' = st\<lparr>pl_running := go_on, pl_rpc := rp'\<rparr>"
  shows "\<exists>out. poll_inv items closed c rp walks outs leaves out ins st'"
proof -
  from ne obtain i d xs where x: "items (rp_world (pl_rpc st)) = (i, d) # xs"
    by (cases "items (rp_world (pl_rpc st))") auto
  have f: "filling leaves out ((i, d) # xs) ins (pl_walk st)" using inv x by (simp add: poll_inv_def)
  from filling_item [OF this] have "answerable lib s cm i" using ok by auto
  note e = send_round_next [OF q x this r]
  have "poll_inv items closed c rp walks outs leaves (out @ [(i, d)]) ins st'"
    using inv e f by (simp add: poll_inv_def filling_take st')
  then show ?thesis by blast
qed

lemma patient_run_inv:
  assumes q: "coalescing_queue ops items closed" and apart: "receiving_apart ops items closed"
    and run: "patient_run s ops items lib cm c (poll_start first rp) es st"
    and "items (rp_world rp) = []" "\<not> closed (rp_world rp)" "SyncMarker \<notin> set first"
    and "\<And>leaves i. leaves \<in> set (first # poll_walks es) \<Longrightarrow> i \<in> set leaves \<Longrightarrow> answerable lib s cm i"
  shows "\<exists>walks outs leaves out ins. first # poll_walks es = walks @ [leaves] \<and>
    poll_inv items closed c rp walks outs leaves out ins st"
  using run assms(7)
proof (induction rule: patient_run.induct)
  case start
  have "poll_inv items closed c rp [] [] first [] [] (poll_start first rp)"
    using assms(4-6) by (simp add: poll_inv_def poll_start_def)
  then show ?case by (metis append_Nil poll_walks.simps(1))
next
  case (step es st e st')
  then obtain walks outs leaves out ins where walks: "first # poll_walks es = walks @ [leaves]"
    and inv: "poll_inv items closed c rp walks outs leaves out ins st" by fastforce
  have ok: "answerable lib s cm i" if "i \<in> set leaves" for i
  proof (rule step.prems [of leaves])
    have "leaves \<in> set (first # poll_walks es)" by (simp only: walks) simp
    then show "leaves \<in> set (first # poll_walks (es @ [e]))" by auto
  qed (rule that)
  have n: "length (poll_walks es) = length walks" using arg_cong [OF walks, of length] by simp
  note same = poll_message_inv [OF apart inv]
  from step.hyps(2) show ?case
  proof (cases rule: poll_step.cases)
    case (walk i rest w)
    from poll_walk_inv [OF q inv walk(3,4,2)] walk(1) walks show ?thesis by fastforce
  next
    case closed
    with inv have "poll_inv items closed c rp walks outs leaves out ins st'" by (simp add: poll_inv_def)
    with closed(1) walks show ?thesis by fastforce
  next
    case (poll sr w visits)
    have "syncs (rp_sent (pl_rpc st)) = syncs (rp_sent rp) + length walks + 1"
      using step.hyps(3) poll(1) n by (simp add: poll_start_def)
    from poll_again_inv [OF apart inv poll(3,6) this queued_leaves_no_sync poll(2)] poll(1) walks
    show ?thesis by fastforce
  next
    case (eof w)
    with same [OF eof(6), of st'] walks show ?thesis by fastforce
  next
    case (fail e w)
    with same [OF fail(6), of st'] walks show ?thesis by (fastforce simp: put_err_def)
  next
    case (send go_on rp')
    from poll_send_inv [OF q inv ok send(4,5,2)] send(1) walks show ?thesis by fastforce
  qed
qed


text \<open>A client that polls again after the sync response; \<open>poll_path\<close> is a run step by step.\<close>

lemma list_ops_receiving: "receiving_apart list_ops lw_queue lw_closed"
  by (simp add: receiving_apart_def list_ops_def split: list.splits)

abbreviation example_poll_step :: "poll_event \<Rightarrow> list_world polling \<Rightarrow> list_world polling \<Rightarrow> bool" where
  "example_poll_step \<equiv> poll_step example_server list_ops lw_queue simple_paths False example_client"

definition dev_leaf :: item where
  "dev_leaf = LeafItem (Some (NotificationValue (Some (note_for ''dev''))))"

definition dev_update :: subscribe_response where
  "dev_update = ResponseUpdate (Some (note_for ''dev''))"

definition example_poll :: "item list \<Rightarrow> (item \<times> uint32) list \<Rightarrow> recv_result list \<Rightarrow> subscribe_response list \<Rightarrow>
    list_world polling" where
  "example_poll walk q requests sent = \<lparr>pl_walk = walk, pl_active = True, pl_running = True,
     pl_rpc = (new_rpc (example_world\<lparr>lw_queue := q, lw_requests := requests\<rparr>))\<lparr>rp_sent := sent\<rparr>\<rparr>"

lemma example_poll_queued:
  "example_poll_step (Queued i) (example_poll (i # walk) q rs sent) (example_poll walk (enqueue i q) rs sent)"
  using poll_step.walk [of "example_poll (i # walk) q rs sent" i walk list_ops
      "example_world\<lparr>lw_queue := enqueue i q, lw_requests := rs\<rparr>"]
  by (simp add: example_poll_def example_defs)

lemma enqueue_examples:
  "enqueue dev_leaf [] = [(dev_leaf, 0)]" "enqueue SyncMarker [] = [(SyncMarker, 0)]"
  "enqueue SyncMarker [(dev_leaf, 0)] = [(dev_leaf, 0), (SyncMarker, 0)]"
  "enqueue dev_leaf [(SyncMarker, 0)] = [(SyncMarker, 0), (dev_leaf, 0)]"
  "enqueue SyncMarker [(SyncMarker, 0), (dev_leaf, 0)] = [(SyncMarker, 1), (dev_leaf, 0)]"
  by (simp_all add: dev_leaf_def)

lemmas example_queued =
  example_poll_queued [of dev_leaf _ "[]", unfolded enqueue_examples]
  example_poll_queued [of SyncMarker _ "[]", unfolded enqueue_examples]
  example_poll_queued [of SyncMarker _ "[(dev_leaf, 0)]", unfolded enqueue_examples]
  example_poll_queued [of dev_leaf _ "[(SyncMarker, 0)]", unfolded enqueue_examples]
  example_poll_queued [of SyncMarker _ "[(SyncMarker, 0), (dev_leaf, 0)]", unfolded enqueue_examples]

lemma dev_leaves: "queued_leaves (\<lambda>p. [Some (NotificationValue (Some (note_for ''dev'')))]) simple_paths example_client = [dev_leaf]"
  by (simp add: queued_leaves_def dev_leaf_def example_defs map_filter_simps)

lemma example_poll_polled:
  "example_poll_step (Polled [dev_leaf]) (example_poll [] q (Received sr # rs) sent)
     (example_poll [dev_leaf, SyncMarker] q rs sent)"
  using poll_step.poll [of "example_poll [] q (Received sr # rs) sent" list_ops sr
      "example_world\<lparr>lw_queue := q, lw_requests := rs\<rparr>" example_server lw_queue simple_paths False example_client
      "\<lambda>p. [Some (NotificationValue (Some (note_for ''dev'')))]"]
  unfolding dev_leaves by (simp add: example_poll_def example_defs)

lemma example_poll_sync:
  "example_poll_step Sent (example_poll walk ((SyncMarker, d) # q) rs sent)
     (example_poll walk q rs (sent @ [ResponseSync True]))"
proof -
  have "send_round example_server list_ops simple_paths False example_client
      (pl_rpc (example_poll walk ((SyncMarker, d) # q) rs sent)) =
      Done (True, pl_rpc (example_poll walk q rs (sent @ [ResponseSync True])))"
    by (simp add: example_poll_def sender_defs example_defs)
  from poll_step.send [where items = lw_queue, OF _ _ this] show ?thesis
    by (simp add: example_poll_def example_defs)
qed

lemma example_poll_sent:
  "example_poll_step Sent (example_poll walk ((dev_leaf, 0) # q) rs sent)
     (example_poll walk q rs (sent @ [dev_update]))"
proof -
  have "send_round example_server list_ops simple_paths False example_client
      (pl_rpc (example_poll walk ((dev_leaf, 0) # q) rs sent)) =
      Done (True, pl_rpc (example_poll walk q rs (sent @ [dev_update])))"
    by (simp add: example_poll_def dev_leaf_def dev_update_def sender_defs example_defs)
  from poll_step.send [where items = lw_queue, OF _ _ this] show ?thesis
    by (simp add: example_poll_def example_defs)
qed

text \<open>What a client gets that waits for the sync response before it polls again.\<close>

lemma example_patient_run:
  "patient_run example_server list_ops lw_queue simple_paths False example_client
     (example_poll [dev_leaf, SyncMarker] [] [Received sr] [])
     [Queued dev_leaf, Queued SyncMarker, Sent, Sent, Polled [dev_leaf], Queued dev_leaf, Sent, Queued SyncMarker, Sent]
     (example_poll [] [] [] [dev_update, ResponseSync True, dev_update, ResponseSync True])"
proof -
  let ?run = "patient_run example_server list_ops lw_queue simple_paths False example_client
     (example_poll [dev_leaf, SyncMarker] [] [Received sr] [])"
  have first: "?run [Queued dev_leaf, Queued SyncMarker, Sent, Sent]
      (example_poll [] [] [Received sr] [dev_update, ResponseSync True])"
    by (rule patient_run.step [OF patient_run.step [OF patient_run.step [OF patient_run.step [OF patient_run.start
        example_queued(1) [where sent = "[]"]] example_queued(3)] example_poll_sent] example_poll_sync, simplified])
  have "?run ([Queued dev_leaf, Queued SyncMarker, Sent, Sent] @ [Polled [dev_leaf]])
      (example_poll [dev_leaf, SyncMarker] [] [] [dev_update, ResponseSync True])"
    by (rule patient_run.step [OF first example_poll_polled]) (simp add: example_poll_def dev_update_def)
  from patient_run.step [OF patient_run.step [OF patient_run.step [OF patient_run.step [OF this
      example_queued(1)] example_poll_sent] example_queued(2)] example_poll_sync]
  show ?thesis by simp
qed


text \<open>
  A client that polls again before it has got the sync response gets one for both polls: the
  marker of the second walk is coalesced with the first, and leaves of the second may follow it.
\<close>

lemma impatient_poll_one_sync:
  "poll_run example_server list_ops lw_queue simple_paths False example_client
     (example_poll [dev_leaf, SyncMarker] [] [Received sr] [])
     [Queued dev_leaf, Queued SyncMarker, Sent, Polled [dev_leaf], Queued dev_leaf, Queued SyncMarker, Sent, Sent]
     (example_poll [] [] [] [dev_update, ResponseSync True, dev_update])"
proof -
  let ?run = "poll_run example_server list_ops lw_queue simple_paths False example_client
     (example_poll [dev_leaf, SyncMarker] [] [Received sr] [])"
  have "?run [Queued dev_leaf, Queued SyncMarker, Sent] (example_poll [] [(SyncMarker, 0)] [Received sr] [dev_update])"
    by (rule poll_run.step [OF poll_run.step [OF poll_run.step [OF poll_run.start
        example_queued(1) [where sent = "[]"]] example_queued(3)] example_poll_sent, simplified])
  from poll_run.step [OF poll_run.step [OF poll_run.step [OF poll_run.step [OF poll_run.step [OF this
      example_poll_polled] example_queued(4)] example_queued(5)] example_poll_sync] example_poll_sent]
  show ?thesis by simp
qed

end
