(* ===== verification/Configuration.thy ===== *)
theory Configuration
  imports GnmiTypes
begin

text \<open>
  \<open>gateway/configuration/config.go\<close>: the configuration records, their defaults, and reading
  a configuration file over a configuration. The logger is left out. The file system and the
  JSON decoder are parameters: \<open>read_file\<close> answers the bytes of a cleaned path or an error, and
  \<open>decode\<close> answers an error, if any, with the configuration it has filled in so far.
  A \<open>time.Duration\<close> is a signed 64-bit number of nanoseconds.
\<close>

type_synonym duration = int64

definition time_Second :: duration where
  "time_Second = 1000000000"

record exporters_config =
  ec_Enabled :: "string list"
  ec_KafkaBatchBytes :: int64
  ec_KafkaBatchSize :: int64
  ec_KafkaBatchTimeout :: duration
  ec_KafkaBrokers :: "string list"
  ec_KafkaLogging :: bool
  ec_KafkaTopic :: string
  ec_InfluxDBTarget :: string
  ec_InfluxDBOrg :: string
  ec_InfluxDBBucket :: string
  ec_InfluxDBToken :: string
  ec_InfluxDBBatchSize :: uint64

record target_loaders_config =
  tl_Enabled :: "string list"
  tl_JSONFile :: string
  tl_JSONFileReloadInterval :: duration
  tl_NetBoxAPIKey :: string
  tl_NetBoxDeviceGNMIPort :: int64
  tl_NetBoxDeviceUsername :: string
  tl_NetBoxDevicePassword :: string
  tl_NetBoxHost :: string
  tl_NetBoxIncludeTag :: string
  tl_NetBoxReloadInterval :: duration
  tl_NetBoxSubscribePaths :: "string list"
  tl_SimpleFile :: string
  tl_SimpleFileReloadInterval :: duration

text \<open>
  \<open>spectator.Config\<close> with the fields the gateway sets. TLS material is opaque: its names are kept.
\<close>

record spectator_config =
  sp_Frequency :: duration
  sp_Timeout :: duration
  sp_Uri :: string
  sp_BatchSize :: int64
  sp_CommonTags :: "(string, string) gomap"

record gateway_config =
  gc_ClientTLSConfig :: "string option"
  gc_EnableGNMIServer :: bool
  gc_Exporters :: "exporters_config option"
  gc_GatewayTransitionBufferSize :: uint64
  gc_LogCaller :: bool
  gc_OpenConfigDirectory :: string
  gc_ServerAddress :: string
  gc_ServerPort :: int64
  gc_ServerListenAddress :: string
  gc_ServerListenPort :: int64
  gc_ServerTLSCreds :: "string option"
  gc_ServerTLSCert :: string
  gc_ServerTLSKey :: string
  gc_StatsSpectatorConfig :: "spectator_config option"
  gc_StatsSpectatorURI :: string
  gc_TargetLoaders :: "target_loaders_config option"
  gc_TargetDialTimeout :: duration
  gc_TargetLimit :: int64
  gc_UpdateRejections :: "path_elem list list"
  gc_ZookeeperHosts :: "string list"
  gc_ZookeeperPrefix :: string
  gc_ZookeeperTimeout :: duration

definition zero_exporters_config :: exporters_config where
  "zero_exporters_config =
     \<lparr>ec_Enabled = [], ec_KafkaBatchBytes = 0, ec_KafkaBatchSize = 0, ec_KafkaBatchTimeout = 0,
      ec_KafkaBrokers = [], ec_KafkaLogging = False, ec_KafkaTopic = [], ec_InfluxDBTarget = [],
      ec_InfluxDBOrg = [], ec_InfluxDBBucket = [], ec_InfluxDBToken = [], ec_InfluxDBBatchSize = 0\<rparr>"

definition zero_target_loaders_config :: target_loaders_config where
  "zero_target_loaders_config =
     \<lparr>tl_Enabled = [], tl_JSONFile = [], tl_JSONFileReloadInterval = 0, tl_NetBoxAPIKey = [],
      tl_NetBoxDeviceGNMIPort = 0, tl_NetBoxDeviceUsername = [], tl_NetBoxDevicePassword = [],
      tl_NetBoxHost = [], tl_NetBoxIncludeTag = [], tl_NetBoxReloadInterval = 0,
      tl_NetBoxSubscribePaths = [], tl_SimpleFile = [], tl_SimpleFileReloadInterval = 0\<rparr>"

definition zero_gateway_config :: gateway_config where
  "zero_gateway_config =
     \<lparr>gc_ClientTLSConfig = None, gc_EnableGNMIServer = False, gc_Exporters = None,
      gc_GatewayTransitionBufferSize = 0, gc_LogCaller = False, gc_OpenConfigDirectory = [],
      gc_ServerAddress = [], gc_ServerPort = 0, gc_ServerListenAddress = [],
      gc_ServerListenPort = 0, gc_ServerTLSCreds = None, gc_ServerTLSCert = [],
      gc_ServerTLSKey = [], gc_StatsSpectatorConfig = None, gc_StatsSpectatorURI = [],
      gc_TargetLoaders = None, gc_TargetDialTimeout = 0, gc_TargetLimit = 0,
      gc_UpdateRejections = [], gc_ZookeeperHosts = [], gc_ZookeeperPrefix = [],
      gc_ZookeeperTimeout = 0\<rparr>"

definition NewDefaultGatewayConfig :: gateway_config where
  "NewDefaultGatewayConfig =
     zero_gateway_config\<lparr>gc_Exporters := Some zero_exporters_config,
       gc_TargetLoaders := Some zero_target_loaders_config\<rparr>"

datatype config_error = ReadFileError string string | ParseConfigError string | NewConfigError config_error

text \<open>A duration below one second is taken for a number of seconds.\<close>

definition as_seconds :: "duration \<Rightarrow> duration" where
  "as_seconds d = (if int64_less d time_Second then d * time_Second else d)"

definition PopulateGatewayConfigFromFile ::
    "(string \<Rightarrow> string) \<Rightarrow> (string \<Rightarrow> string + string) \<Rightarrow>
     (gateway_config \<Rightarrow> string \<Rightarrow> string option \<times> gateway_config) \<Rightarrow>
     gateway_config \<Rightarrow> string \<Rightarrow> (config_error option \<times> gateway_config) outcome" where
  "PopulateGatewayConfigFromFile clean read_file decode config filePath =
     (let path = clean filePath in
      case read_file path of
        Inl err \<Rightarrow> Done (Some (ReadFileError path err), config)
      | Inr data \<Rightarrow>
          (case decode config data of
             (Some err, config) \<Rightarrow> Done (Some (ParseConfigError err), config)
           | (None, config) \<Rightarrow>
               let config = config\<lparr>gc_TargetDialTimeout := as_seconds (gc_TargetDialTimeout config)\<rparr> in
               bind_outcome (deref (gc_TargetLoaders config)) (\<lambda>loaders.
                 let loaders = loaders\<lparr>tl_JSONFileReloadInterval :=
                       as_seconds (tl_JSONFileReloadInterval loaders)\<rparr>;
                     config = config\<lparr>gc_TargetLoaders := Some loaders\<rparr>;
                     config = config\<lparr>gc_ZookeeperTimeout := as_seconds (gc_ZookeeperTimeout config)\<rparr>
                 in Done (None, config))))"

definition NewGatewayConfigFromFile ::
    "(string \<Rightarrow> string) \<Rightarrow> (string \<Rightarrow> string + string) \<Rightarrow>
     (gateway_config \<Rightarrow> string \<Rightarrow> string option \<times> gateway_config) \<Rightarrow>
     string \<Rightarrow> (config_error + gateway_config) outcome" where
  "NewGatewayConfigFromFile clean read_file decode filePath =
     bind_outcome (PopulateGatewayConfigFromFile clean read_file decode zero_gateway_config filePath)
       (\<lambda>(err, config). Done (case err of Some e \<Rightarrow> Inl (NewConfigError e) | None \<Rightarrow> Inr config))"

section \<open>Durations\<close>

lemma sint_time_Second: "sint time_Second = 1000000000"
  by (simp add: time_Second_def)

lemma sint_as_seconds:
  assumes "0 \<le> sint d"
  shows "sint (as_seconds d) = (if sint d < 1000000000 then sint d * 1000000000 else sint d)"
proof (cases "sint d < 1000000000")
  case True
  have "d * time_Second = of_int (sint d * 1000000000)"
    by (simp add: time_Second_def)
  then have "sint (d * time_Second) = sint (of_int (sint d * 1000000000) :: int64)"
    by simp
  also have "\<dots> = sint d * 1000000000"
    using assms True by (intro sint_of_int64) linarith+
  finally show ?thesis
    using True by (simp add: as_seconds_def int64_less_def sint_time_Second)
next
  case False
  then show ?thesis by (simp add: as_seconds_def int64_less_def sint_time_Second)
qed

lemma as_seconds_idem:
  assumes "0 \<le> sint d"
  shows "as_seconds (as_seconds d) = as_seconds d"
proof -
  have "0 \<le> sint (as_seconds d)" using assms by (simp add: sint_as_seconds)
  from sint_as_seconds [OF this] assms
  have "sint (as_seconds (as_seconds d)) = sint (as_seconds d)"
    by (auto simp: sint_as_seconds)
  then show ?thesis by (rule signed_word_eqI)
qed

definition proper_duration :: "duration \<Rightarrow> bool" where
  "proper_duration d \<longleftrightarrow> (d = 0 \<or> sint time_Second \<le> sint d) \<and> as_seconds d = d"

lemma proper_as_seconds: "0 \<le> sint d \<Longrightarrow> proper_duration (as_seconds d)"
proof -
  assume d: "0 \<le> sint d"
  have "sint d = 0 \<longleftrightarrow> d = 0" using signed_word_eqI [of d 0] by auto
  with d show ?thesis
    using sint_as_seconds [OF d] as_seconds_idem [OF d]
    by (auto simp: proper_duration_def sint_time_Second as_seconds_def)
qed

text \<open>
  A configuration file that is read without error leaves nonnegative durations usable: the
  dial timeout, the reload interval of the JSON loader and the Zookeeper timeout are each zero
  or at least one second, they do not overflow, and a second pass would not change them.
\<close>

theorem PopulateGatewayConfigFromFile_durations:
  assumes "PopulateGatewayConfigFromFile clean read_file decode config0 f = Done (None, config)"
    and "\<And>c data. decode config0 data = (None, c) \<Longrightarrow>
      0 \<le> sint (gc_TargetDialTimeout c) \<and> 0 \<le> sint (gc_ZookeeperTimeout c) \<and>
      (\<forall>l. gc_TargetLoaders c = Some l \<longrightarrow> 0 \<le> sint (tl_JSONFileReloadInterval l))"
  shows "proper_duration (gc_TargetDialTimeout config) \<and> proper_duration (gc_ZookeeperTimeout config) \<and>
    (\<exists>l. gc_TargetLoaders config = Some l \<and> proper_duration (tl_JSONFileReloadInterval l))"
proof -
  obtain data c l where d: "decode config0 data = (None, c)" and l: "gc_TargetLoaders c = Some l"
    and config: "config = c\<lparr>gc_TargetDialTimeout := as_seconds (gc_TargetDialTimeout c),
      gc_TargetLoaders := Some (l\<lparr>tl_JSONFileReloadInterval := as_seconds (tl_JSONFileReloadInterval l)\<rparr>),
      gc_ZookeeperTimeout := as_seconds (gc_ZookeeperTimeout c)\<rparr>"
    using assms(1)
    by (auto simp: PopulateGatewayConfigFromFile_def Let_def go_simps
        split: sum.splits prod.splits option.splits)
  from assms(2) [OF d] l show ?thesis by (simp add: config proper_as_seconds)
qed

theorem PopulateGatewayConfigFromFile_durations_witness:
  "\<exists>config. PopulateGatewayConfigFromFile (\<lambda>p. p) (\<lambda>_. Inr [])
      (\<lambda>c _. (None, c\<lparr>gc_ZookeeperTimeout := 5\<rparr>)) NewDefaultGatewayConfig ''c.json'' =
        Done (None, config) \<and>
      gc_ZookeeperTimeout config = 5000000000 \<and> proper_duration (gc_ZookeeperTimeout config)"
proof -
  let ?r = "PopulateGatewayConfigFromFile (\<lambda>p. p) (\<lambda>_. Inr [])
    (\<lambda>c _. (None, c\<lparr>gc_ZookeeperTimeout := 5\<rparr>)) NewDefaultGatewayConfig ''c.json''"
  obtain config where c: "?r = Done (None, config)" "gc_ZookeeperTimeout config = 5000000000"
    by (simp add: PopulateGatewayConfigFromFile_def NewDefaultGatewayConfig_def zero_gateway_config_def
        zero_target_loaders_config_def as_seconds_def time_Second_def int64_less_def)
  from PopulateGatewayConfigFromFile_durations [OF c(1)] c show ?thesis
    by (simp add: NewDefaultGatewayConfig_def zero_gateway_config_def zero_target_loaders_config_def)
qed

text \<open>
  Reading a configuration file into a new configuration panics exactly when the file is
  read and decoded without error but has no section for the target loaders.
\<close>

theorem NewGatewayConfigFromFile_panics_iff:
  "NewGatewayConfigFromFile clean read_file decode f = Panics NilDeref \<longleftrightarrow>
     (\<exists>data c. read_file (clean f) = Inr data \<and> decode zero_gateway_config data = (None, c) \<and>
        gc_TargetLoaders c = None)"
proof (cases "read_file (clean f)")
  case (Inl err)
  then show ?thesis
    by (simp add: NewGatewayConfigFromFile_def PopulateGatewayConfigFromFile_def Let_def)
next
  case (Inr data)
  show ?thesis
  proof (cases "decode zero_gateway_config data")
    case (Pair err c)
    with Inr show ?thesis
      by (cases err; cases "gc_TargetLoaders c")
         (simp_all add: NewGatewayConfigFromFile_def PopulateGatewayConfigFromFile_def Let_def)
  qed
qed

end
