(* ===== verification/Plugins.thy ===== *)
theory Plugins
  imports Configuration
begin

text \<open>
  The interface of the two registries of the gateway (\<open>loaders/loader.go\<close> and
  \<open>exporters/exporter.go\<close>): a map from names to constructors, with \<open>Register\<close> and \<open>New\<close>, and
  what \<open>StartGateway\<close> makes of it, the construction of the plugins enabled by name. A
  constructor may panic, when the part of the configuration it reads is nil.
\<close>

type_synonym 'p plugin_registry = "(string, gateway_config \<Rightarrow> 'p outcome) gomap"

locale name_registry =
  fixes register :: "string \<Rightarrow> (gateway_config \<Rightarrow> 'p outcome) \<Rightarrow> 'r \<Rightarrow> 'r"
    and new :: "'r \<Rightarrow> string \<Rightarrow> gateway_config \<Rightarrow> 'p option outcome"
    and none :: 'r
  assumes new_registered: "new (register n f r) n config = map_done Some (f config)"
    and new_other: "m \<noteq> n \<Longrightarrow> new (register n f r) m config = new r m config"
    and new_none: "new none n config = Done None"
begin

abbreviation "registered ps \<equiv> fold (\<lambda>(n, f). register n f) ps none"

lemma new_fold:
  "new (fold (\<lambda>(n, f). register n f) ps r) n config =
     (case map_of (rev ps) n of None \<Rightarrow> new r n config | Some f \<Rightarrow> map_done Some (f config))"
proof (induction ps arbitrary: r)
  case (Cons p ps)
  obtain m f where p: "p = (m, f)" by (cases p)
  show ?case
    using Cons.IH [of "register m f r"]
    by (cases "m = n") (auto simp: p new_registered new_other map_add_def split: option.splits)
qed simp

text \<open>The order of the registrations does not matter when the names are distinct.\<close>

lemma new_order:
  assumes "distinct (map fst ps)" and "set ps = set qs" and "distinct (map fst qs)"
  shows "new (registered ps) n config = new (registered qs) n config"
proof -
  have "map_of (rev ps) = map_of (rev qs)"
    using assms by (intro map_of_inject_set [THEN iffD2]) (simp_all add: rev_map [symmetric])
  then show ?thesis by (simp add: new_fold)
qed

lemma new_known:
  assumes "distinct (map fst ps)" and "(n, f) \<in> set ps"
  shows "new (registered ps) n config = map_done Some (f config)"
proof -
  have "map_of (rev ps) n = Some f"
    using assms by (intro map_of_is_SomeI) (simp_all add: rev_map [symmetric])
  then show ?thesis by (simp add: new_fold)
qed

lemma new_unknown: "n \<notin> fst ` set ps \<Longrightarrow> new (registered ps) n config = Done None"
  by (simp add: new_fold new_none map_of_eq_None_iff [THEN iffD2] split: option.split)

end

text \<open>
  The loops of \<open>StartGateway\<close> over the enabled names: \<open>Inl name\<close> is the first name without a
  constructor.
\<close>

fun resolve_enabled :: "(string \<Rightarrow> 'p option outcome) \<Rightarrow> string list \<Rightarrow> 'p list \<Rightarrow> (string + 'p list) outcome" where
  "resolve_enabled new [] ps = Done (Inr ps)"
| "resolve_enabled new (n # ns) ps =
     bind_outcome (new n) (\<lambda>p.
       case p of
         None \<Rightarrow> Done (Inl n)
       | Some p \<Rightarrow> resolve_enabled new ns (ps @ [p]))"

lemma resolve_enabled_all:
  "(\<And>n. n \<in> set ns \<Longrightarrow> new n = Done (Some (g n))) \<Longrightarrow>
   resolve_enabled new ns ps = Done (Inr (ps @ map g ns))"
  by (induction ns arbitrary: ps) auto

lemma resolve_enabled_missing:
  assumes "\<And>n. n \<in> set ns \<Longrightarrow> new n = Done (Some (g n))" and "new m = Done None"
  shows "resolve_enabled new (ns @ m # ms) ps = Done (Inl m)"
  using assms by (induction ns arbitrary: ps) auto

end
