(* ===== verification/Utils.thy ===== *)
theory Utils
  imports GnmiTypes
begin

text \<open>
  The package \<open>gateway/utils\<close>: XPath and pretty printing of notifications, and the numeric value
  of a gNMI typed value. \<open>PathToXPath\<close> dereferences its argument, so a nil path panics; the
  pretty printers inherit this. \<open>show_val\<close> stands for the rendering of a protocol buffer
  value by \<open>fmt\<close>'s \<open>%v\<close>, which is not code of this repository.
\<close>

section \<open>XPath of a path\<close>

definition key_pairs :: "(string, string) gomap \<Rightarrow> string list" where
  "key_pairs m =
     map (\<lambda>k. k @ ''='' @ gomap_index [] m k) (sort_strings (map fst m))"

definition elem_to_xpath :: "path_elem \<Rightarrow> string" where
  "elem_to_xpath e =
     (if pe_Name e \<noteq> [] then ''/'' @ pe_Name e else []) @
     (if GetKey e \<noteq> [] then ''['' @ join_with '' '' (key_pairs (GetKey e)) @ '']'' else [])"

fun elems_to_xpath :: "string \<Rightarrow> path_elem list \<Rightarrow> string" where
  "elems_to_xpath xPath [] = xPath"
| "elems_to_xpath xPath (e # es) = elems_to_xpath (xPath @ elem_to_xpath e) es"

definition PathToXPath :: "path option \<Rightarrow> string outcome" where
  "PathToXPath path =
     bind_outcome (deref path) (\<lambda>p.
       Done (elems_to_xpath
         ((if p_Origin p \<noteq> [] then ''/'' @ p_Origin p else []) @
          (if p_Target p \<noteq> [] then ''/'' @ p_Target p else []))
         (p_Elem p)))"

section \<open>Pretty printing\<close>

definition GNMIUpdatePrettyString ::
    "(typed_value_ptr \<Rightarrow> string) \<Rightarrow> update option \<Rightarrow> string outcome" where
  "GNMIUpdatePrettyString show_val update =
     (case update of
        None \<Rightarrow> Done ''<nil>''
      | Some u \<Rightarrow>
          bind_outcome (PathToXPath (u_Path u)) (\<lambda>xp.
            Done (''{ '' @ (''path:'' @ xp @ '' '') @
              (''val:'' @ show_val (u_Val u) @ '' '') @
              (if u_Duplicates u \<noteq> 0
               then ''duplicates:'' @ Itoa (int (unat (u_Duplicates u))) @ '' '' else []) @
              ''}'')))"

definition GNMINotificationPrettyString ::
    "(typed_value_ptr \<Rightarrow> string) \<Rightarrow> notification option \<Rightarrow> string outcome" where
  "GNMINotificationPrettyString show_val notification =
     (case notification of
        None \<Rightarrow> Done ''<nil>''
      | Some n \<Rightarrow>
          bind_outcome (PathToXPath (n_Prefix n)) (\<lambda>prefix.
          bind_outcome
            (map_outcome (\<lambda>u. map_done (\<lambda>s. s @ '' '') (GNMIUpdatePrettyString show_val (Some u)))
              (n_Update n)) (\<lambda>us.
          bind_outcome
            (map_outcome (\<lambda>d. map_done (\<lambda>s. s @ '' '') (PathToXPath (Some d)))
              (n_Delete n)) (\<lambda>ds.
          Done (''{ '' @ (''timestamp:'' @ Itoa (sint (n_Timestamp n)) @ '' '') @
            (''prefix:'' @ prefix @ '' '') @
            (if n_Alias n \<noteq> [] then ''alias:'' @ n_Alias n @ '' '' else []) @
            (if n_Update n \<noteq> [] then ''update:[ '' @ concat us @ ''] '' else []) @
            (if n_Delete n \<noteq> [] then ''delete:[ '' @ concat ds @ ''] '' else []) @
            (if n_Atomic n then ''atomic:true '' else []) @
            ''}'')))))"

section \<open>Numeric values\<close>

fun GetNumberValues :: "typed_value_ptr \<Rightarrow> float64 \<times> bool" where
  "GetNumberValues (Some (Some (StringVal s))) = (float_zero, False)"
| "GetNumberValues (Some (Some (IntVal i))) = (float_of_int64 i, True)"
| "GetNumberValues (Some (Some (UintVal i))) = (float_of_uint64 i, True)"
| "GetNumberValues (Some (Some (BoolVal b))) =
     (if b then (float_one, True) else (float_zero, False))"
| "GetNumberValues (Some (Some (FloatVal f))) = (f, True)"
| "GetNumberValues (Some (Some LeaflistVal)) = (float_zero, False)"
| "GetNumberValues (Some (Some (BytesVal b))) = (float_zero, False)"
| "GetNumberValues (Some (Some _)) = (float_zero, False)"
| "GetNumberValues _ = (float_zero, False)"

section \<open>Facts\<close>

lemma elems_to_xpath_concat: "elems_to_xpath x es = x @ concat (map elem_to_xpath es)"
  by (induction es arbitrary: x) auto

lemma PathToXPath_is_done [go_simps]: "is_done (PathToXPath p) \<longleftrightarrow> p \<noteq> None"
  by (cases p) (auto simp: PathToXPath_def)

lemma gomap_eq_key_pairs: "gomap_eq m n \<Longrightarrow> key_pairs m = key_pairs n"
  by (simp add: key_pairs_def gomap_index_def gomap_eq_sorted_keys gomap_eq_get)

lemma elem_equiv_xpath:
  assumes "elem_equiv a b"
  shows "elem_to_xpath a = elem_to_xpath b"
proof -
  have g: "gomap_eq (GetKey a) (GetKey b)"
    using assms by (rule elem_equiv_GetKey)
  then have "GetKey a = [] \<longleftrightarrow> GetKey b = []"
    using gomap_eq_length [OF g] by (metis length_0_conv)
  moreover have "pe_Name a = pe_Name b"
    using assms by simp
  ultimately show ?thesis
    using gomap_eq_key_pairs [OF g] by (simp add: elem_to_xpath_def)
qed

lemma elems_equiv_xpath:
  "list_all2 elem_equiv es fs \<Longrightarrow> elems_to_xpath x es = elems_to_xpath x fs"
  by (induction es fs arbitrary: x rule: list_all2_induct)
     (auto simp: elem_equiv_xpath simp del: elem_equiv.simps)

text \<open>The parts of the XPath of a path without keys and without slashes in its names.\<close>

definition plain_path :: "path \<Rightarrow> bool" where
  "plain_path p \<longleftrightarrow>
     CHR ''/'' \<notin> set (p_Origin p) \<and> CHR ''/'' \<notin> set (p_Target p) \<and>
     list_all (\<lambda>e. pe_Name e \<noteq> [] \<and> CHR ''/'' \<notin> set (pe_Name e) \<and> GetKey e = []) (p_Elem p)"

definition path_segments :: "path \<Rightarrow> string list" where
  "path_segments p =
     filter (\<lambda>s. s \<noteq> []) [p_Origin p, p_Target p] @ map pe_Name (p_Elem p)"

definition slashed :: "string list \<Rightarrow> string" where
  "slashed ss = concat (map (\<lambda>s. CHR ''/'' # s) ss)"

lemma slashed_simps [simp]:
  "slashed [] = []" "slashed (s # ss) = CHR ''/'' # s @ slashed ss"
  "slashed (ss @ ts) = slashed ss @ slashed ts"
  by (simp_all add: slashed_def)

lemma split_on_slashed:
  "list_all (\<lambda>s. CHR ''/'' \<notin> set s) ss \<Longrightarrow> split_on CHR ''/'' (slashed ss) = [] # ss"
proof (induction ss)
  case Nil
  then show ?case by simp
next
  case (Cons s ss)
  show ?case
  proof (cases ss)
    case Nil
    with Cons.prems show ?thesis by (simp add: split_on_no_sep)
  next
    case (Cons t ts)
    have "split_on CHR ''/'' (s @ CHR ''/'' # (t @ slashed ts)) = s # split_on CHR ''/'' (t @ slashed ts)"
      using Cons.prems by (intro split_on_append) simp
    with Cons Cons.IH Cons.prems show ?thesis by simp
  qed
qed

lemma plain_elems_xpath:
  "list_all (\<lambda>e. pe_Name e \<noteq> [] \<and> CHR ''/'' \<notin> set (pe_Name e) \<and> GetKey e = []) es \<Longrightarrow>
   concat (map elem_to_xpath es) = slashed (map pe_Name es)"
  by (induction es) (auto simp: elem_to_xpath_def)

lemma plain_path_xpath:
  assumes "plain_path p"
  shows "PathToXPath (Some p) = Done (slashed (path_segments p))"
  using assms
  by (auto simp: plain_path_def PathToXPath_def elems_to_xpath_concat path_segments_def
      plain_elems_xpath)

lemma GNMINotificationPrettyString_done_iff:
  "is_done (GNMINotificationPrettyString show_val notification) \<longleftrightarrow>
   (case notification of None \<Rightarrow> True
    | Some n \<Rightarrow> n_Prefix n \<noteq> None \<and> list_all (\<lambda>u. u_Path u \<noteq> None) (n_Update n))"
proof (cases notification)
  case None
  then show ?thesis by (simp add: GNMINotificationPrettyString_def)
next
  case (Some n)
  have m: "is_done (map_done f x) = is_done x" for f :: "string \<Rightarrow> string" and x
    by (cases x) auto
  have u: "is_done (GNMIUpdatePrettyString show_val (Some u)) \<longleftrightarrow> u_Path u \<noteq> None" for u
    by (cases "u_Path u") (auto simp: GNMIUpdatePrettyString_def PathToXPath_def)
  have ex: "(\<exists>a. y = Done a) \<longleftrightarrow> is_done y" for y :: "'a outcome"
    by (simp add: is_done_iff)
  show ?thesis
    using Some
    by (auto simp: GNMINotificationPrettyString_def is_done_bind ex is_done_map_outcome m u
        PathToXPath_is_done list_all_iff)
qed

section \<open>Properties\<close>

text \<open>
  The XPath of a path, which is also the message key of the Kafka exporter, does not
  depend on the order in which Go's map iteration delivers the keys of the elements.
\<close>

theorem PathToXPath_order_independent:
  assumes "path_equiv p q"
  shows "PathToXPath (Some p) = PathToXPath (Some q)"
  using assms by (auto simp: path_equiv_def PathToXPath_def intro!: elems_equiv_xpath)

theorem PathToXPath_order_independent_witness:
  "PathToXPath (Some \<lparr>p_Origin = [], p_Target = ''r1'', p_Elem =
      [\<lparr>pe_Name = ''a'', pe_Key = Some [(''x'', ''1''), (''b'', ''2'')]\<rparr>]\<rparr>) =
   PathToXPath (Some \<lparr>p_Origin = [], p_Target = ''r1'', p_Elem =
      [\<lparr>pe_Name = ''a'', pe_Key = Some [(''b'', ''2''), (''x'', ''1'')]\<rparr>]\<rparr>)"
  by (rule PathToXPath_order_independent)
     (auto simp: path_equiv_def gomap_eq_def gomap_ok_def)

text \<open>
  For a path whose names contain no slash and whose elements have no keys, splitting the
  XPath at the slashes gives the origin, the target and the element names back.
\<close>

theorem PathToXPath_roundtrip:
  assumes "plain_path p"
  shows "map_done (split_on CHR ''/'') (PathToXPath (Some p)) = Done ([] # path_segments p)"
proof -
  have "list_all (\<lambda>s. CHR ''/'' \<notin> set s) (path_segments p)"
    using assms by (auto simp: plain_path_def path_segments_def list_all_iff)
  then show ?thesis
    by (simp add: plain_path_xpath [OF assms] split_on_slashed)
qed

theorem PathToXPath_roundtrip_witness:
  "map_done (split_on CHR ''/'') (PathToXPath (Some \<lparr>p_Origin = ''oc'', p_Target = [], p_Elem =
      [\<lparr>pe_Name = ''a'', pe_Key = None\<rparr>, \<lparr>pe_Name = ''b'', pe_Key = Some []\<rparr>]\<rparr>)) =
   Done [[], ''oc'', ''a'', ''b'']"
proof -
  let ?p = "\<lparr>p_Origin = ''oc'', p_Target = [], p_Elem =
      [\<lparr>pe_Name = ''a'', pe_Key = None\<rparr>, \<lparr>pe_Name = ''b'', pe_Key = Some []\<rparr>]\<rparr>"
  have "plain_path ?p" by (simp add: plain_path_def GetKey_def)
  from PathToXPath_roundtrip [OF this] show ?thesis
    by (simp add: path_segments_def)
qed

text \<open>
  The pretty printer returns exactly when the notification is nil, or its prefix and
  the paths of all its updates are non-nil; in every other case it panics with a nil
  dereference.
\<close>

theorem GNMINotificationPrettyString_returns_iff:
  "is_done (GNMINotificationPrettyString show_val notification) \<longleftrightarrow>
   (case notification of None \<Rightarrow> True
    | Some n \<Rightarrow> n_Prefix n \<noteq> None \<and> list_all (\<lambda>u. u_Path u \<noteq> None) (n_Update n))"
  by (rule GNMINotificationPrettyString_done_iff)

end
