(* ===== verification/ConnState.thy ===== *)
theory ConnState
  imports Utils Configuration ZkLock
begin

text \<open>
  \<open>gateway/connections/state.go\<close>: the state of the connection to one target and the handlers
  the gNMI client calls. The cache of \<open>openconfig/gnmi\<close> and the gNMI client are parameters: a
  record of cache operations over a cache state \<open>'c\<close> with target handles \<open>'h\<close>, and a record of
  client operations. The counters and timers of the Spectator registry are a list of the metric
  events in the order they happen. \<open>doConnect\<close> is split at the blocking call of \<open>Subscribe\<close>:
  \<open>doConnect\<close> is what happens before it.
\<close>

section \<open>The cache and the client\<close>

text \<open>An error of \<open>GnmiUpdate\<close>: a list of errors (\<open>errlist.Error\<close>) or another error.\<close>

datatype cache_error = ErrList "string list" | PlainError string

record ('h, 'c) cache_ops =
  co_GetTarget :: "string \<Rightarrow> 'c \<Rightarrow> 'h option"
  co_Add :: "string \<Rightarrow> 'c \<Rightarrow> 'h \<times> 'c"
  co_GnmiUpdate :: "'h \<Rightarrow> notification \<Rightarrow> 'c \<Rightarrow> cache_error option \<times> 'c"
  co_Connect :: "'h \<Rightarrow> 'c \<Rightarrow> 'c"
  co_Sync :: "'h \<Rightarrow> 'c \<Rightarrow> 'c"
  co_Reset :: "'h \<Rightarrow> 'c \<Rightarrow> 'c"

datatype tls_choice = ConfiguredTLS string | InsecureSkipVerify

record query =
  q_Base :: string
  q_Addrs :: "string list"
  q_Credentials :: "credentials option"
  q_TLS :: "tls_choice option"
  q_Target :: string
  q_Timeout :: duration
  q_HandlesUpdates :: bool

text \<open>
  \<open>cl_Close\<close> is called on a client that may be nil; clients are numbered.
\<close>

record client_ops =
  cl_NewQuery :: "subscribe_request option \<Rightarrow> string + query"
  cl_Validate :: "query \<Rightarrow> string option"
  cl_Close :: "nat option \<Rightarrow> string option outcome"

section \<open>The state of a connection\<close>

datatype metric =
    CounterCoalesced int64
  | CounterNotifications
  | CounterRejected
  | CounterStale
  | CounterSync
  | TimerLatency int64

record ('h, 'l) conn =
  cn_lockAcquired :: bool
  cn_client :: "nat option"
  cn_clientCancel :: "nat option"
  cn_clusterMember :: bool
  cn_connected :: bool
  cn_connecting :: bool
  cn_lock :: "'l option"
  cn_name :: string
  cn_noTLSWarning :: bool
  cn_queryTarget :: string
  cn_request :: "subscribe_request option"
  cn_seen :: "(string, bool) gomap"
  cn_stopped :: bool
  cn_synced :: bool
  cn_target :: target
  cn_targetCache :: 'h
  cn_useLock :: bool
  cn_metrics :: "metric list"

definition count_metric :: "metric \<Rightarrow> ('h, 'l) conn \<Rightarrow> ('h, 'l) conn" where
  "count_metric m t = t\<lparr>cn_metrics := cn_metrics t @ [m]\<rparr>"

fun addresses_equal :: "string list \<Rightarrow> string list \<Rightarrow> bool" where
  "addresses_equal [] other = True"
| "addresses_equal (a # as) [] = False"
| "addresses_equal (a # as) (b # bs) = (if b \<noteq> a then False else addresses_equal as bs)"

definition Equal :: "('h, 'l) conn \<Rightarrow> target \<Rightarrow> bool" where
  "Equal t other =
     (if length (tg_Addresses (cn_target t)) \<noteq> length (tg_Addresses other) then False
      else if \<not> addresses_equal (tg_Addresses (cn_target t)) (tg_Addresses other) then False
      else (case (tg_Credentials (cn_target t), tg_Credentials other) of
          (None, Some _) \<Rightarrow> False
        | (Some _, None) \<Rightarrow> False
        | (Some c, Some d) \<Rightarrow>
            if cr_Username c \<noteq> cr_Username d then False
            else if cr_Password c \<noteq> cr_Password d then False
            else True
        | (None, None) \<Rightarrow> True))"

definition Seen :: "('h, 'l) conn \<Rightarrow> string \<Rightarrow> bool" where
  "Seen t tgt = gomap_index False (cn_seen t) tgt"

text \<open>
  The end of \<open>doConnect\<close> before \<open>Subscribe\<close>: no query, an invalid query, or a subscription
  with a new client, numbered \<open>fresh\<close>.
\<close>

datatype connect_attempt = NoQuery string | InvalidQuery string | Subscribes query

definition prefix_target :: "subscribe_request option \<Rightarrow> string" where
  "prefix_target req =
     (case req of
        None \<Rightarrow> []
      | Some r \<Rightarrow>
          (case sr_Subscribe r of
             None \<Rightarrow> []
           | Some sl \<Rightarrow> (case sl_Prefix sl of None \<Rightarrow> [] | Some p \<Rightarrow> p_Target p)))"

definition query_target :: "('h, 'l) conn \<Rightarrow> string" where
  "query_target t = (let prefixTarget = prefix_target (cn_request t)
     in if prefixTarget \<noteq> [] then prefixTarget else cn_name t)"

definition has_meta :: "('h, 'l) conn \<Rightarrow> string \<Rightarrow> bool" where
  "has_meta t flag \<longleftrightarrow> map_of (tg_Meta (cn_target t)) flag \<noteq> None"

definition query_tls :: "gateway_config \<Rightarrow> ('h, 'l) conn \<Rightarrow> tls_choice" where
  "query_tls config t =
     (let NoTLS = has_meta t ''NoTLS''; NoTLSVerify = has_meta t ''NoTLSVerify'' in
      case gc_ClientTLSConfig config of
        Some c \<Rightarrow> if \<not> NoTLS \<and> \<not> NoTLSVerify then ConfiguredTLS c else InsecureSkipVerify
      | None \<Rightarrow> InsecureSkipVerify)"

text \<open>The query as \<open>doConnect\<close> fills it in.\<close>

definition connect_query :: "gateway_config \<Rightarrow> ('h, 'l) conn \<Rightarrow> query \<Rightarrow> query" where
  "connect_query config t query =
     (let query = query\<lparr>q_Addrs := tg_Addresses (cn_target t)\<rparr>;
          query = (case tg_Credentials (cn_target t) of
              None \<Rightarrow> query
            | Some c \<Rightarrow> query\<lparr>q_Credentials := Some c\<rparr>)
      in query\<lparr>q_TLS := Some (query_tls config t), q_Target := query_target t,
           q_Timeout := gc_TargetDialTimeout config, q_HandlesUpdates := True\<rparr>)"

definition warn_no_tls :: "('h, 'l) conn \<Rightarrow> ('h, 'l) conn" where
  "warn_no_tls t =
     (if has_meta t ''NoTLS'' \<and> \<not> cn_noTLSWarning t then t\<lparr>cn_noTLSWarning := True\<rparr> else t)"

definition doConnect :: "client_ops \<Rightarrow> gateway_config \<Rightarrow> nat \<Rightarrow> ('h, 'l) conn \<Rightarrow>
    connect_attempt \<times> ('h, 'l) conn" where
  "doConnect ops config fresh t =
     (let t = t\<lparr>cn_connecting := True\<rparr> in
      case cl_NewQuery ops (cn_request t) of
        Inl err \<Rightarrow> (NoQuery err, t)
      | Inr query \<Rightarrow>
          let t = warn_no_tls t;
              query = connect_query config t query;
              t = t\<lparr>cn_queryTarget := query_target t\<rparr>
          in (case cl_Validate ops query of
                Some err \<Rightarrow> (InvalidQuery err, t)
              | None \<Rightarrow> (Subscribes query, t\<lparr>cn_clientCancel := Some fresh, cn_client := Some fresh\<rparr>)))"

definition disconnect :: "client_ops \<Rightarrow> ('h, 'l) conn \<Rightarrow> ('h, 'l) conn \<times> string option outcome" where
  "disconnect ops t = (let t = t\<lparr>cn_stopped := True\<rparr> in (t, cl_Close ops (cn_client t)))"

definition disconnected :: "('h, 'c) cache_ops \<Rightarrow> ('h, 'l) conn \<Rightarrow> 'c \<Rightarrow> ('h, 'l) conn \<times> 'c" where
  "disconnected cops t c =
     (t\<lparr>cn_connected := False, cn_synced := False, cn_seen := []\<rparr>,
      if cn_queryTarget t \<noteq> ''*'' then co_Reset cops (cn_targetCache t) c else c)"

definition reconnect :: "client_ops \<Rightarrow> ('h, 'l) conn \<Rightarrow> string option outcome" where
  "reconnect ops t = cl_Close ops (cn_client t)"

text \<open>\<open>unlock\<close> calls the cancel function of the last subscription, which may be nil.\<close>

definition unlock :: "('h, 'l) conn \<Rightarrow> nat outcome" where
  "unlock t = (case cn_clientCancel t of None \<Rightarrow> Panics NilFuncCall | Some k \<Rightarrow> Done k)"

section \<open>Updates from the target\<close>

fun match_keys :: "(string, string) gomap \<Rightarrow> (string \<times> string) list \<Rightarrow> bool" where
  "match_keys m [] = True"
| "match_keys m ((k, v) # kvs) =
     (case map_of m k of
        None \<Rightarrow> False
      | Some ov \<Rightarrow> if v \<noteq> ov then False else match_keys m kvs)"

fun match_elems :: "path_elem list \<Rightarrow> path_elem list \<Rightarrow> bool" where
  "match_elems path [] = True"
| "match_elems [] (e # es) = False"
| "match_elems (p # path) (e # es) =
     (if pe_Name p \<noteq> pe_Name e then False
      else (case pe_Key e of
          None \<Rightarrow> match_elems path es
        | Some keys \<Rightarrow>
            (case pe_Key p of
               None \<Rightarrow> False
             | Some m \<Rightarrow> if match_keys m keys then match_elems path es else False)))"

definition matchPath :: "path_elem list \<Rightarrow> path_elem list \<Rightarrow> bool" where
  "matchPath path toMatch =
     (if length path < length toMatch then False else match_elems path toMatch)"

definition rejectUpdate :: "gateway_config \<Rightarrow> notification option \<Rightarrow> bool" where
  "rejectUpdate config n =
     list_ex (\<lambda>u. list_ex (matchPath (GetElem (u_Path u))) (gc_UpdateRejections config))
       (case n of None \<Rightarrow> [] | Some n \<Rightarrow> n_Update n)"

definition handleCacheError :: "('h, 'l) conn \<Rightarrow> string \<Rightarrow> bool \<times> ('h, 'l) conn" where
  "handleCacheError t err =
     (if err = ''suppressed duplicate value'' then (True, t)
      else if err = ''update is stale'' then (False, count_metric CounterStale t)
      else (True, t))"

fun handle_cache_errors :: "('h, 'l) conn \<Rightarrow> string list \<Rightarrow> bool \<times> ('h, 'l) conn" where
  "handle_cache_errors t [] = (False, t)"
| "handle_cache_errors t (err # errs) =
     (case handleCacheError t err of
        (True, t) \<Rightarrow> (True, t)
      | (False, t) \<Rightarrow> handle_cache_errors t errs)"

datatype update_error =
    NotSubscribeResponse
  | CacheUpdateError string cache_error string
  | ErrorResponse string
  | UnknownResponse

text \<open>The error message contains the printed notification, and printing it may panic.\<close>

definition updateTargetCache ::
    "('h, 'c) cache_ops \<Rightarrow> (typed_value_ptr \<Rightarrow> string) \<Rightarrow> 'h \<Rightarrow> notification \<Rightarrow> ('h, 'l) conn \<Rightarrow> 'c \<Rightarrow>
     (update_error option \<times> ('h, 'l) conn \<times> 'c) outcome" where
  "updateTargetCache cops show_val h n t c =
     (case co_GnmiUpdate cops h n c of
        (None, c) \<Rightarrow> Done (None, t, c)
      | (Some err, c) \<Rightarrow>
          (case (case err of ErrList errs \<Rightarrow> handle_cache_errors t errs
                  | PlainError e \<Rightarrow> handleCacheError t e) of
             (False, t) \<Rightarrow> Done (None, t, c)
           | (True, t) \<Rightarrow>
               bind_outcome (GNMINotificationPrettyString show_val (Some n)) (\<lambda>pretty.
                 Done (Some (CacheUpdateError (cn_name t) err pretty), t, c))))"

definition sync :: "('h, 'l) conn \<Rightarrow> ('h, 'l) conn" where
  "sync t = count_metric CounterSync (t\<lparr>cn_synced := True\<rparr>)"

datatype gnmi_msg = ResponseMsg "subscribe_response option" | OtherMsg

text \<open>The part of \<open>handleUpdate\<close> after the counters, for a query of every target.\<close>

definition update_any_target ::
    "('h, 'c) cache_ops \<Rightarrow> (typed_value_ptr \<Rightarrow> string) \<Rightarrow> notification \<Rightarrow> ('h, 'l) conn \<Rightarrow> 'c \<Rightarrow>
     (update_error option \<times> ('h, 'l) conn \<times> 'c) outcome" where
  "update_any_target cops show_val n t c =
     bind_outcome (deref (n_Prefix n)) (\<lambda>p.
       let (h, c) = (case co_GetTarget cops (p_Target p) c of
             Some h \<Rightarrow> (h, c)
           | None \<Rightarrow> co_Add cops (p_Target p) c);
           t = t\<lparr>cn_seen := gomap_set (p_Target p) True (cn_seen t)\<rparr>
       in updateTargetCache cops show_val h n t c)"

text \<open>The same for a query of one target: the prefix and its target are filled in.\<close>

definition with_target :: "string \<Rightarrow> notification \<Rightarrow> notification" where
  "with_target queryTarget n =
     (let p = (case n_Prefix n of None \<Rightarrow> empty_path | Some p \<Rightarrow> p);
          p = (if p_Target p = [] then p\<lparr>p_Target := queryTarget\<rparr> else p)
      in n\<lparr>n_Prefix := Some p\<rparr>)"

definition count_update :: "int64 \<Rightarrow> notification \<Rightarrow> ('h, 'l) conn \<Rightarrow> ('h, 'l) conn" where
  "count_update now n t =
     (if cn_synced t then
        count_metric (TimerLatency (now - n_Timestamp n))
          (fold (\<lambda>u. count_metric (CounterCoalesced (ucast (u_Duplicates u)))) (n_Update n) t)
      else t)"

definition handle_notification ::
    "('h, 'c) cache_ops \<Rightarrow> (typed_value_ptr \<Rightarrow> string) \<Rightarrow> gateway_config \<Rightarrow> int64 \<Rightarrow>
     notification option \<Rightarrow> ('h, 'l) conn \<Rightarrow> 'c \<Rightarrow> (update_error option \<times> ('h, 'l) conn \<times> 'c) outcome" where
  "handle_notification cops show_val config now v t c =
     (if rejectUpdate config v then Done (None, count_metric CounterRejected t, c)
      else
        bind_outcome (deref v) (\<lambda>n.
          let t = count_update now n t in
          if cn_queryTarget t = ''*'' then update_any_target cops show_val n t c
          else updateTargetCache cops show_val (cn_targetCache t) (with_target (cn_queryTarget t) n) t c))"

definition mark_connected :: "('h, 'c) cache_ops \<Rightarrow> ('h, 'l) conn \<Rightarrow> 'c \<Rightarrow> ('h, 'l) conn \<times> 'c" where
  "mark_connected cops t c =
     (if \<not> cn_connected t
      then (t\<lparr>cn_connected := True\<rparr>,
            if cn_queryTarget t \<noteq> ''*'' then co_Connect cops (cn_targetCache t) c else c)
      else (t, c))"

definition handleUpdate ::
    "('h, 'c) cache_ops \<Rightarrow> (typed_value_ptr \<Rightarrow> string) \<Rightarrow> gateway_config \<Rightarrow> int64 \<Rightarrow>
     gnmi_msg \<Rightarrow> ('h, 'l) conn \<Rightarrow> 'c \<Rightarrow> (update_error option \<times> ('h, 'l) conn \<times> 'c) outcome" where
  "handleUpdate cops show_val config now msg t c =
     (case mark_connected cops (count_metric CounterNotifications t) c of
        (t, c) \<Rightarrow>
          (case msg of
             OtherMsg \<Rightarrow> Done (Some NotSubscribeResponse, t, c)
           | ResponseMsg None \<Rightarrow> Panics NilDeref
           | ResponseMsg (Some (ResponseUpdate v)) \<Rightarrow>
               handle_notification cops show_val config now v t c
           | ResponseMsg (Some (ResponseSync b)) \<Rightarrow>
               (let t = sync t in
                Done (None, t,
                  if cn_queryTarget t = ''*'' then c else co_Sync cops (cn_targetCache t) c))
           | ResponseMsg (Some (ResponseError e)) \<Rightarrow> Done (Some (ErrorResponse e), t, c)
           | ResponseMsg (Some ResponseUnknown) \<Rightarrow> Done (Some UnknownResponse, t, c)))"

section \<open>Facts\<close>

lemma metric_simps [simp]:
  "cn_synced (count_metric m t) = cn_synced t" "cn_connected (count_metric m t) = cn_connected t"
  "cn_seen (count_metric m t) = cn_seen t" "cn_queryTarget (count_metric m t) = cn_queryTarget t"
  "cn_targetCache (count_metric m t) = cn_targetCache t" "cn_name (count_metric m t) = cn_name t"
  "cn_stopped (count_metric m t) = cn_stopped t" "cn_lockAcquired (count_metric m t) = cn_lockAcquired t"
  "cn_useLock (count_metric m t) = cn_useLock t" "cn_clusterMember (count_metric m t) = cn_clusterMember t"
  by (simp_all add: count_metric_def)

lemma match_keys_iff:
  "match_keys m kvs \<longleftrightarrow> (\<forall>(k, v) \<in> set kvs. map_of m k = Some v)"
  by (induction kvs) (auto split: option.splits if_splits)

definition elem_matches :: "path_elem \<Rightarrow> path_elem \<Rightarrow> bool" where
  "elem_matches p e \<longleftrightarrow> pe_Name p = pe_Name e \<and>
     (case pe_Key e of
        None \<Rightarrow> True
      | Some keys \<Rightarrow> (\<exists>m. pe_Key p = Some m \<and> (\<forall>(k, v) \<in> set keys. map_of m k = Some v)))"

lemma match_elems_Cons: "match_elems (p # path) (e # es) \<longleftrightarrow> elem_matches p e \<and> match_elems path es"
  by (auto simp: elem_matches_def match_keys_iff split: option.splits)

lemma match_elems_prefix:
  "match_elems path es \<longleftrightarrow> (\<exists>front rest. path = front @ rest \<and> list_all2 elem_matches front es)"
proof (induction es arbitrary: path)
  case Nil
  then show ?case by simp
next
  case (Cons e es)
  show ?case
  proof (cases path)
    case Nil
    then show ?thesis by (auto simp: list_all2_Cons2)
  next
    case (Cons p ps)
    have "match_elems path (e # es) \<longleftrightarrow> elem_matches p e \<and>
        (\<exists>front rest. ps = front @ rest \<and> list_all2 elem_matches front es)"
      unfolding Cons match_elems_Cons Cons.IH ..
    also have "\<dots> \<longleftrightarrow> (\<exists>front rest. path = front @ rest \<and> list_all2 elem_matches front (e # es))"
      by (simp add: Cons list_all2_Cons2) (metis append_Cons list.inject)
    finally show ?thesis .
  qed
qed

lemma matchPath_front:
  "matchPath path toMatch \<longleftrightarrow>
     (\<exists>front rest. path = front @ rest \<and> list_all2 elem_matches front toMatch)"
proof (cases "length path < length toMatch")
  case True
  then show ?thesis
    by (auto simp: matchPath_def dest!: list_all2_lengthD)
next
  case False
  then show ?thesis by (simp add: matchPath_def match_elems_prefix)
qed

text \<open>
  C29: a rejection path matches a path exactly when a front part of the path has the same
  length, the same names, and for every element of the rejection path with keys, keys that
  include them with equal values.
\<close>

theorem matchPath_iff:
  "matchPath path toMatch \<longleftrightarrow>
     (\<exists>front rest. path = front @ rest \<and> list_all2 elem_matches front toMatch)"
  by (rule matchPath_front)

lemma matchPath_below: "matchPath path r \<Longrightarrow> matchPath (path @ ext) r"
  unfolding matchPath_front by (metis append.assoc)

text \<open>
  An update that the configuration rejects does not touch the cache, beyond the mark that
  the target is connected; it is counted and is no error. Rejection reaches below a path: a
  notification with an update below a rejected path is rejected.
\<close>

theorem rejected_update_not_cached:
  assumes "u \<in> set (n_Update n)" and "GetElem (u_Path u) = path @ ext"
    and "r \<in> set (gc_UpdateRejections config)" and "matchPath path r"
  shows "handleUpdate cops show_val config now (ResponseMsg (Some (ResponseUpdate (Some n)))) t c =
    (let (t, c) = mark_connected cops (count_metric CounterNotifications t) c
     in Done (None, count_metric CounterRejected t, c))"
proof -
  have "rejectUpdate config (Some n)"
    using assms(1-3) matchPath_below [OF assms(4), of ext]
    unfolding rejectUpdate_def list_ex_iff by (metis option.simps(5))
  then show ?thesis
    by (simp add: handleUpdate_def handle_notification_def split: prod.splits)
qed

text \<open>A cache that keeps every notification it is given, by target, for the examples.\<close>

type_synonym log_cache = "(string \<times> notification) list"

definition log_cache_ops :: "(string, log_cache) cache_ops" where
  "log_cache_ops =
     \<lparr>co_GetTarget = (\<lambda>n c. if n \<in> fst ` set c then Some n else None), co_Add = (\<lambda>n c. (n, c)),
      co_GnmiUpdate = (\<lambda>h n c. (None, c @ [(h, n)])), co_Connect = (\<lambda>h c. c),
      co_Sync = (\<lambda>h c. c), co_Reset = (\<lambda>h c. filter (\<lambda>(k, _). k \<noteq> h) c)\<rparr>"

definition example_target :: target where
  "example_target = \<lparr>tg_Addresses = [''r1:9339''], tg_Credentials = None, tg_Request = ''q'', tg_Meta = []\<rparr>"

definition example_conn :: "(string, zk_lock) conn" where
  "example_conn =
     \<lparr>cn_lockAcquired = False, cn_client = None, cn_clientCancel = None, cn_clusterMember = False,
      cn_connected = False, cn_connecting = False, cn_lock = None, cn_name = ''r1'',
      cn_noTLSWarning = False, cn_queryTarget = ''r1'', cn_request = None, cn_seen = [],
      cn_stopped = False, cn_synced = False, cn_target = example_target, cn_targetCache = ''r1'',
      cn_useLock = False, cn_metrics = []\<rparr>"

definition example_notification :: notification where
  "example_notification =
     \<lparr>n_Timestamp = 0, n_Prefix = None, n_Alias = [],
      n_Update = [\<lparr>u_Path = Some (empty_path\<lparr>p_Elem := [\<lparr>pe_Name = ''a'', pe_Key = None\<rparr>,
        \<lparr>pe_Name = ''b'', pe_Key = None\<rparr>]\<rparr>), u_Val = None, u_Duplicates = 0\<rparr>],
      n_Delete = [], n_Atomic = False\<rparr>"

theorem rejected_update_not_cached_witness:
  "\<exists>t. handleUpdate log_cache_ops (\<lambda>_. [])
     (zero_gateway_config\<lparr>gc_UpdateRejections := [[\<lparr>pe_Name = ''a'', pe_Key = None\<rparr>]]\<rparr>) 0
     (ResponseMsg (Some (ResponseUpdate (Some example_notification)))) example_conn [] =
   Done (None, t, [])"
proof -
  let ?u = "hd (n_Update example_notification)"
  let ?config = "zero_gateway_config\<lparr>gc_UpdateRejections := [[\<lparr>pe_Name = ''a'', pe_Key = None\<rparr>]]\<rparr>"
  have "matchPath [\<lparr>pe_Name = ''a'', pe_Key = None\<rparr>] [\<lparr>pe_Name = ''a'', pe_Key = None\<rparr>]"
    by (simp add: matchPath_def)
  then show ?thesis
    using rejected_update_not_cached [of ?u example_notification "[\<lparr>pe_Name = ''a'', pe_Key = None\<rparr>]"
        "[\<lparr>pe_Name = ''b'', pe_Key = None\<rparr>]" "[\<lparr>pe_Name = ''a'', pe_Key = None\<rparr>]" ?config
        log_cache_ops "\<lambda>_. []" 0 example_conn "[]"]
    by (simp add: example_notification_def empty_path_def mark_connected_def log_cache_ops_def)
qed

lemma fold_metrics: "\<exists>ms. fold (\<lambda>u. count_metric (f u)) us t = t\<lparr>cn_metrics := ms\<rparr>"
proof (induction us arbitrary: t)
  case Nil
  then show ?case by (intro exI [of _ "cn_metrics t"]) simp
next
  case (Cons u us)
  from Cons.IH [of "count_metric (f u) t"] show ?case by (auto simp: count_metric_def)
qed

lemma count_update_metrics: "\<exists>ms. count_update now n t = t\<lparr>cn_metrics := ms\<rparr>"
proof (cases "cn_synced t")
  case True
  obtain ms where "fold (\<lambda>u. count_metric (CounterCoalesced (ucast (u_Duplicates u)))) (n_Update n) t =
      t\<lparr>cn_metrics := ms\<rparr>"
    using fold_metrics [of "\<lambda>u. CounterCoalesced (ucast (u_Duplicates u))" "n_Update n" t] by blast
  with True show ?thesis by (auto simp: count_update_def count_metric_def)
next
  case False
  then show ?thesis by (intro exI [of _ "cn_metrics t"]) (simp add: count_update_def)
qed

lemma count_update_simps [simp]:
  "cn_synced (count_update now n t) = cn_synced t" "cn_queryTarget (count_update now n t) = cn_queryTarget t"
  "cn_targetCache (count_update now n t) = cn_targetCache t" "cn_seen (count_update now n t) = cn_seen t"
  "cn_connected (count_update now n t) = cn_connected t"
proof -
  obtain ms where "count_update now n t = t\<lparr>cn_metrics := ms\<rparr>" using count_update_metrics by blast
  then show "cn_synced (count_update now n t) = cn_synced t" "cn_queryTarget (count_update now n t) = cn_queryTarget t"
    "cn_targetCache (count_update now n t) = cn_targetCache t" "cn_seen (count_update now n t) = cn_seen t"
    "cn_connected (count_update now n t) = cn_connected t"
    by simp_all
qed

lemma mark_connected_simps [simp]:
  "cn_queryTarget (fst (mark_connected cops t c)) = cn_queryTarget t"
  "cn_targetCache (fst (mark_connected cops t c)) = cn_targetCache t"
  "cn_synced (fst (mark_connected cops t c)) = cn_synced t"
  "cn_seen (fst (mark_connected cops t c)) = cn_seen t"
  "cn_connected (fst (mark_connected cops t c))"
  by (simp_all add: mark_connected_def)

lemma with_target_target:
  "GetTarget (n_Prefix (with_target q n)) = (if GetTarget (n_Prefix n) = [] then q else GetTarget (n_Prefix n))"
  by (cases "n_Prefix n") (auto simp: with_target_def Let_def empty_path_def)



lemma handle_cache_errors_stale:
  "fst (handle_cache_errors t errs) \<longleftrightarrow> \<not> list_all (\<lambda>e. e = ''update is stale'') errs"
proof (induction errs arbitrary: t)
  case Nil
  then show ?case by simp
next
  case (Cons e errs)
  show ?case
  proof (cases "e = ''update is stale''")
    case True
    with Cons.IH [of "count_metric CounterStale t"] show ?thesis by (simp add: handleCacheError_def)
  next
    case False
    then show ?thesis by (simp add: handleCacheError_def)
  qed
qed

definition all_stale :: "cache_error \<Rightarrow> bool" where
  "all_stale err = (case err of PlainError e \<Rightarrow> e = ''update is stale''
     | ErrList es \<Rightarrow> list_all (\<lambda>e. e = ''update is stale'') es)"

lemma updateTargetCache_cases:
  "updateTargetCache cops show_val h n t c =
     (case co_GnmiUpdate cops h n c of
        (None, c') \<Rightarrow> Done (None, t, c')
      | (Some err, c') \<Rightarrow>
          (let t' = snd (case err of ErrList errs \<Rightarrow> handle_cache_errors t errs
                  | PlainError e \<Rightarrow> handleCacheError t e) in
           if all_stale err then Done (None, t', c')
           else map_done (\<lambda>pretty. (Some (CacheUpdateError (cn_name t') err pretty), t', c'))
             (GNMINotificationPrettyString show_val (Some n))))"
proof -
  have md: "bind_outcome m (\<lambda>x. Done (f x)) = map_done f m" for m :: "string outcome" and f :: "string \<Rightarrow> 'x"
    by (cases m) auto
  have r: "(case (case err of ErrList errs \<Rightarrow> handle_cache_errors t errs
                  | PlainError e \<Rightarrow> handleCacheError t e) of (False, t') \<Rightarrow> X t' | (True, t') \<Rightarrow> Y t') =
      (let t' = snd (case err of ErrList errs \<Rightarrow> handle_cache_errors t errs
                  | PlainError e \<Rightarrow> handleCacheError t e) in if all_stale err then X t' else Y t')"
    for err and X Y :: "('a, 'b) conn \<Rightarrow> 'x"
  proof (cases err)
    case (ErrList errs)
    then show ?thesis
      using handle_cache_errors_stale [of t errs]
      by (cases "handle_cache_errors t errs") (auto simp: all_stale_def split: bool.splits)
  next
    case (PlainError e)
    then show ?thesis by (simp add: all_stale_def handleCacheError_def)
  qed
  show ?thesis
    unfolding updateTargetCache_def by (simp only: r md)
qed

text \<open>
  C35: the error branch of a cache update. Only an update that the cache calls stale is ignored:
  any other single error, the duplicate suppression of the cache among them, ends the handler
  with an error, and a list of errors is ignored exactly when every one of them says stale.
\<close>

theorem updateTargetCache_errors:
  assumes "co_GnmiUpdate cops h n c = (Some err, c')"
  shows "(\<exists>t'. updateTargetCache cops show_val h n t c = Done (None, t', c')) \<longleftrightarrow> all_stale err"
  using assms
  by (cases "GNMINotificationPrettyString show_val (Some n)") (auto simp: updateTargetCache_cases Let_def)

theorem updateTargetCache_errors_witness:
  "\<not> (\<exists>t'. updateTargetCache
       (log_cache_ops\<lparr>co_GnmiUpdate := (\<lambda>h n c. (Some (PlainError ''suppressed duplicate value''), c))\<rparr>)
       (\<lambda>_. []) ''r1'' example_notification example_conn [] = Done (None, t', []))"
  using updateTargetCache_errors
    [of "log_cache_ops\<lparr>co_GnmiUpdate := (\<lambda>h n c. (Some (PlainError ''suppressed duplicate value''), c))\<rparr>"
      "''r1''" example_notification "[]" "PlainError ''suppressed duplicate value''" "[]" "\<lambda>_. []" example_conn]
  by (simp add: all_stale_def)

definition proper_msg :: "string \<Rightarrow> gnmi_msg \<Rightarrow> bool" where
  "proper_msg queryTarget msg \<longleftrightarrow>
     (case msg of
        OtherMsg \<Rightarrow> True
      | ResponseMsg None \<Rightarrow> False
      | ResponseMsg (Some (ResponseUpdate v)) \<Rightarrow>
          (case v of None \<Rightarrow> False | Some n \<Rightarrow>
             (queryTarget = ''*'' \<longrightarrow> n_Prefix n \<noteq> None) \<and> list_all (\<lambda>u. u_Path u \<noteq> None) (n_Update n))
      | _ \<Rightarrow> True)"

lemma pretty_done:
  "n_Prefix n \<noteq> None \<Longrightarrow> list_all (\<lambda>u. u_Path u \<noteq> None) (n_Update n) \<Longrightarrow>
   \<exists>s. GNMINotificationPrettyString show_val (Some n) = Done s"
  using GNMINotificationPrettyString_done_iff [of show_val "Some n"] by (simp add: is_done_iff)

lemma updateTargetCache_done:
  assumes "n_Prefix n \<noteq> None" and "list_all (\<lambda>u. u_Path u \<noteq> None) (n_Update n)"
  shows "is_done (updateTargetCache cops show_val h n t c)"
proof -
  obtain s where "GNMINotificationPrettyString show_val (Some n) = Done s"
    using pretty_done [OF assms] by blast
  then show ?thesis
    by (auto simp: updateTargetCache_cases Let_def split: prod.splits option.splits)
qed

text \<open>
  C30: a message never panics the handler if it is a response with a non-nil notification whose
  updates all have a path and, for a query of every target, a prefix.
\<close>

theorem handleUpdate_does_not_panic:
  assumes "proper_msg (cn_queryTarget t) msg"
  shows "is_done (handleUpdate cops show_val config now msg t c)"
proof -
  obtain t1 c1 where m: "mark_connected cops (count_metric CounterNotifications t) c = (t1, c1)"
    by (cases "mark_connected cops (count_metric CounterNotifications t) c")
  have q: "cn_queryTarget t1 = cn_queryTarget t"
    using mark_connected_simps(1) [of cops "count_metric CounterNotifications t" c] m by simp
  show ?thesis
  proof (cases "\<exists>n. msg = ResponseMsg (Some (ResponseUpdate (Some n)))")
    case False
    with assms m show ?thesis
      by (auto simp: handleUpdate_def proper_msg_def Let_def
          split: gnmi_msg.splits option.splits subscribe_response.splits)
  next
    case True
    then obtain n where n: "msg = ResponseMsg (Some (ResponseUpdate (Some n)))" by blast
    have paths: "list_all (\<lambda>u. u_Path u \<noteq> None) (n_Update n)"
      and pre: "cn_queryTarget t = ''*'' \<Longrightarrow> n_Prefix n \<noteq> None"
      using assms by (simp_all add: n proper_msg_def)
    have w: "is_done (updateTargetCache cops show_val h (with_target q n) t' c')"
      for h q and t' :: "('a, 'b) conn" and c'
      using paths by (intro updateTargetCache_done) (simp_all add: with_target_def Let_def)
    have a: "is_done (update_any_target cops show_val n t' c')" if "n_Prefix n \<noteq> None"
      for t' :: "('a, 'b) conn" and c'
    proof -
      obtain p where "n_Prefix n = Some p" using \<open>n_Prefix n \<noteq> None\<close> by blast
      then show ?thesis
        by (simp add: update_any_target_def Let_def updateTargetCache_done [OF that paths]
            split: prod.splits option.splits)
    qed
    show ?thesis
      using m q w a pre by (simp add: n handleUpdate_def handle_notification_def Let_def)
  qed
qed

theorem handleUpdate_does_not_panic_witness:
  "is_done (handleUpdate log_cache_ops (\<lambda>_. []) zero_gateway_config 0
     (ResponseMsg (Some (ResponseUpdate (Some example_notification)))) example_conn [])"
  by (rule handleUpdate_does_not_panic)
     (simp add: proper_msg_def example_notification_def example_conn_def)

text \<open>
  An update without a path panics the handler when the cache answers it with an error other
  than staleness, since the error message prints the notification.
\<close>

theorem handleUpdate_nil_path_panics:
  assumes "\<not> rejectUpdate config (Some n)" and "u \<in> set (n_Update n)" and "u_Path u = None"
    and "cn_queryTarget t \<noteq> ''*''"
    and "\<And>m c. \<exists>err. fst (co_GnmiUpdate cops (cn_targetCache t) m c) = Some err \<and> \<not> all_stale err"
  shows "\<exists>p. handleUpdate cops show_val config now
    (ResponseMsg (Some (ResponseUpdate (Some n)))) t c = Panics p"
proof -
  obtain t1 c1 where m: "mark_connected cops (count_metric CounterNotifications t) c = (t1, c1)"
    by (cases "mark_connected cops (count_metric CounterNotifications t) c")
  have t1: "cn_queryTarget t1 = cn_queryTarget t" "cn_targetCache t1 = cn_targetCache t"
    using mark_connected_simps(1,2) [of cops "count_metric CounterNotifications t" c] m by simp_all
  let ?n = "with_target (cn_queryTarget t) n"
  have "n_Update ?n = n_Update n" by (simp add: with_target_def Let_def)
  then have "\<not> is_done (GNMINotificationPrettyString show_val (Some ?n))"
    using assms(2,3) by (auto simp: GNMINotificationPrettyString_done_iff list_all_iff)
  then obtain p where p: "GNMINotificationPrettyString show_val (Some ?n) = Panics p"
    by (cases "GNMINotificationPrettyString show_val (Some ?n)") auto
  obtain err c' where e: "co_GnmiUpdate cops (cn_targetCache t) ?n c1 = (Some err, c')" "\<not> all_stale err"
    using assms(5) [of ?n c1] by (metis prod.collapse)
  show ?thesis
    using assms(1,4) m t1 p e
    by (simp add: handleUpdate_def handle_notification_def updateTargetCache_cases Let_def)
qed

theorem handleUpdate_nil_path_panics_witness:
  "\<exists>p. handleUpdate (log_cache_ops\<lparr>co_GnmiUpdate := (\<lambda>h n c. (Some (PlainError ''no path''), c))\<rparr>)
     (\<lambda>_. []) zero_gateway_config 0
     (ResponseMsg (Some (ResponseUpdate (Some (example_notification\<lparr>n_Update :=
        [\<lparr>u_Path = None, u_Val = None, u_Duplicates = 0\<rparr>]\<rparr>))))) example_conn [] = Panics p"
  by (rule handleUpdate_nil_path_panics [where u = "\<lparr>u_Path = None, u_Val = None, u_Duplicates = 0\<rparr>"])
     (simp_all add: rejectUpdate_def zero_gateway_config_def example_conn_def all_stale_def)

lemma addresses_equal_iff: "length as = length bs \<Longrightarrow> addresses_equal as bs \<longleftrightarrow> as = bs"
  by (induction as bs rule: addresses_equal.induct) auto

lemma Equal_same_fields:
  "Equal t other \<longleftrightarrow> tg_Addresses (cn_target t) = tg_Addresses other \<and>
     tg_Credentials (cn_target t) = tg_Credentials other"
proof -
  have c: "c = d \<longleftrightarrow> cr_Username c = cr_Username d \<and> cr_Password c = cr_Password d" for c d :: credentials
    by (cases c; cases d) simp
  show ?thesis
    by (auto simp: Equal_def addresses_equal_iff c split: option.splits)
qed

text \<open>The comparison that decides about a reconnect sees the addresses and the credentials
  of a target, in full, and nothing else: not its request and not its Meta flags.\<close>

theorem Equal_iff:
  "Equal t other \<longleftrightarrow> tg_Addresses (cn_target t) = tg_Addresses other \<and>
     tg_Credentials (cn_target t) = tg_Credentials other"
  by (rule Equal_same_fields)

definition attempt_ok :: "client_ops \<Rightarrow> gateway_config \<Rightarrow> ('h, 'l) conn \<Rightarrow> query \<Rightarrow> bool" where
  "attempt_ok ops config t q \<longleftrightarrow>
     q_Addrs q = tg_Addresses (cn_target t) \<and> q_Credentials q = tg_Credentials (cn_target t) \<and>
     q_Timeout q = gc_TargetDialTimeout config \<and> q_HandlesUpdates q \<and>
     q_Target q = (if prefix_target (cn_request t) \<noteq> [] then prefix_target (cn_request t) else cn_name t) \<and>
     (\<forall>c. q_TLS q = Some (ConfiguredTLS c) \<longleftrightarrow> gc_ClientTLSConfig config = Some c \<and>
        ''NoTLS'' \<notin> dom (map_of (tg_Meta (cn_target t))) \<and>
        ''NoTLSVerify'' \<notin> dom (map_of (tg_Meta (cn_target t)))) \<and>
     q_TLS q \<noteq> None \<and> cl_Validate ops q = None"

lemma connect_query_ok:
  assumes "q_Credentials q = None" and "cl_Validate ops (connect_query config t q) = None"
  shows "attempt_ok ops config t (connect_query config t q)"
proof -
  have tls: "(query_tls config t = ConfiguredTLS c) \<longleftrightarrow> gc_ClientTLSConfig config = Some c \<and>
      ''NoTLS'' \<notin> dom (map_of (tg_Meta (cn_target t))) \<and>
      ''NoTLSVerify'' \<notin> dom (map_of (tg_Meta (cn_target t)))" for c
    by (auto simp: query_tls_def has_meta_def Let_def split: option.splits)
  show ?thesis
    unfolding attempt_ok_def
  proof (intro conjI)
    show "q_Credentials (connect_query config t q) = tg_Credentials (cn_target t)"
      using assms(1) by (simp add: connect_query_def Let_def split: option.splits)
    show "\<forall>c. q_TLS (connect_query config t q) = Some (ConfiguredTLS c) \<longleftrightarrow>
        gc_ClientTLSConfig config = Some c \<and>
        ''NoTLS'' \<notin> dom (map_of (tg_Meta (cn_target t))) \<and>
        ''NoTLSVerify'' \<notin> dom (map_of (tg_Meta (cn_target t)))"
      using tls by (simp add: connect_query_def Let_def)
    show "cl_Validate ops (connect_query config t q) = None" by (rule assms(2))
  qed (simp_all add: connect_query_def query_target_def Let_def split: option.splits)
qed

definition before_attempt :: "('h, 'l) conn \<Rightarrow> ('h, 'l) conn" where
  "before_attempt t = warn_no_tls (t\<lparr>cn_connecting := True\<rparr>)"

lemma before_attempt_simps [simp]:
  "cn_target (before_attempt t) = cn_target t" "cn_request (before_attempt t) = cn_request t"
  "cn_name (before_attempt t) = cn_name t" "cn_client (before_attempt t) = cn_client t"
  "cn_clientCancel (before_attempt t) = cn_clientCancel t" "cn_stopped (before_attempt t) = cn_stopped t"
  "cn_lockAcquired (before_attempt t) = cn_lockAcquired t" "cn_connecting (before_attempt t)"
  "cn_synced (before_attempt t) = cn_synced t" "cn_connected (before_attempt t) = cn_connected t"
  "cn_seen (before_attempt t) = cn_seen t" "cn_useLock (before_attempt t) = cn_useLock t"
  "cn_lock (before_attempt t) = cn_lock t" "cn_clusterMember (before_attempt t) = cn_clusterMember t"
  "cn_targetCache (before_attempt t) = cn_targetCache t"
  by (simp_all add: before_attempt_def warn_no_tls_def)

lemma doConnect_cases:
  obtains (no_query) err where "doConnect ops config fresh t = (NoQuery err, t\<lparr>cn_connecting := True\<rparr>)"
  | (invalid) err where "doConnect ops config fresh t =
      (InvalidQuery err, (before_attempt t)\<lparr>cn_queryTarget := query_target t\<rparr>)"
  | (subscribes) q where "cl_NewQuery ops (cn_request t) = Inr q"
      "cl_Validate ops (connect_query config t q) = None"
      "doConnect ops config fresh t = (Subscribes (connect_query config t q),
        (before_attempt t)\<lparr>cn_queryTarget := query_target t, cn_clientCancel := Some fresh,
          cn_client := Some fresh\<rparr>)"
proof (cases "cl_NewQuery ops (cn_request t)")
  case (Inl err)
  then show ?thesis using no_query by (simp add: doConnect_def)
next
  case (Inr q)
  have c: "connect_query config (before_attempt t) q = connect_query config t q"
    "query_target (before_attempt t) = query_target t"
    by (simp_all add: connect_query_def query_tls_def has_meta_def query_target_def Let_def)
  have d: "doConnect ops config fresh t =
      (case cl_Validate ops (connect_query config t q) of
         Some err \<Rightarrow> (InvalidQuery err, (before_attempt t)\<lparr>cn_queryTarget := query_target t\<rparr>)
       | None \<Rightarrow> (Subscribes (connect_query config t q),
           (before_attempt t)\<lparr>cn_queryTarget := query_target t, cn_clientCancel := Some fresh,
             cn_client := Some fresh\<rparr>))"
    using Inr c unfolding doConnect_def before_attempt_def Let_def
    by (cases "cl_Validate ops (connect_query config t q)") simp_all
  show ?thesis
    using d Inr invalid subscribes by (cases "cl_Validate ops (connect_query config t q)") auto
qed


definition example_client_ops :: client_ops where
  "example_client_ops =
     \<lparr>cl_NewQuery = (\<lambda>_. Inr \<lparr>q_Base = [], q_Addrs = [], q_Credentials = None, q_TLS = None,
        q_Target = [], q_Timeout = 0, q_HandlesUpdates = False\<rparr>),
      cl_Validate = (\<lambda>q. if q_Addrs q = [] then Some ''no address'' else None),
      cl_Close = (\<lambda>c. case c of None \<Rightarrow> Panics NilDeref | Some _ \<Rightarrow> Done None)\<rparr>"


section \<open>The life of a connection\<close>

text \<open>
  The calls on a connection, in any order: a connection attempt, a message of the client, the
  disconnect and reset callbacks of the client, and the operations of the manager.
\<close>

datatype conn_call =
    CallConnect nat
  | CallUpdate int64 gnmi_msg
  | CallDisconnected
  | CallDisconnect
  | CallReconnect
  | CallUnlock

fun conn_call_step ::
    "client_ops \<Rightarrow> ('h, 'c) cache_ops \<Rightarrow> (typed_value_ptr \<Rightarrow> string) \<Rightarrow> gateway_config \<Rightarrow>
     conn_call \<Rightarrow> ('h, 'l) conn \<times> 'c \<Rightarrow> (('h, 'l) conn \<times> 'c) outcome" where
  "conn_call_step ops cops show_val config (CallConnect fresh) (t, c) =
     Done (snd (doConnect ops config fresh t), c)"
| "conn_call_step ops cops show_val config (CallUpdate now msg) (t, c) =
     map_done snd (handleUpdate cops show_val config now msg t c)"
| "conn_call_step ops cops show_val config CallDisconnected (t, c) = Done (disconnected cops t c)"
| "conn_call_step ops cops show_val config CallDisconnect (t, c) =
     (case disconnect ops t of (t, r) \<Rightarrow> bind_outcome r (\<lambda>_. Done (t, c)))"
| "conn_call_step ops cops show_val config CallReconnect (t, c) =
     bind_outcome (reconnect ops t) (\<lambda>_. Done (t, c))"
| "conn_call_step ops cops show_val config CallUnlock (t, c) =
     bind_outcome (unlock t) (\<lambda>_. Done (t, c))"

definition conn_inv :: "('h, 'l) conn \<Rightarrow> bool" where
  "conn_inv t \<longleftrightarrow>
     (cn_synced t \<longrightarrow> cn_connected t) \<and> (cn_seen t \<noteq> [] \<longrightarrow> cn_connected t) \<and>
     cn_client t = cn_clientCancel t \<and> (cn_client t \<noteq> None \<longrightarrow> cn_connecting t)"

definition same_life :: "('h, 'l) conn \<Rightarrow> ('h, 'l) conn \<Rightarrow> bool" where
  "same_life t t' \<longleftrightarrow> cn_client t' = cn_client t \<and> cn_clientCancel t' = cn_clientCancel t \<and>
     cn_connecting t' = cn_connecting t \<and> cn_connected t' = cn_connected t \<and>
     cn_queryTarget t' = cn_queryTarget t \<and> cn_stopped t' = cn_stopped t \<and>
     cn_lockAcquired t' = cn_lockAcquired t \<and> cn_useLock t' = cn_useLock t"

lemma same_life_refl [simp]: "same_life t t"
  by (simp add: same_life_def)

definition metrics_only :: "('h, 'l) conn \<Rightarrow> ('h, 'l) conn \<Rightarrow> bool" where
  "metrics_only t t' \<longleftrightarrow> (\<exists>ms. t' = t\<lparr>cn_metrics := ms\<rparr>)"

lemma metrics_only_refl [simp]: "metrics_only t t"
  unfolding metrics_only_def by (intro exI [of _ "cn_metrics t"]) simp

lemma metrics_only_count [simp]: "metrics_only t (count_metric m t)"
  by (auto simp: metrics_only_def count_metric_def)

lemma metrics_only_trans: "metrics_only t u \<Longrightarrow> metrics_only u v \<Longrightarrow> metrics_only t v"
  by (auto simp: metrics_only_def)

lemma metrics_only_update: "metrics_only t (count_update now n t)"
  using count_update_metrics unfolding metrics_only_def .

lemma metrics_only_life: "metrics_only t t' \<Longrightarrow> same_life t t'"
  by (auto simp: metrics_only_def same_life_def)

lemma metrics_only_cache_error: "metrics_only t (snd (handleCacheError t e))"
  by (simp add: handleCacheError_def)

lemma metrics_only_cache_errors: "metrics_only t (snd (handle_cache_errors t es))"
proof (induction es arbitrary: t)
  case (Cons e es)
  from Cons.IH [of "count_metric CounterStale t"] show ?case
    by (auto simp: handleCacheError_def intro: metrics_only_trans [OF metrics_only_count])
qed simp

lemma updateTargetCache_conn:
  assumes "updateTargetCache cops show_val h n t c = Done (err, t', c')"
  shows "metrics_only t t'"
proof -
  obtain r c1 where r: "co_GnmiUpdate cops h n c = (r, c1)" by (cases "co_GnmiUpdate cops h n c")
  show ?thesis
  proof (cases r)
    case None
    with assms r show ?thesis by (simp add: updateTargetCache_cases)
  next
    case (Some e)
    have eq: "t' = snd (case e of ErrList errs \<Rightarrow> handle_cache_errors t errs
        | PlainError e \<Rightarrow> handleCacheError t e)"
      using assms r Some
      by (cases "GNMINotificationPrettyString show_val (Some n)")
         (auto simp: updateTargetCache_cases Let_def split: if_splits)
    show ?thesis
      unfolding eq by (cases e) (simp_all add: metrics_only_cache_errors metrics_only_cache_error)
  qed
qed

lemma update_any_target_Done:
  assumes "update_any_target cops show_val n t c = Done r"
  shows "\<exists>p h c2. n_Prefix n = Some p \<and> updateTargetCache cops show_val h n
    (t\<lparr>cn_seen := gomap_set (p_Target p) True (cn_seen t)\<rparr>) c2 = Done r"
proof -
  obtain p where p: "n_Prefix n = Some p"
    using assms by (cases "n_Prefix n") (auto simp: update_any_target_def)
  obtain h c2 where h: "(case co_GetTarget cops (p_Target p) c of
      Some h \<Rightarrow> (h, c) | None \<Rightarrow> co_Add cops (p_Target p) c) = (h, c2)"
    by (cases "case co_GetTarget cops (p_Target p) c of
      Some h \<Rightarrow> (h, c) | None \<Rightarrow> co_Add cops (p_Target p) c")
  show ?thesis
    using assms p h by (auto simp: update_any_target_def Let_def)
qed

text \<open>What a message leaves of a connection besides the metrics: connected, and more seen or synced.\<close>

lemma handleUpdate_conn:
  assumes "handleUpdate cops show_val config now msg t c = Done (err, t', c')"
  shows "cn_connected t' \<and> cn_client t' = cn_client t \<and> cn_clientCancel t' = cn_clientCancel t \<and>
    cn_connecting t' = cn_connecting t \<and> cn_stopped t' = cn_stopped t \<and>
    cn_lockAcquired t' = cn_lockAcquired t \<and> cn_queryTarget t' = cn_queryTarget t"
proof -
  define same where "same u \<longleftrightarrow> cn_connected u \<and> cn_client u = cn_client t \<and>
    cn_clientCancel u = cn_clientCancel t \<and> cn_connecting u = cn_connecting t \<and>
    cn_stopped u = cn_stopped t \<and> cn_lockAcquired u = cn_lockAcquired t \<and>
    cn_queryTarget u = cn_queryTarget t" for u :: "('a, 'b) conn"
  have mo: "same v" if "metrics_only u v" "same u" for u v :: "('a, 'b) conn"
    using that by (auto simp: same_def metrics_only_def)
  obtain t1 c1 where m: "mark_connected cops (count_metric CounterNotifications t) c = (t1, c1)"
    by (cases "mark_connected cops (count_metric CounterNotifications t) c")
  have t1: "same t1"
    using m by (auto simp: mark_connected_def same_def count_metric_def split: if_splits)
  have seen: "same u \<Longrightarrow> same (u\<lparr>cn_seen := x\<rparr>)" for u x by (simp add: same_def)
  have any: "same v" if a: "update_any_target cops show_val n u c1 = Done (e, v, c2)" and b: "same u" for n u e v c2
  proof -
    obtain p :: path and h c3 where "updateTargetCache cops show_val h n
        (u\<lparr>cn_seen := gomap_set (p_Target p) True (cn_seen u)\<rparr>) c3 = Done (e, v, c2)"
      using update_any_target_Done [OF a] by blast
    from mo [OF updateTargetCache_conn [OF this] seen [OF b]] show ?thesis .
  qed
  have "same t'"
  proof (cases "\<exists>v. msg = ResponseMsg (Some (ResponseUpdate v))")
    case False
    have "same (sync t1)" using t1 by (simp add: sync_def same_def count_metric_def)
    with assms m False t1 show ?thesis
      by (auto simp: handleUpdate_def Let_def
          split: gnmi_msg.splits option.splits subscribe_response.splits)
  next
    case True
    then obtain v where "handle_notification cops show_val config now v t1 c1 = Done (err, t', c')"
      using assms m by (auto simp: handleUpdate_def)
    moreover have "same (count_metric CounterRejected t1)" using mo [OF metrics_only_count t1] .
    moreover have "same (count_update now n t1)" for n using mo [OF metrics_only_update t1] .
    ultimately show ?thesis
      by (auto simp: handle_notification_def go_simps Let_def split: if_splits
          intro: any mo [OF updateTargetCache_conn])
  qed
  then show ?thesis by (simp add: same_def)
qed

lemma conn_inv_step:
  assumes "conn_call_step ops cops show_val config call (t, c) = Done (t', c')" and "conn_inv t"
  shows "conn_inv t'"
proof (cases call)
  case (CallConnect fresh)
  then have "t' = snd (doConnect ops config fresh t)" using assms(1) by simp
  then show ?thesis
    using assms(2)
    by (cases rule: doConnect_cases [where ops = ops and config = config and fresh = fresh and t = t])
       (auto simp: conn_inv_def)
next
  case (CallUpdate now msg)
  then obtain err where "handleUpdate cops show_val config now msg t c = Done (err, t', c')"
    using assms(1) by (cases "handleUpdate cops show_val config now msg t c") auto
  from handleUpdate_conn [OF this] assms(2) show ?thesis by (auto simp: conn_inv_def)
next
  case CallDisconnected
  with assms show ?thesis by (auto simp: conn_inv_def disconnected_def)
next
  case CallDisconnect
  with assms show ?thesis by (auto simp: conn_inv_def disconnect_def go_simps)
qed (use assms in \<open>auto simp: go_simps\<close>)

text \<open>
  C23: in the whole life of a connection, a target counts as synced, and targets count as seen
  on it, only while it counts as connected, and the cancel function that \<open>unlock\<close> calls belongs
  to the client that \<open>disconnect\<close> closes. A disconnect clears all three, and after it no
  target is seen until the next update.
\<close>

theorem connection_life_invariant:
  assumes "fold_outcome (conn_call_step ops cops show_val config) calls (t, c) = Done (t', c')"
    and "conn_inv t"
  shows "conn_inv t' \<and> conn_inv (fst (disconnected cops t' c')) \<and>
    \<not> Seen (fst (disconnected cops t' c')) tgt \<and> \<not> cn_synced (fst (disconnected cops t' c'))"
proof -
  have "conn_inv (fst (t', c'))"
  proof (rule fold_outcome_invariant [where I = "\<lambda>x. conn_inv (fst x)", OF assms(1)])
    show "conn_inv (fst (t, c))" using assms(2) by simp
    fix x and s u :: "('a, 'b) conn \<times> 'c"
    assume "conn_inv (fst s)" "conn_call_step ops cops show_val config x s = Done u"
    then show "conn_inv (fst u)" by (cases s; cases u) (auto dest: conn_inv_step)
  qed
  then show ?thesis by (auto simp: conn_inv_def disconnected_def Seen_def gomap_index_def)
qed

theorem connection_life_invariant_witness:
  "\<exists>t' c'. fold_outcome (conn_call_step example_client_ops log_cache_ops (\<lambda>_. []) zero_gateway_config)
     [CallConnect 7, CallUpdate 0 (ResponseMsg (Some (ResponseSync True))), CallUnlock]
     (example_conn, []) = Done (t', c') \<and> conn_inv t' \<and> cn_synced t' \<and> cn_client t' = Some 7"
proof -
  let ?run = "fold_outcome (conn_call_step example_client_ops log_cache_ops (\<lambda>_. []) zero_gateway_config)
     [CallConnect 7, CallUpdate 0 (ResponseMsg (Some (ResponseSync True))), CallUnlock]
     (example_conn, [])"
  obtain t' c' where r: "?run = Done (t', c')" "cn_synced t'" "cn_client t' = Some 7"
    by (simp add: doConnect_def connect_query_def example_client_ops_def example_conn_def
        example_target_def warn_no_tls_def has_meta_def handleUpdate_def mark_connected_def sync_def
        unlock_def log_cache_ops_def count_metric_def Let_def)
  have "conn_inv example_conn" by (simp add: conn_inv_def example_conn_def)
  from connection_life_invariant [OF r(1) this] r show ?thesis by blast
qed

end
