(* ===== verification/ConnLoop.thy ===== *)
theory ConnLoop
  imports ConnState ZkLockSystem
begin

text \<open>
  The goroutines \<open>connect\<close> and \<open>connectWithLock\<close> of \<open>gateway/connections/state.go\<close> as machines
  whose steps are the statements other goroutines can run between: the check of \<open>stopped\<close>, the
  acquisition of a connection slot, the attempt to take the lock, the start and the end of the
  subscription, the release of the lock, and the release of the slot at the end. The weighted
  semaphore is a parameter; the locker is any \<open>distributed_locker\<close>.
\<close>

record 'm semaphore =
  sem_TryAcquire :: "'m \<Rightarrow> bool \<times> 'm"
  sem_Release :: "'m \<Rightarrow> 'm"

record ('l, 'w, 'e) locker_ops =
  lk_LockAcquired :: "'l \<Rightarrow> bool"
  lk_Try :: "'w \<Rightarrow> 'l \<Rightarrow> (bool \<times> 'e option) \<times> 'l \<times> 'w"
  lk_Unlock :: "'w \<Rightarrow> 'l \<Rightarrow> 'e option \<times> 'l \<times> 'w"

datatype loop_at =
    LoopHead
  | LoopSlot
  | LoopLock
  | LoopLocked
  | LoopConnect
  | LoopSubscribed
  | LoopRelease
  | LoopExit
  | LoopDone

record ('h, 'l) conn_run =
  rn_conn :: "('h, 'l) conn"
  rn_slot :: bool
  rn_at :: loop_at

definition loop_started :: "('h, 'l) conn \<Rightarrow> ('h, 'l) conn_run" where
  "loop_started t = \<lparr>rn_conn = t, rn_slot = False, rn_at = LoopHead\<rparr>"

text \<open>The statements the two loops share.\<close>

definition head_step :: "('h, 'l) conn_run \<Rightarrow> ('h, 'l) conn_run" where
  "head_step r = r\<lparr>rn_at := (if \<not> cn_stopped (rn_conn r) then LoopSlot else LoopExit)\<rparr>"

definition slot_step :: "'m semaphore \<Rightarrow> loop_at \<Rightarrow> ('h, 'l) conn_run \<Rightarrow> 'm \<Rightarrow>
    ('h, 'l) conn_run \<times> 'm" where
  "slot_step sem after r m =
     (let (slot, m) = (if \<not> rn_slot r then sem_TryAcquire sem m else (True, m))
      in (r\<lparr>rn_slot := slot, rn_at := (if slot then after else LoopHead)\<rparr>, m))"

definition attempt_step :: "client_ops \<Rightarrow> gateway_config \<Rightarrow> nat \<Rightarrow> loop_at \<Rightarrow>
    ('h, 'l) conn_run \<Rightarrow> ('h, 'l) conn_run" where
  "attempt_step ops config fresh failed r =
     (case doConnect ops config fresh (rn_conn r) of
        (Subscribes q, t) \<Rightarrow> r\<lparr>rn_conn := t, rn_at := LoopSubscribed\<rparr>
      | (_, t) \<Rightarrow> r\<lparr>rn_conn := t, rn_at := failed\<rparr>)"

definition exit_step :: "'m semaphore \<Rightarrow> ('h, 'l) conn_run \<Rightarrow> 'm \<Rightarrow> ('h, 'l) conn_run \<times> 'm" where
  "exit_step sem r m =
     (if rn_slot r then (r\<lparr>rn_slot := False, rn_at := LoopDone\<rparr>, sem_Release sem m)
      else (r\<lparr>rn_at := LoopDone\<rparr>, m))"

text \<open>One step of \<open>connect\<close>; \<open>Subscribe\<close> returns at the step from \<open>LoopSubscribed\<close>.\<close>

definition connect_step :: "client_ops \<Rightarrow> gateway_config \<Rightarrow> nat \<Rightarrow> 'm semaphore \<Rightarrow>
    ('h, 'l) conn_run \<Rightarrow> 'm \<Rightarrow> ('h, 'l) conn_run \<times> 'm" where
  "connect_step ops config fresh sem r m =
     (case rn_at r of
        LoopHead \<Rightarrow> (head_step r, m)
      | LoopSlot \<Rightarrow> slot_step sem LoopConnect r m
      | LoopConnect \<Rightarrow> (attempt_step ops config fresh LoopHead r, m)
      | LoopSubscribed \<Rightarrow> (r\<lparr>rn_at := LoopHead\<rparr>, m)
      | LoopExit \<Rightarrow> exit_step sem r m
      | _ \<Rightarrow> (r, m))"

text \<open>The two statements of \<open>connectWithLock\<close> that use the lock.\<close>

definition lock_step :: "('l, 'w, 'e) locker_ops \<Rightarrow> ('h, 'l) conn_run \<Rightarrow> 'w \<Rightarrow>
    (('h, 'l) conn_run \<times> 'w) outcome" where
  "lock_step lk r w =
     (if \<not> cn_lockAcquired (rn_conn r) then
        bind_outcome (deref (cn_lock (rn_conn r))) (\<lambda>l.
          case lk_Try lk w l of
            ((acquired, err), l', w') \<Rightarrow>
              Done (r\<lparr>rn_conn := (rn_conn r)\<lparr>cn_lock := Some l', cn_lockAcquired := acquired\<rparr>,
                rn_at := LoopLocked\<rparr>, w'))
      else Done (r\<lparr>rn_at := LoopLocked\<rparr>, w))"

definition release_step :: "('l, 'w, 'e) locker_ops \<Rightarrow> ('h, 'l) conn_run \<Rightarrow> 'w \<Rightarrow>
    (('h, 'l) conn_run \<times> 'w) outcome" where
  "release_step lk r w =
     bind_outcome (deref (cn_lock (rn_conn r))) (\<lambda>l.
       let (l', w') = (if lk_LockAcquired lk l then snd (lk_Unlock lk w l) else (l, w))
       in Done (r\<lparr>rn_conn := (rn_conn r)\<lparr>cn_lock := Some l', cn_lockAcquired := False\<rparr>,
            rn_at := LoopHead\<rparr>, w'))"

definition connectWithLock_step :: "client_ops \<Rightarrow> gateway_config \<Rightarrow> nat \<Rightarrow> 'm semaphore \<Rightarrow>
    ('l, 'w, 'e) locker_ops \<Rightarrow> ('h, 'l) conn_run \<Rightarrow> 'm \<Rightarrow> 'w \<Rightarrow>
    (('h, 'l) conn_run \<times> 'm \<times> 'w) outcome" where
  "connectWithLock_step ops config fresh sem lk r m w =
     (case rn_at r of
        LoopHead \<Rightarrow> Done (head_step r, m, w)
      | LoopSlot \<Rightarrow> (case slot_step sem LoopLock r m of (r, m) \<Rightarrow> Done (r, m, w))
      | LoopLock \<Rightarrow> map_done (\<lambda>(r, w). (r, m, w)) (lock_step lk r w)
      | LoopLocked \<Rightarrow>
          Done (r\<lparr>rn_at := (if cn_lockAcquired (rn_conn r) then LoopConnect else LoopHead)\<rparr>, m, w)
      | LoopConnect \<Rightarrow> Done (attempt_step ops config fresh LoopRelease r, m, w)
      | LoopSubscribed \<Rightarrow> Done (r\<lparr>rn_at := LoopRelease\<rparr>, m, w)
      | LoopRelease \<Rightarrow> map_done (\<lambda>(r, w). (r, m, w)) (release_step lk r w)
      | LoopExit \<Rightarrow> (case exit_step sem r m of (r, m) \<Rightarrow> Done (r, m, w))
      | LoopDone \<Rightarrow> Done (r, m, w))"

section \<open>The process\<close>

text \<open>
  All connections of a gateway over one semaphore and one lock service. \<open>cl_fresh\<close> numbers the
  clients. A connection with \<open>cn_useLock\<close> runs \<open>connectWithLock\<close>, the others \<open>connect\<close>.
\<close>

record ('h, 'l, 'm, 'w) conn_system =
  sy_runs :: "('h, 'l) conn_run list"
  sy_sem :: 'm
  sy_world :: 'w
  sy_fresh :: nat

definition run_step :: "client_ops \<Rightarrow> gateway_config \<Rightarrow> 'm semaphore \<Rightarrow> ('l, 'w, 'e) locker_ops \<Rightarrow>
    nat \<Rightarrow> ('h, 'l, 'm, 'w) conn_system \<Rightarrow> ('h, 'l, 'm, 'w) conn_system outcome" where
  "run_step ops config sem lk i s =
     (let r = sy_runs s ! i in
      if cn_useLock (rn_conn r)
      then map_done (\<lambda>(r, m, w). s\<lparr>sy_runs := (sy_runs s)[i := r], sy_sem := m, sy_world := w,
             sy_fresh := sy_fresh s + 1\<rparr>)
           (connectWithLock_step ops config (sy_fresh s) sem lk r (sy_sem s) (sy_world s))
      else (case connect_step ops config (sy_fresh s) sem r (sy_sem s) of
             (r, m) \<Rightarrow> Done (s\<lparr>sy_runs := (sy_runs s)[i := r], sy_sem := m, sy_fresh := sy_fresh s + 1\<rparr>)))"

text \<open>
  A step of the process: a goroutine step, a new connection, any other change of a
  connection (a message, a callback, \<open>stopped\<close>, a new target) that keeps what the loop owns, a
  change of the lock by its watch goroutine, or a change of the lock service by others.
\<close>

definition conn_touched :: "('h, 'l) conn \<Rightarrow> ('h, 'l) conn \<Rightarrow> bool" where
  "conn_touched t t' \<longleftrightarrow> cn_lockAcquired t' = cn_lockAcquired t \<and> cn_useLock t' = cn_useLock t \<and>
     cn_lock t' = cn_lock t \<and> (cn_stopped t \<longrightarrow> cn_stopped t')"

inductive conn_system_step ::
    "client_ops \<Rightarrow> gateway_config \<Rightarrow> 'm semaphore \<Rightarrow> ('l, 'w, 'e) locker_ops \<Rightarrow>
     ('h, 'l, 'm, 'w) conn_system \<Rightarrow> ('h, 'l, 'm, 'w) conn_system \<Rightarrow> bool"
  for ops config sem lk where
  run: "i < length (sy_runs s) \<Longrightarrow> run_step ops config sem lk i s = Done s' \<Longrightarrow>
    conn_system_step ops config sem lk s s'"
| new: "\<not> cn_lockAcquired t \<Longrightarrow> (cn_useLock t \<longrightarrow> cn_lock t \<noteq> None) \<Longrightarrow>
    conn_system_step ops config sem lk s (s\<lparr>sy_runs := sy_runs s @ [loop_started t]\<rparr>)"
| touch: "i < length (sy_runs s) \<Longrightarrow> conn_touched (rn_conn (sy_runs s ! i)) t \<Longrightarrow>
    conn_system_step ops config sem lk s
      (s\<lparr>sy_runs := (sy_runs s)[i := (sy_runs s ! i)\<lparr>rn_conn := t\<rparr>]\<rparr>)"
| watch: "i < length (sy_runs s) \<Longrightarrow> cn_lock (rn_conn (sy_runs s ! i)) = Some l \<Longrightarrow>
    lk_Unlock lk (sy_world s) l = (e, l', w') \<Longrightarrow>
    conn_system_step ops config sem lk s
      (s\<lparr>sy_runs := (sy_runs s)[i := (sy_runs s ! i)\<lparr>rn_conn :=
            (rn_conn (sy_runs s ! i))\<lparr>cn_lock := Some l'\<rparr>\<rparr>], sy_world := w'\<rparr>)"
| world: "conn_system_step ops config sem lk s (s\<lparr>sy_world := w'\<rparr>)"

inductive conn_system_reachable ::
    "client_ops \<Rightarrow> gateway_config \<Rightarrow> 'm semaphore \<Rightarrow> ('l, 'w, 'e) locker_ops \<Rightarrow>
     ('h, 'l, 'm, 'w) conn_system \<Rightarrow> ('h, 'l, 'm, 'w) conn_system \<Rightarrow> bool"
  for ops config sem lk s0 where
  start: "conn_system_reachable ops config sem lk s0 s0"
| step: "conn_system_reachable ops config sem lk s0 s \<Longrightarrow> conn_system_step ops config sem lk s s' \<Longrightarrow>
    conn_system_reachable ops config sem lk s0 s'"

text \<open>
  The semaphore of \<open>golang.org/x/sync\<close>, as documented, with \<open>held\<close> slots of \<open>limit\<close>:
  a successful acquisition takes a free slot, a failed one takes none, a release frees one.
\<close>

definition slot_semaphore :: "'m semaphore \<Rightarrow> ('m \<Rightarrow> nat) \<Rightarrow> nat \<Rightarrow> bool" where
  "slot_semaphore sem held limit \<longleftrightarrow>
     (\<forall>m m'. sem_TryAcquire sem m = (True, m') \<longrightarrow> held m < limit \<and> held m' = held m + 1) \<and>
     (\<forall>m m'. sem_TryAcquire sem m = (False, m') \<longrightarrow> held m' = held m) \<and>
     (\<forall>m. held m > 0 \<longrightarrow> held (sem_Release sem m) = held m - 1)"

section \<open>Invariants of the loops\<close>

definition holds_slot_at :: "loop_at \<Rightarrow> bool" where
  "holds_slot_at a \<longleftrightarrow> a \<in> {LoopLock, LoopLocked, LoopConnect, LoopSubscribed, LoopRelease}"

definition holds_lock_at :: "loop_at \<Rightarrow> bool" where
  "holds_lock_at a \<longleftrightarrow> a \<in> {LoopConnect, LoopSubscribed, LoopRelease}"

text \<open>
  A goroutine holds a slot where it uses one, none at its end; one that uses the lock knows it
  holds it from the successful attempt to the release, and nowhere else except right after the
  attempt.
\<close>

definition loop_inv :: "('h, 'l) conn_run \<Rightarrow> bool" where
  "loop_inv r \<longleftrightarrow>
     (holds_slot_at (rn_at r) \<longrightarrow> rn_slot r) \<and> (rn_at r = LoopDone \<longrightarrow> \<not> rn_slot r) \<and>
     (cn_useLock (rn_conn r) \<longrightarrow> cn_lock (rn_conn r) \<noteq> None) \<and>
     (\<not> cn_useLock (rn_conn r) \<longrightarrow> \<not> cn_lockAcquired (rn_conn r)) \<and>
     (cn_useLock (rn_conn r) \<and> holds_lock_at (rn_at r) \<longrightarrow> cn_lockAcquired (rn_conn r)) \<and>
     (\<not> holds_lock_at (rn_at r) \<and> rn_at r \<noteq> LoopLocked \<longrightarrow> \<not> cn_lockAcquired (rn_conn r))"

text \<open>What a step does to the slots: the semaphore follows the goroutine.\<close>

definition slots_follow :: "('m \<Rightarrow> nat) \<Rightarrow> nat \<Rightarrow> ('h, 'l) conn_run \<Rightarrow> 'm \<Rightarrow> ('h, 'l) conn_run \<Rightarrow> 'm \<Rightarrow> bool" where
  "slots_follow held limit r m r' m' \<longleftrightarrow>
     held m' + of_bool (rn_slot r) = held m + of_bool (rn_slot r') \<and> held m' \<le> limit"

lemma slot_step_inv:
  assumes "slot_semaphore sem held limit" and "slot_step sem after r m = (r', m')"
    and "held m \<le> limit"
  shows "slots_follow held limit r m r' m' \<and> rn_conn r' = rn_conn r \<and>
    (rn_at r' = after \<and> rn_slot r' \<or> rn_at r' = LoopHead \<and> \<not> rn_slot r')"
proof (cases "rn_slot r")
  case True
  with assms(2,3) show ?thesis by (auto simp: slot_step_def slots_follow_def)
next
  case False
  obtain ok m1 where a: "sem_TryAcquire sem m = (ok, m1)" by (cases "sem_TryAcquire sem m")
  have "held m1 = held m + of_bool ok" "held m1 \<le> limit"
    using assms(1,3) a by (cases ok; auto simp: slot_semaphore_def Suc_le_eq)+
  with False a assms(2) show ?thesis
    by (auto simp: slot_step_def slots_follow_def Let_def)
qed

lemma exit_step_inv:
  assumes "slot_semaphore sem held limit" and "exit_step sem r m = (r', m')"
    and "held m \<le> limit" and "rn_slot r \<longrightarrow> held m > 0"
  shows "slots_follow held limit r m r' m' \<and> rn_conn r' = rn_conn r \<and> rn_at r' = LoopDone \<and> \<not> rn_slot r'"
proof (cases "rn_slot r")
  case True
  then have "held (sem_Release sem m) = held m - 1" "held m > 0"
    using assms(1,4) by (auto simp: slot_semaphore_def)
  with True assms(2,3) show ?thesis by (auto simp: exit_step_def slots_follow_def)
next
  case False
  with assms(2,3) show ?thesis by (auto simp: exit_step_def slots_follow_def)
qed

lemma attempt_step_inv:
  "rn_slot (attempt_step ops config fresh failed r) = rn_slot r \<and>
   rn_at (attempt_step ops config fresh failed r) \<in> {LoopSubscribed, failed} \<and>
   cn_useLock (rn_conn (attempt_step ops config fresh failed r)) = cn_useLock (rn_conn r) \<and>
   cn_lock (rn_conn (attempt_step ops config fresh failed r)) = cn_lock (rn_conn r) \<and>
   cn_lockAcquired (rn_conn (attempt_step ops config fresh failed r)) = cn_lockAcquired (rn_conn r) \<and>
   cn_stopped (rn_conn (attempt_step ops config fresh failed r)) = cn_stopped (rn_conn r)"
  by (cases rule: doConnect_cases [where ops = ops and config = config and fresh = fresh and t = "rn_conn r"])
     (auto simp: attempt_step_def)

lemma connect_step_inv:
  assumes sem: "slot_semaphore sem held limit" and inv: "loop_inv r" "held m \<le> limit"
    and pos: "rn_slot r \<longrightarrow> held m > 0" and nolock: "\<not> cn_useLock (rn_conn r)"
    and st: "connect_step ops config fresh sem r m = (r', m')"
  shows "loop_inv r' \<and> slots_follow held limit r m r' m' \<and> cn_useLock (rn_conn r') = cn_useLock (rn_conn r)"
proof (cases "rn_at r")
  case LoopSlot
  then have "slot_step sem LoopConnect r m = (r', m')" using st by (simp add: connect_step_def)
  from slot_step_inv [OF sem this inv(2)] inv(1) nolock show ?thesis
    by (auto simp: loop_inv_def holds_slot_at_def holds_lock_at_def)
next
  case LoopConnect
  have m': "m' = m" and r': "r' = attempt_step ops config fresh LoopHead r"
    using LoopConnect st by (auto simp: connect_step_def)
  show ?thesis
    using attempt_step_inv [of ops config fresh LoopHead r] inv nolock LoopConnect
    by (auto simp: r' m' loop_inv_def slots_follow_def holds_slot_at_def holds_lock_at_def)
next
  case LoopExit
  then have "exit_step sem r m = (r', m')" using st by (simp add: connect_step_def)
  from exit_step_inv [OF sem this inv(2) pos] inv(1) nolock show ?thesis
    by (auto simp: loop_inv_def holds_slot_at_def holds_lock_at_def)
qed (use inv nolock st in \<open>auto simp: connect_step_def head_step_def loop_inv_def slots_follow_def
      holds_slot_at_def holds_lock_at_def split: if_splits\<close>)

lemma connectWithLock_step_inv:
  assumes sem: "slot_semaphore sem held limit" and inv: "loop_inv r" "held m \<le> limit"
    and pos: "rn_slot r \<longrightarrow> held m > 0" and lock: "cn_useLock (rn_conn r)"
  shows "\<exists>r' m' w'. connectWithLock_step ops config fresh sem lk r m w = Done (r', m', w') \<and>
    loop_inv r' \<and> slots_follow held limit r m r' m' \<and> cn_useLock (rn_conn r') = cn_useLock (rn_conn r)"
proof -
  obtain l where l: "cn_lock (rn_conn r) = Some l" using inv(1) lock by (auto simp: loop_inv_def)
  show ?thesis
  proof (cases "rn_at r")
    case LoopSlot
    obtain r' m' where st: "slot_step sem LoopLock r m = (r', m')" by (cases "slot_step sem LoopLock r m")
    from slot_step_inv [OF sem st inv(2)] st inv(1) LoopSlot show ?thesis
      by (auto simp: connectWithLock_step_def loop_inv_def holds_slot_at_def holds_lock_at_def)
  next
    case LoopLock
    obtain b e l' w' where t: "lk_Try lk w l = ((b, e), l', w')" by (metis prod.collapse)
    show ?thesis
      using LoopLock inv lock l t
      by (auto simp: connectWithLock_step_def lock_step_def loop_inv_def slots_follow_def
          holds_slot_at_def holds_lock_at_def)
  next
    case LoopConnect
    show ?thesis
      using attempt_step_inv [of ops config fresh LoopRelease r] inv lock LoopConnect
      by (auto simp: connectWithLock_step_def loop_inv_def slots_follow_def holds_slot_at_def holds_lock_at_def)
  next
    case LoopRelease
    obtain l' w' where u: "(if lk_LockAcquired lk l then snd (lk_Unlock lk w l) else (l, w)) = (l', w')"
      by (cases "if lk_LockAcquired lk l then snd (lk_Unlock lk w l) else (l, w)")
    show ?thesis
      using LoopRelease inv lock l u
      by (auto simp: connectWithLock_step_def release_step_def loop_inv_def slots_follow_def
          holds_slot_at_def holds_lock_at_def)
  next
    case LoopExit
    obtain r' m' where st: "exit_step sem r m = (r', m')" by (cases "exit_step sem r m")
    from exit_step_inv [OF sem st inv(2) pos] st inv(1) LoopExit show ?thesis
      by (auto simp: connectWithLock_step_def loop_inv_def holds_slot_at_def holds_lock_at_def)
  qed (use inv lock in \<open>auto simp: connectWithLock_step_def head_step_def loop_inv_def slots_follow_def
        holds_slot_at_def holds_lock_at_def split: if_splits\<close>)
qed

section \<open>Invariants of the process\<close>

definition slots_held :: "('h, 'l) conn_run list \<Rightarrow> nat" where
  "slots_held rs = length (filter rn_slot rs)"

lemma slots_held_update:
  "i < length rs \<Longrightarrow> slots_held (rs[i := r]) + of_bool (rn_slot (rs ! i)) = slots_held rs + of_bool (rn_slot r)"
proof (induction rs arbitrary: i)
  case (Cons x rs)
  then show ?case by (cases i) (auto simp: slots_held_def)
qed simp

lemma slots_held_pos: "i < length rs \<Longrightarrow> rn_slot (rs ! i) \<Longrightarrow> slots_held rs > 0"
  unfolding slots_held_def by (metis length_greater_0_conv filter_empty_conv nth_mem)

definition conn_system_inv :: "('m \<Rightarrow> nat) \<Rightarrow> nat \<Rightarrow> ('h, 'l, 'm, 'w) conn_system \<Rightarrow> bool" where
  "conn_system_inv held limit s \<longleftrightarrow>
     list_all loop_inv (sy_runs s) \<and> held (sy_sem s) = slots_held (sy_runs s) \<and> held (sy_sem s) \<le> limit"

lemma conn_system_inv_update:
  assumes inv: "conn_system_inv held limit s" and i: "i < length (sy_runs s)"
    and r': "loop_inv r'" "slots_follow held limit (sy_runs s ! i) (sy_sem s) r' m'"
  shows "list_all loop_inv ((sy_runs s)[i := r']) \<and>
    held m' = slots_held ((sy_runs s)[i := r']) \<and> held m' \<le> limit"
proof -
  have "list_all loop_inv ((sy_runs s)[i := r'])"
    using inv r'(1) by (auto simp: conn_system_inv_def list_all_iff dest: set_update_subset_insert [THEN subsetD])
  then show ?thesis
    using slots_held_update [OF i, of r'] inv r'(2) by (auto simp: conn_system_inv_def slots_follow_def)
qed

lemma run_step_inv:
  assumes sem: "slot_semaphore sem held limit" and inv: "conn_system_inv held limit s"
    and i: "i < length (sy_runs s)"
  shows "\<exists>s'. run_step ops config sem lk i s = Done s' \<and> conn_system_inv held limit s'"
proof -
  let ?r = "sy_runs s ! i"
  have r: "loop_inv ?r" "held (sy_sem s) \<le> limit" "rn_slot ?r \<longrightarrow> held (sy_sem s) > 0"
    using inv i slots_held_pos [OF i] by (auto simp: conn_system_inv_def list_all_length)
  show ?thesis
  proof (cases "cn_useLock (rn_conn ?r)")
    case True
    obtain r' m' w' where st: "connectWithLock_step ops config (sy_fresh s) sem lk ?r (sy_sem s) (sy_world s) =
          Done (r', m', w')" "loop_inv r'" "slots_follow held limit ?r (sy_sem s) r' m'"
      using connectWithLock_step_inv [OF sem r True, of ops config "sy_fresh s" lk "sy_world s"] by blast
    with True conn_system_inv_update [OF inv i st(2,3)] show ?thesis
      by (simp add: run_step_def conn_system_inv_def Let_def)
  next
    case False
    obtain r' m' where st: "connect_step ops config (sy_fresh s) sem ?r (sy_sem s) = (r', m')"
      by (cases "connect_step ops config (sy_fresh s) sem ?r (sy_sem s)")
    from connect_step_inv [OF sem r False st]
    have "loop_inv r'" "slots_follow held limit ?r (sy_sem s) r' m'" by blast+
    from conn_system_inv_update [OF inv i this] False st show ?thesis
      by (simp add: run_step_def conn_system_inv_def Let_def)
  qed
qed

lemma conn_system_inv_step:
  assumes "conn_system_step ops config sem lk s s'" and sem: "slot_semaphore sem held limit"
    and inv: "conn_system_inv held limit s"
  shows "conn_system_inv held limit s'"
  using assms(1)
proof cases
  case (run i)
  with run_step_inv [OF sem inv, of i ops config lk] show ?thesis by auto
next
  case (new t)
  with inv show ?thesis
    by (auto simp: conn_system_inv_def slots_held_def loop_started_def loop_inv_def holds_slot_at_def
        holds_lock_at_def)
next
  case (touch i t)
  let ?r = "(sy_runs s ! i)\<lparr>rn_conn := t\<rparr>"
  have "loop_inv (sy_runs s ! i)" using inv touch by (auto simp: conn_system_inv_def list_all_length)
  then have "loop_inv ?r" using touch by (auto simp: loop_inv_def conn_touched_def)
  moreover have "slots_follow held limit (sy_runs s ! i) (sy_sem s) ?r (sy_sem s)"
    using inv by (simp add: slots_follow_def conn_system_inv_def)
  ultimately have "list_all loop_inv ((sy_runs s)[i := ?r]) \<and>
      held (sy_sem s) = slots_held ((sy_runs s)[i := ?r]) \<and> held (sy_sem s) \<le> limit"
    by (rule conn_system_inv_update [OF inv touch(2)])
  then show ?thesis using touch(1) by (simp add: conn_system_inv_def)
next
  case (watch i l e l' w')
  let ?r = "(sy_runs s ! i)\<lparr>rn_conn := (rn_conn (sy_runs s ! i))\<lparr>cn_lock := Some l'\<rparr>\<rparr>"
  have "loop_inv (sy_runs s ! i)" using inv watch by (auto simp: conn_system_inv_def list_all_length)
  then have "loop_inv ?r" by (auto simp: loop_inv_def)
  moreover have "slots_follow held limit (sy_runs s ! i) (sy_sem s) ?r (sy_sem s)"
    using inv by (simp add: slots_follow_def conn_system_inv_def)
  ultimately have "list_all loop_inv ((sy_runs s)[i := ?r]) \<and>
      held (sy_sem s) = slots_held ((sy_runs s)[i := ?r]) \<and> held (sy_sem s) \<le> limit"
    by (rule conn_system_inv_update [OF inv watch(2)])
  then show ?thesis using watch(1) by (simp add: conn_system_inv_def)
next
  case (world w')
  with inv show ?thesis by (simp add: conn_system_inv_def)
qed

definition conn_system_init :: "'m \<Rightarrow> 'w \<Rightarrow> ('h, 'l, 'm, 'w) conn_system" where
  "conn_system_init m w = \<lparr>sy_runs = [], sy_sem = m, sy_world = w, sy_fresh = 0\<rparr>"

lemma conn_system_inv_reachable:
  assumes "conn_system_reachable ops config sem lk (conn_system_init m w) s"
    and "slot_semaphore sem held limit" and "held m = 0"
  shows "conn_system_inv held limit s"
  using assms(1)
proof (induction rule: conn_system_reachable.induct)
  case start
  with assms(3) show ?case by (simp add: conn_system_inv_def conn_system_init_def slots_held_def)
next
  case (step s s')
  then show ?case using conn_system_inv_step assms(2) by blast
qed

lemma subscribed_le_slots:
  "list_all loop_inv rs \<Longrightarrow> length (filter (\<lambda>r. rn_at r = LoopSubscribed) rs) \<le> slots_held rs"
  by (induction rs) (auto simp: slots_held_def loop_inv_def holds_slot_at_def)

text \<open>
  Connections respect the target limit and the lock. In every reachable state of the
  process, at most \<open>limit\<close> connections hold a slot or are subscribed, every subscribed
  connection holds a slot, and one that uses the lock has been told by \<open>Try\<close> that it holds it.
\<close>

theorem subscribed_connections_limited:
  assumes "conn_system_reachable ops config sem lk (conn_system_init m w) s"
    and "slot_semaphore sem held limit" and "held m = 0"
  shows "slots_held (sy_runs s) \<le> limit \<and>
    length (filter (\<lambda>r. rn_at r = LoopSubscribed) (sy_runs s)) \<le> limit \<and>
    (\<forall>r \<in> set (sy_runs s). rn_at r = LoopSubscribed \<longrightarrow>
       rn_slot r \<and> (cn_useLock (rn_conn r) \<longrightarrow> cn_lockAcquired (rn_conn r)))"
proof -
  have inv: "conn_system_inv held limit s" by (rule conn_system_inv_reachable [OF assms])
  then have "list_all loop_inv (sy_runs s)" "slots_held (sy_runs s) \<le> limit"
    by (simp_all add: conn_system_inv_def)
  moreover from this(1) have "rn_slot r \<and> (cn_useLock (rn_conn r) \<longrightarrow> cn_lockAcquired (rn_conn r))"
    if "r \<in> set (sy_runs s)" "rn_at r = LoopSubscribed" for r
    using that by (auto simp: list_all_iff loop_inv_def holds_slot_at_def holds_lock_at_def)
  ultimately show ?thesis using subscribed_le_slots [of "sy_runs s"] by auto
qed

text \<open>The semaphore as a counter.\<close>

definition counter_semaphore :: "nat \<Rightarrow> nat semaphore" where
  "counter_semaphore limit = \<lparr>sem_TryAcquire = (\<lambda>m. if m < limit then (True, m + 1) else (False, m)),
     sem_Release = (\<lambda>m. m - 1)\<rparr>"

lemma counter_semaphore_ok: "slot_semaphore (counter_semaphore limit) (\<lambda>m. m) limit"
  by (auto simp: slot_semaphore_def counter_semaphore_def split: if_splits)

definition local_locker_ops :: "(local_lock, registry, local_error) locker_ops" where
  "local_locker_ops = \<lparr>lk_LockAcquired = ll_acquired, lk_Try = local_Try, lk_Unlock = local_Unlock\<rparr>"

text \<open>
  The goroutines of the process never panic: in every reachable state every goroutine can
  take its next step.
\<close>

theorem connection_loops_do_not_panic:
  assumes "conn_system_reachable ops config sem lk (conn_system_init m w) s"
    and "slot_semaphore sem held limit" and "held m = 0" and "i < length (sy_runs s)"
  shows "is_done (run_step ops config sem lk i s)"
  using run_step_inv [OF assms(2) conn_system_inv_reachable [OF assms(1-3)] assms(4), of ops config lk]
  by (auto simp: is_done_iff)

text \<open>A gateway with one slot and two connections that use the lock of the same target.\<close>

definition locked_conn :: "(string, local_lock) conn" where
  "locked_conn = \<lparr>cn_lockAcquired = False, cn_client = None, cn_clientCancel = None, cn_clusterMember = False,
      cn_connected = False, cn_connecting = False, cn_lock = Some (NewNonBlockingLock ''/target/r1'' ''a:1''),
      cn_name = ''r1'', cn_noTLSWarning = False, cn_queryTarget = [], cn_request = None, cn_seen = [],
      cn_stopped = False, cn_synced = False, cn_target = example_target, cn_targetCache = ''r1'',
      cn_useLock = True, cn_metrics = []\<rparr>"

definition example_system :: "(string, local_lock, nat, registry) conn_system" where
  "example_system = (conn_system_init 0 [])\<lparr>sy_runs := [loop_started locked_conn]\<rparr>"

lemma example_system_reachable:
  "conn_system_reachable example_client_ops zero_gateway_config (counter_semaphore 1) local_locker_ops
     (conn_system_init 0 []) example_system"
proof -
  have "\<not> cn_lockAcquired locked_conn" "cn_useLock locked_conn \<longrightarrow> cn_lock locked_conn \<noteq> None"
    by (simp_all add: locked_conn_def)
  from conn_system_reachable.step [OF conn_system_reachable.start conn_system_step.new [OF this],
      of example_client_ops zero_gateway_config "counter_semaphore 1" local_locker_ops "conn_system_init 0 []"]
  show ?thesis by (simp add: example_system_def conn_system_init_def)
qed

theorem connection_loops_do_not_panic_witness:
  "is_done (run_step example_client_ops zero_gateway_config (counter_semaphore 1) local_locker_ops 0
     example_system)"
  by (rule connection_loops_do_not_panic [OF example_system_reachable counter_semaphore_ok])
     (simp_all add: example_system_def)

text \<open>Five steps take the connection of the example into its subscription.\<close>

fun run_steps :: "client_ops \<Rightarrow> gateway_config \<Rightarrow> 'm semaphore \<Rightarrow> ('l, 'w, 'e) locker_ops \<Rightarrow>
    nat \<Rightarrow> nat \<Rightarrow> ('h, 'l, 'm, 'w) conn_system \<Rightarrow> ('h, 'l, 'm, 'w) conn_system outcome" where
  "run_steps ops config sem lk i 0 s = Done s"
| "run_steps ops config sem lk i (Suc n) s =
     bind_outcome (run_step ops config sem lk i s) (run_steps ops config sem lk i n)"

lemma run_step_length: "run_step ops config sem lk i s = Done s' \<Longrightarrow> length (sy_runs s') = length (sy_runs s)"
  by (cases "cn_useLock (rn_conn (sy_runs s ! i))";
      cases "connectWithLock_step ops config (sy_fresh s) sem lk (sy_runs s ! i) (sy_sem s) (sy_world s)")
     (auto simp: run_step_def Let_def split: prod.splits)

lemma run_steps_reachable:
  "conn_system_reachable ops config sem lk s0 s \<Longrightarrow> i < length (sy_runs s) \<Longrightarrow>
   run_steps ops config sem lk i n s = Done s' \<Longrightarrow> conn_system_reachable ops config sem lk s0 s'"
proof (induction n arbitrary: s)
  case (Suc n)
  from Suc.prems(3) obtain u where u: "run_step ops config sem lk i s = Done u"
      "run_steps ops config sem lk i n u = Done s'"
    by (auto simp: go_simps)
  have "conn_system_reachable ops config sem lk s0 u"
    using Suc.prems(1,2) u(1) by (blast intro: conn_system_reachable.step conn_system_step.run)
  with Suc.IH [OF _ _ u(2)] Suc.prems(2) run_step_length [OF u(1)] show ?case by simp
qed simp

theorem subscribed_connections_limited_witness:
  "\<exists>s :: (string, local_lock, nat, registry) conn_system.
     conn_system_reachable example_client_ops zero_gateway_config (counter_semaphore 1) local_locker_ops
     (conn_system_init 0 []) s \<and>
     map rn_at (sy_runs s) = [LoopSubscribed] \<and>
     length (filter (\<lambda>r. rn_at r = LoopSubscribed) (sy_runs s)) \<le> 1"
proof -
  obtain s where s: "run_steps example_client_ops zero_gateway_config (counter_semaphore 1)
      local_locker_ops 0 5 example_system = Done s" "map rn_at (sy_runs s) = [LoopSubscribed]"
    by (simp add: example_system_def conn_system_init_def loop_started_def locked_conn_def run_step_def
        connectWithLock_step_def head_step_def slot_step_def counter_semaphore_def lock_step_def
        local_locker_ops_def local_Try_def NewNonBlockingLock_def attempt_step_def doConnect_def
        connect_query_def example_client_ops_def example_target_def warn_no_tls_def has_meta_def
        Let_def numeral_eq_Suc)
  have r: "conn_system_reachable example_client_ops zero_gateway_config (counter_semaphore 1)
      local_locker_ops (conn_system_init 0 []) s"
    by (rule run_steps_reachable [OF example_system_reachable _ s(1)]) (simp add: example_system_def)
  have "length (filter (\<lambda>r. rn_at r = LoopSubscribed) (sy_runs s)) \<le> 1"
    using subscribed_connections_limited [OF r counter_semaphore_ok refl] by (elim conjE)
  with r s(2) show ?thesis by (intro exI [of _ s] conjI)
qed

text \<open>A step of the goroutine of a connection, whichever loop it runs.\<close>

definition goroutine_step :: "client_ops \<Rightarrow> gateway_config \<Rightarrow> nat \<Rightarrow> 'm semaphore \<Rightarrow>
    ('l, 'w, 'e) locker_ops \<Rightarrow> ('h, 'l) conn_run \<Rightarrow> 'm \<Rightarrow> 'w \<Rightarrow> (('h, 'l) conn_run \<times> 'm \<times> 'w) outcome" where
  "goroutine_step ops config fresh sem lk r m w =
     (if cn_useLock (rn_conn r) then connectWithLock_step ops config fresh sem lk r m w
      else case connect_step ops config fresh sem r m of (r, m) \<Rightarrow> Done (r, m, w))"

fun loop_steps :: "client_ops \<Rightarrow> gateway_config \<Rightarrow> 'm semaphore \<Rightarrow> ('l, 'w, 'e) locker_ops \<Rightarrow> nat \<Rightarrow>
    ('h, 'l) conn_run \<times> 'm \<times> 'w \<Rightarrow> (('h, 'l) conn_run \<times> 'm \<times> 'w) outcome" where
  "loop_steps ops config sem lk 0 x = Done x"
| "loop_steps ops config sem lk (Suc n) (r, m, w) =
     bind_outcome (goroutine_step ops config n sem lk r m w) (loop_steps ops config sem lk n)"

definition rank_at :: "loop_at \<Rightarrow> nat" where
  "rank_at a = (case a of LoopDone \<Rightarrow> 0 | LoopExit \<Rightarrow> 1 | LoopHead \<Rightarrow> 2 | LoopRelease \<Rightarrow> 3
     | LoopSubscribed \<Rightarrow> 4 | LoopConnect \<Rightarrow> 5 | LoopLocked \<Rightarrow> 6 | LoopLock \<Rightarrow> 7 | LoopSlot \<Rightarrow> 8)"

lemma stopped_step:
  assumes "cn_stopped (rn_conn r)" and "cn_lock (rn_conn r) \<noteq> None" and "rn_at r \<noteq> LoopDone"
  shows "\<exists>r' m' w'. connectWithLock_step ops config fresh sem lk r m w = Done (r', m', w') \<and>
    cn_stopped (rn_conn r') \<and> cn_lock (rn_conn r') \<noteq> None \<and> cn_useLock (rn_conn r') = cn_useLock (rn_conn r) \<and> rank_at (rn_at r') < rank_at (rn_at r) \<and>
    (rn_at r' = LoopDone \<longrightarrow> \<not> rn_slot r')"
proof -
  obtain l where l: "cn_lock (rn_conn r) = Some l" using assms(2) by blast
  show ?thesis
  proof (cases "rn_at r")
    case LoopSlot
    obtain ok m' where "(if \<not> rn_slot r then sem_TryAcquire sem m else (True, m)) = (ok, m')"
      by (cases "if \<not> rn_slot r then sem_TryAcquire sem m else (True, m)")
    with LoopSlot assms show ?thesis
      by (simp add: connectWithLock_step_def slot_step_def rank_at_def)
  next
    case LoopLock
    obtain b e l' w' where t: "lk_Try lk w l = ((b, e), l', w')" by (metis prod.collapse)
    with LoopLock assms l show ?thesis
      by (simp add: connectWithLock_step_def lock_step_def rank_at_def)
  next
    case LoopConnect
    with attempt_step_inv [of ops config fresh LoopRelease r] assms show ?thesis
      by (auto simp: connectWithLock_step_def rank_at_def)
  next
    case LoopRelease
    obtain l' w' where u: "(if lk_LockAcquired lk l then snd (lk_Unlock lk w l) else (l, w)) = (l', w')"
      by (cases "if lk_LockAcquired lk l then snd (lk_Unlock lk w l) else (l, w)")
    with LoopRelease assms l show ?thesis
      by (simp add: connectWithLock_step_def release_step_def rank_at_def)
  next
    case LoopExit
    with assms show ?thesis by (simp add: connectWithLock_step_def exit_step_def rank_at_def)
  qed (use assms in \<open>simp_all add: connectWithLock_step_def head_step_def rank_at_def\<close>)
qed

text \<open>The points of \<open>connect\<close>, which uses no lock.\<close>

definition at_own_point :: "('h, 'l) conn_run \<Rightarrow> bool" where
  "at_own_point r \<longleftrightarrow> (if cn_useLock (rn_conn r) then cn_lock (rn_conn r) \<noteq> None
     else rn_at r \<notin> {LoopLock, LoopLocked, LoopRelease})"

lemma stopped_connect_step:
  assumes "cn_stopped (rn_conn r)" and "\<not> cn_useLock (rn_conn r)" and "at_own_point r" and "rn_at r \<noteq> LoopDone"
    and "connect_step ops config fresh sem r m = (r', m')"
  shows "cn_stopped (rn_conn r') \<and> \<not> cn_useLock (rn_conn r') \<and> at_own_point r' \<and>
    rank_at (rn_at r') < rank_at (rn_at r) \<and> (rn_at r' = LoopDone \<longrightarrow> \<not> rn_slot r')"
proof (cases "rn_at r")
  case LoopSlot
  obtain ok m'' where "(if \<not> rn_slot r then sem_TryAcquire sem m else (True, m)) = (ok, m'')"
    by (cases "if \<not> rn_slot r then sem_TryAcquire sem m else (True, m)")
  with LoopSlot assms show ?thesis
    by (auto simp: connect_step_def slot_step_def rank_at_def at_own_point_def split: if_splits)
next
  case LoopConnect
  with attempt_step_inv [of ops config fresh LoopHead r] assms show ?thesis
    by (auto simp: connect_step_def rank_at_def at_own_point_def)
next
  case LoopExit
  with assms show ?thesis
    by (auto simp: connect_step_def exit_step_def rank_at_def at_own_point_def split: if_splits)
qed (use assms in \<open>auto simp: connect_step_def head_step_def rank_at_def at_own_point_def\<close>)

lemma stopped_goroutine_step:
  assumes "cn_stopped (rn_conn r)" and "at_own_point r" and "rn_at r \<noteq> LoopDone"
  shows "\<exists>r' m' w'. goroutine_step ops config fresh sem lk r m w = Done (r', m', w') \<and>
    cn_stopped (rn_conn r') \<and> at_own_point r' \<and> rank_at (rn_at r') < rank_at (rn_at r) \<and>
    (rn_at r' = LoopDone \<longrightarrow> \<not> rn_slot r')"
proof (cases "cn_useLock (rn_conn r)")
  case True
  with assms(2) have "cn_lock (rn_conn r) \<noteq> None" by (simp add: at_own_point_def)
  from stopped_step [OF assms(1) this assms(3), of ops config fresh sem lk m w] True show ?thesis
    by (fastforce simp: goroutine_step_def at_own_point_def)
next
  case False
  obtain r' m' where st: "connect_step ops config fresh sem r m = (r', m')" by fastforce
  from stopped_connect_step [OF assms(1) False assms(2,3) st] st False show ?thesis
    by (simp add: goroutine_step_def)
qed

lemma stopped_steps:
  "cn_stopped (rn_conn r) \<Longrightarrow> at_own_point r \<Longrightarrow> rank_at (rn_at r) \<le> n \<Longrightarrow>
   (rn_at r = LoopDone \<longrightarrow> \<not> rn_slot r) \<Longrightarrow>
   \<exists>r' m' w'. loop_steps ops config sem lk n (r, m, w) = Done (r', m', w') \<and> rn_at r' = LoopDone \<and> \<not> rn_slot r'"
proof (induction n arbitrary: r m w)
  case 0
  then have "rn_at r = LoopDone" by (cases "rn_at r") (simp_all add: rank_at_def)
  with 0 show ?case by simp
next
  case (Suc n)
  show ?case
  proof (cases "rn_at r = LoopDone")
    case True
    then have "goroutine_step ops config n sem lk r m w = Done (r, m, w)"
      by (simp add: goroutine_step_def connectWithLock_step_def connect_step_def)
    moreover have "rank_at (rn_at r) \<le> n" using True by (simp add: rank_at_def)
    ultimately show ?thesis using Suc.IH [of r m w] Suc.prems by simp
  next
    case False
    from stopped_goroutine_step [OF Suc.prems(1,2) False, of ops config n sem lk m w]
    obtain r' m' w' where st: "goroutine_step ops config n sem lk r m w = Done (r', m', w')"
        "cn_stopped (rn_conn r')" "at_own_point r'" "rank_at (rn_at r') < rank_at (rn_at r)"
        "rn_at r' = LoopDone \<longrightarrow> \<not> rn_slot r'" by blast
    from Suc.IH [OF st(2,3) _ st(5), of m' w'] st(1,4) Suc.prems(3) show ?thesis by simp
  qed
qed



text \<open>
  The condition on the client matters: a connection that is stopped between the check of
  \<open>stopped\<close> and its attempt to connect still subscribes, with a new client that \<open>disconnect\<close> has
  not closed, and then stays in the subscription.
\<close>

lemma stopped_connection_subscribes:
  assumes "cl_NewQuery ops (cn_request (rn_conn r)) = Inr q"
    and "cl_Validate ops (connect_query config (warn_no_tls ((rn_conn r)\<lparr>cn_connecting := True\<rparr>)) q) = None"
  shows "rn_at (attempt_step ops config fresh failed r) = LoopSubscribed \<and>
    cn_client (rn_conn (attempt_step ops config fresh failed r)) = Some fresh \<and>
    cn_stopped (rn_conn (attempt_step ops config fresh failed r)) = cn_stopped (rn_conn r)"
  using assms by (simp add: attempt_step_def doConnect_def Let_def warn_no_tls_def)

section \<open>The lock of a connection\<close>

text \<open>The steps of the loops keep the name of the connection and \<open>stopped\<close>.\<close>

lemma doConnect_keeps:
  "cn_name (snd (doConnect ops config k t)) = cn_name t"
  "cn_stopped (snd (doConnect ops config k t)) = cn_stopped t"
  by (simp_all add: doConnect_def Let_def warn_no_tls_def split: sum.split option.split)

lemma attempt_step_keeps [simp]:
  "cn_name (rn_conn (attempt_step ops config k a r)) = cn_name (rn_conn r) \<and>
   cn_stopped (rn_conn (attempt_step ops config k a r)) = cn_stopped (rn_conn r)"
proof (cases "doConnect ops config k (rn_conn r)")
  case (Pair res t)
  with doConnect_keeps [of ops config k "rn_conn r"] show ?thesis
    by (cases res) (simp_all add: attempt_step_def)
qed

lemma connect_step_keeps:
  "connect_step ops config k sem r m = (r', m') \<Longrightarrow>
   cn_name (rn_conn r') = cn_name (rn_conn r) \<and> cn_stopped (rn_conn r') = cn_stopped (rn_conn r)"
  by (cases "rn_at r")
     (auto simp: connect_step_def head_step_def slot_step_def exit_step_def Let_def split: prod.splits if_splits)

lemma lock_step_keeps:
  assumes "lock_step lk r w = Done (r', w')"
  shows "cn_name (rn_conn r') = cn_name (rn_conn r) \<and> cn_stopped (rn_conn r') = cn_stopped (rn_conn r)"
proof (cases "cn_lockAcquired (rn_conn r)")
  case False
  with assms obtain l where l: "cn_lock (rn_conn r) = Some l"
    by (cases "cn_lock (rn_conn r)") (auto simp: lock_step_def)
  obtain b e l' v where "lk_Try lk w l = ((b, e), l', v)" by (metis prod.collapse)
  with assms l False show ?thesis by (auto simp: lock_step_def)
qed (use assms in \<open>auto simp: lock_step_def\<close>)

lemma release_step_keeps:
  assumes "release_step lk r w = Done (r', w')"
  shows "cn_name (rn_conn r') = cn_name (rn_conn r) \<and> cn_stopped (rn_conn r') = cn_stopped (rn_conn r)"
proof -
  from assms obtain l where l: "cn_lock (rn_conn r) = Some l"
    by (cases "cn_lock (rn_conn r)") (auto simp: release_step_def)
  obtain l' v where "(if lk_LockAcquired lk l then snd (lk_Unlock lk w l) else (l, w)) = (l', v)"
    by (meson surj_pair)
  with assms l show ?thesis by (auto simp: release_step_def)
qed

lemma connectWithLock_step_keeps:
  assumes "connectWithLock_step ops config k sem lk r m w = Done (r', m', w')"
  shows "cn_name (rn_conn r') = cn_name (rn_conn r) \<and> cn_stopped (rn_conn r') = cn_stopped (rn_conn r)"
proof (cases "rn_at r")
  case LoopLock
  with assms lock_step_keeps show ?thesis
    by (cases "lock_step lk r w") (fastforce simp: connectWithLock_step_def)+
next
  case LoopRelease
  with assms release_step_keeps show ?thesis
    by (cases "release_step lk r w") (fastforce simp: connectWithLock_step_def)+
qed (use assms in \<open>auto simp: connectWithLock_step_def head_step_def slot_step_def exit_step_def
      Let_def split: prod.splits if_splits\<close>)

text \<open>
  Facts of every locker: what a connection believes after its attempt is what the lock says,
  and after the release of a lock that could be released the lock is free.
\<close>

context distributed_locker
begin

lemma lock_step_agrees:
  assumes "lock_ok l" and "cn_lock (rn_conn r) = Some l" and "\<not> cn_lockAcquired (rn_conn r)"
    and "lock_step \<lparr>lk_LockAcquired = LockAcquired, lk_Try = TryLock, lk_Unlock = UnlockIt\<rparr> r w = Done (r', w')"
  shows "\<exists>l'. cn_lock (rn_conn r') = Some l' \<and> lock_ok l' \<and>
    (cn_lockAcquired (rn_conn r') \<longrightarrow> LockAcquired l')"
proof -
  obtain b e l' w1 where t: "TryLock w l = ((b, e), l', w1)" by (metis prod.collapse)
  have r': "cn_lock (rn_conn r') = Some l'" "cn_lockAcquired (rn_conn r') = b"
    using assms t by (auto simp: lock_step_def)
  have "lock_ok l'" using try_ok assms(1) t by blast
  moreover have "b \<longrightarrow> LockAcquired l'" using try_true [OF assms(1)] t by (cases b) simp_all
  ultimately show ?thesis using r' by simp
qed

lemma release_step_frees:
  assumes "lock_ok l" and "cn_lock (rn_conn r) = Some l"
    and "release_step \<lparr>lk_LockAcquired = LockAcquired, lk_Try = TryLock, lk_Unlock = UnlockIt\<rparr> r w = Done (r', w')"
    and "fst (UnlockIt w l) = None"
  shows "\<exists>l'. cn_lock (rn_conn r') = Some l' \<and> lock_ok l' \<and> \<not> LockAcquired l' \<and>
    \<not> cn_lockAcquired (rn_conn r')"
proof -
  obtain l' w1 where u: "UnlockIt w l = (None, l', w1)" using assms(4) by (cases "UnlockIt w l") auto
  have l': "lock_ok l'" "\<not> LockAcquired l'"
    using unlock_ok unlock_releases assms(1) u by blast+
  show ?thesis
  proof (cases "LockAcquired l")
    case True
    with assms(2,3) u l' show ?thesis by (auto simp: release_step_def)
  next
    case False
    with assms(1-3) show ?thesis by (auto simp: release_step_def)
  qed
qed

end

definition zk_locker_ops :: "'z zk_service \<Rightarrow> (zk_lock, 'z, lock_error) locker_ops" where
  "zk_locker_ops svc = \<lparr>lk_LockAcquired = zl_acquired, lk_Try = zk_try svc, lk_Unlock = zk_unlock svc\<rparr>"



end
