(* ===== verification/ConnManager.thy ===== *)
theory ConnManager
  imports ConnLoop
begin

text \<open>
  \<open>gateway/connections/zookeeper.go\<close> and \<open>manager.go\<close>: the connection manager. The connections
  are kept as the goroutine states of \<open>ConnLoop\<close> in a list, never removed from it, since the
  goroutine of a removed target lives on until it ends; the map \<open>connections\<close> of the manager
  points into that list. The validation of a configuration only logs.
\<close>

record target_control =
  tc_Insert :: "target_configuration option"
  tc_Remove :: "string list"

definition InsertCount :: "target_control \<Rightarrow> nat" where
  "InsertCount t = (case tc_Insert t of None \<Rightarrow> 0 | Some c \<Rightarrow> length (cf_Target c))"

definition RemoveCount :: "target_control \<Rightarrow> nat" where
  "RemoveCount t = length (tc_Remove t)"

record ('h, 'c) manager =
  mg_cache :: 'c
  mg_connections :: "(string, nat) gomap"
  mg_runs :: "('h, zk_lock) conn_run list"
  mg_zkConn :: bool

definition NewZookeeperConnectionManagerDefault :: "'c \<Rightarrow> bool \<Rightarrow> ('h, 'c) manager" where
  "NewZookeeperConnectionManagerDefault c zk =
     \<lparr>mg_cache = c, mg_connections = [], mg_runs = [], mg_zkConn = zk\<rparr>"

definition conn_at :: "('h, 'c) manager \<Rightarrow> nat \<Rightarrow> ('h, zk_lock) conn" where
  "conn_at m a = rn_conn (mg_runs m ! a)"

definition set_conn :: "nat \<Rightarrow> ('h, zk_lock) conn \<Rightarrow> ('h, 'c) manager \<Rightarrow> ('h, 'c) manager" where
  "set_conn a t m = m\<lparr>mg_runs := (mg_runs m)[a := (mg_runs m ! a)\<lparr>rn_conn := t\<rparr>]\<rparr>"

definition MakeTargetLockPath :: "string \<Rightarrow> string \<Rightarrow> string" where
  "MakeTargetLockPath zkprefix tgt = trim_right_char CHR ''/'' zkprefix @ ''/target/'' @ tgt"

section \<open>Events and queries\<close>

definition unlock_conn :: "('h, 'c) manager \<Rightarrow> nat \<Rightarrow> nat list \<Rightarrow> nat list outcome" where
  "unlock_conn m a cancelled =
     (if cn_useLock (conn_at m a)
      then bind_outcome (unlock (conn_at m a)) (\<lambda>k. Done (cancelled @ [k]))
      else Done cancelled)"

text \<open>
  One event of \<open>eventListener\<close>: the clients whose subscriptions it cancels, in the order in
  which the map is ranged over.
\<close>

definition eventListener :: "('h, 'c) manager \<Rightarrow> zk_state \<Rightarrow> nat list outcome" where
  "eventListener m event_State =
     (if event_State = StateDisconnected
      then fold_outcome (\<lambda>(_, a). unlock_conn m a) (mg_connections m) []
      else Done [])"

fun forwardable_loop :: "('h, 'c) manager \<Rightarrow> string \<Rightarrow> (string \<times> nat) list \<Rightarrow> bool" where
  "forwardable_loop m tgt [] = False"
| "forwardable_loop m tgt ((_, a) # cs) =
     (if cn_clusterMember (conn_at m a) then forwardable_loop m tgt cs
      else if cn_useLock (conn_at m a) \<and> \<not> cn_lockAcquired (conn_at m a) then forwardable_loop m tgt cs
      else if cn_queryTarget (conn_at m a) = tgt \<or> Seen (conn_at m a) tgt then True
      else forwardable_loop m tgt cs)"

definition Forwardable :: "('h, 'c) manager \<Rightarrow> string \<Rightarrow> bool" where
  "Forwardable m tgt =
     (if tgt = ''*'' \<or> tgt = [] then True else forwardable_loop m tgt (mg_connections m))"

section \<open>Control messages\<close>

definition remove_target :: "client_ops \<Rightarrow> string \<Rightarrow> ('h, 'c) manager \<Rightarrow> ('h, 'c) manager outcome" where
  "remove_target ops toRemove m =
     (case map_of (mg_connections m) toRemove of
        None \<Rightarrow> Done m
      | Some a \<Rightarrow>
          (case disconnect ops (conn_at m a) of
             (t, closed) \<Rightarrow> bind_outcome closed (\<lambda>_.
               Done ((set_conn a t m)\<lparr>mg_connections := gomap_del toRemove (mg_connections m)\<rparr>))))"

definition update_target :: "client_ops \<Rightarrow> nat \<Rightarrow> subscribe_request option \<Rightarrow> target \<Rightarrow>
    ('h, 'c) manager \<Rightarrow> ('h, 'c) manager outcome" where
  "update_target ops a req newConfig m =
     (if \<not> Equal (conn_at m a) newConfig then
        let t = (conn_at m a)\<lparr>cn_target := newConfig, cn_request := req\<rparr>
        in bind_outcome (reconnect ops t) (\<lambda>_. Done (set_conn a t m))
      else Done m)"

text \<open>The connection of a new target.\<close>

definition new_conn :: "gateway_config \<Rightarrow> bool \<Rightarrow> string \<Rightarrow> subscribe_request option \<Rightarrow> target \<Rightarrow> 'h \<Rightarrow>
    ('h, zk_lock) conn" where
  "new_conn config zk name req newConfig h =
     (let noLock = (map_of (tg_Meta newConfig) ''NoLock'' \<noteq> None);
          clusterMember = (map_of (tg_Meta newConfig) ''ClusterMember'' \<noteq> None);
          useLock = (zk \<and> \<not> noLock)
      in \<lparr>cn_lockAcquired = False, cn_client = None, cn_clientCancel = None,
          cn_clusterMember = clusterMember, cn_connected = False, cn_connecting = False,
          cn_lock = (if useLock
            then Some (NewZookeeperNonBlockingLock (MakeTargetLockPath (gc_ZookeeperPrefix config) name)
                   (gc_ServerAddress config @ '':'' @ Itoa (sint (gc_ServerPort config))))
            else None),
          cn_name = name, cn_noTLSWarning = False, cn_queryTarget = [], cn_request = req,
          cn_seen = [], cn_stopped = False, cn_synced = False, cn_target = newConfig,
          cn_targetCache = h, cn_useLock = useLock, cn_metrics = []\<rparr>)"

definition insert_target :: "client_ops \<Rightarrow> ('h, 'c) cache_ops \<Rightarrow> gateway_config \<Rightarrow>
    target_configuration \<Rightarrow> string \<Rightarrow> target \<Rightarrow> ('h, 'c) manager \<Rightarrow> ('h, 'c) manager outcome" where
  "insert_target ops cops config ins name newConfig m =
     (let req = map_of (cf_Request ins) (tg_Request newConfig) in
      case map_of (mg_connections m) name of
        Some a \<Rightarrow> update_target ops a req newConfig m
      | None \<Rightarrow>
          (case co_Add cops name (mg_cache m) of
             (h, c) \<Rightarrow>
               Done (m\<lparr>mg_cache := c,
                 mg_connections := gomap_set name (length (mg_runs m)) (mg_connections m),
                 mg_runs := mg_runs m @
                   [loop_started (new_conn config (mg_zkConn m) name req newConfig h)]\<rparr>)))"

definition handleTargetControlMsg :: "client_ops \<Rightarrow> ('h, 'c) cache_ops \<Rightarrow> gateway_config \<Rightarrow>
    target_control \<Rightarrow> ('h, 'c) manager \<Rightarrow> ('h, 'c) manager outcome" where
  "handleTargetControlMsg ops cops config msg m =
     bind_outcome (fold_outcome (remove_target ops) (tc_Remove msg) m) (\<lambda>m.
       case tc_Insert msg of
         None \<Rightarrow> Done m
       | Some ins \<Rightarrow>
           fold_outcome (\<lambda>(name, newConfig). insert_target ops cops config ins name newConfig)
             (cf_Target ins) m)"

definition ReloadTargets :: "client_ops \<Rightarrow> ('h, 'c) cache_ops \<Rightarrow> gateway_config \<Rightarrow>
    target_control list \<Rightarrow> ('h, 'c) manager \<Rightarrow> ('h, 'c) manager outcome" where
  "ReloadTargets ops cops config msgs m = fold_outcome (handleTargetControlMsg ops cops config) msgs m"

section \<open>The invariant of the manager\<close>

text \<open>
  The map points to the connections that are not stopped, one for each name, and every
  connection that is not stopped is the one the map has for its name.
\<close>

definition manager_inv :: "('h, 'c) manager \<Rightarrow> bool" where
  "manager_inv m \<longleftrightarrow> gomap_ok (mg_connections m) \<and>
     (\<forall>name a. map_of (mg_connections m) name = Some a \<longrightarrow>
        a < length (mg_runs m) \<and> cn_name (conn_at m a) = name \<and> \<not> cn_stopped (conn_at m a)) \<and>
     (\<forall>a < length (mg_runs m). \<not> cn_stopped (conn_at m a) \<longrightarrow>
        map_of (mg_connections m) (cn_name (conn_at m a)) = Some a)"

lemma conn_at_set: "a < length (mg_runs m) \<Longrightarrow> conn_at (set_conn a t m) b = (if b = a then t else conn_at m b)"
  by (simp add: conn_at_def set_conn_def nth_list_update)

lemma set_conn_simps [simp]:
  "length (mg_runs (set_conn a t m)) = length (mg_runs m)" "mg_connections (set_conn a t m) = mg_connections m"
  "mg_cache (set_conn a t m) = mg_cache m" "mg_zkConn (set_conn a t m) = mg_zkConn m"
  "conn_at (m\<lparr>mg_connections := cs\<rparr>) b = conn_at m b"
  by (simp_all add: set_conn_def conn_at_def)

lemma manager_inv_at:
  "manager_inv m \<Longrightarrow> map_of (mg_connections m) name = Some a \<Longrightarrow>
   a < length (mg_runs m) \<and> cn_name (conn_at m a) = name \<and> \<not> cn_stopped (conn_at m a)"
  by (simp add: manager_inv_def)

lemma manager_inv_live:
  "manager_inv m \<Longrightarrow> a < length (mg_runs m) \<Longrightarrow> \<not> cn_stopped (conn_at m a) \<Longrightarrow>
   map_of (mg_connections m) (cn_name (conn_at m a)) = Some a"
  by (simp add: manager_inv_def)

lemma manager_inv_set:
  assumes inv: "manager_inv m" and "a < length (mg_runs m)"
    and "cn_name t = cn_name (conn_at m a)" "cn_stopped t = cn_stopped (conn_at m a)"
  shows "manager_inv (set_conn a t m)"
  using assms unfolding manager_inv_def by (auto simp: conn_at_set)

lemma remove_target_inv:
  assumes inv: "manager_inv m" and r: "remove_target ops name m = Done m'"
  shows "manager_inv m' \<and> dom (map_of (mg_connections m')) = dom (map_of (mg_connections m)) - {name}"
proof (cases "map_of (mg_connections m) name")
  case None
  with inv r show ?thesis by (auto simp: remove_target_def)
next
  case (Some a)
  note a = manager_inv_at [OF inv Some]
  let ?t = "(conn_at m a)\<lparr>cn_stopped := True\<rparr>"
  have m': "m' = (set_conn a ?t m)\<lparr>mg_connections := gomap_del name (mg_connections m)\<rparr>"
    using r Some by (auto simp: remove_target_def disconnect_def Let_def go_simps)
  have at: "conn_at m' b = (if b = a then ?t else conn_at m b)" for b
    using a by (simp add: m' conn_at_set)
  have get: "map_of (mg_connections m') = (map_of (mg_connections m))(name := None)"
    by (simp add: m' gomap_simps)
  have len: "length (mg_runs m') = length (mg_runs m)" by (simp add: m')
  have "manager_inv m'"
    unfolding manager_inv_def
  proof (intro conjI allI impI)
    show "gomap_ok (mg_connections m')" using inv by (simp add: m' manager_inv_def)
    fix n b assume "map_of (mg_connections m') n = Some b"
    then have n: "map_of (mg_connections m) n = Some b" "n \<noteq> name"
      by (auto simp: get split: if_splits)
    from manager_inv_at [OF inv n(1)] n a Some
    show "b < length (mg_runs m')" "cn_name (conn_at m' b) = n" "\<not> cn_stopped (conn_at m' b)"
      by (auto simp: at len)
  next
    fix b assume b: "b < length (mg_runs m')" "\<not> cn_stopped (conn_at m' b)"
    then have "b \<noteq> a" by (auto simp: at)
    with b manager_inv_live [OF inv, of b] have s: "map_of (mg_connections m) (cn_name (conn_at m b)) = Some b"
      by (simp add: at len)
    with \<open>b \<noteq> a\<close> Some have "cn_name (conn_at m b) \<noteq> name" by auto
    with s \<open>b \<noteq> a\<close> show "map_of (mg_connections m') (cn_name (conn_at m' b)) = Some b"
      by (simp add: at get)
  qed
  then show ?thesis by (auto simp: get)
qed

lemma update_target_inv:
  assumes inv: "manager_inv m" and get: "map_of (mg_connections m) name = Some a"
    and r: "update_target ops a req newConfig m = Done m'"
  shows "manager_inv m' \<and> mg_connections m' = mg_connections m"
proof (cases "Equal (conn_at m a) newConfig")
  case True
  with inv r show ?thesis by (simp add: update_target_def)
next
  case False
  then have "m' = set_conn a ((conn_at m a)\<lparr>cn_target := newConfig, cn_request := req\<rparr>) m"
    using r by (auto simp: update_target_def Let_def go_simps)
  with manager_inv_set [OF inv] manager_inv_at [OF inv get] show ?thesis by simp
qed

lemma new_conn_simps [simp]:
  "cn_name (new_conn config zk name req cfg h) = name"
  "\<not> cn_stopped (new_conn config zk name req cfg h)"
  "\<not> cn_lockAcquired (new_conn config zk name req cfg h)"
  "cn_useLock (new_conn config zk name req cfg h) \<longrightarrow> cn_lock (new_conn config zk name req cfg h) \<noteq> None"
  by (simp_all add: new_conn_def Let_def)

lemma insert_target_inv:
  assumes inv: "manager_inv m" and r: "insert_target ops cops config ins name cfg m = Done m'"
  shows "manager_inv m' \<and> dom (map_of (mg_connections m')) = insert name (dom (map_of (mg_connections m)))"
proof (cases "map_of (mg_connections m) name")
  case (Some a)
  with r have "update_target ops a (map_of (cf_Request ins) (tg_Request cfg)) cfg m = Done m'"
    by (simp add: insert_target_def)
  from update_target_inv [OF inv Some this] Some show ?thesis by auto
next
  case None
  let ?t = "\<lambda>h. new_conn config (mg_zkConn m) name (map_of (cf_Request ins) (tg_Request cfg)) cfg h"
  obtain h c where hc: "co_Add cops name (mg_cache m) = (h, c)" by (cases "co_Add cops name (mg_cache m)")
  have m': "m' = m\<lparr>mg_cache := c, mg_connections := gomap_set name (length (mg_runs m)) (mg_connections m),
      mg_runs := mg_runs m @ [loop_started (?t h)]\<rparr>"
    using r None hc by (simp add: insert_target_def)
  have at: "conn_at m' b = (if b < length (mg_runs m) then conn_at m b else ?t h)"
    if "b < length (mg_runs m')" for b
    using that by (auto simp: m' conn_at_def nth_append loop_started_def)
  have get: "map_of (mg_connections m') = (map_of (mg_connections m))(name \<mapsto> length (mg_runs m))"
    by (simp add: m' gomap_simps)
  have len: "length (mg_runs m') = Suc (length (mg_runs m))" by (simp add: m')
  have "manager_inv m'"
    unfolding manager_inv_def
  proof (intro conjI allI impI)
    show "gomap_ok (mg_connections m')" using inv by (simp add: m' manager_inv_def)
  next
    fix n b assume n: "map_of (mg_connections m') n = Some b"
    show "b < length (mg_runs m')"
      using n manager_inv_at [OF inv, of n b] by (auto simp: get len split: if_splits)
    then show "cn_name (conn_at m' b) = n" "\<not> cn_stopped (conn_at m' b)"
      using n manager_inv_at [OF inv, of n b] by (auto simp: get at split: if_splits)
  next
    fix b assume b: "b < length (mg_runs m')" "\<not> cn_stopped (conn_at m' b)"
    show "map_of (mg_connections m') (cn_name (conn_at m' b)) = Some b"
    proof (cases "b < length (mg_runs m)")
      case True
      with b manager_inv_live [OF inv True] None show ?thesis by (auto simp: at get)
    next
      case False
      with b show ?thesis by (simp add: at get len)
    qed
  qed
  then show ?thesis by (auto simp: get)
qed

lemma handleTargetControlMsg_inv:
  assumes inv: "manager_inv m" and r: "handleTargetControlMsg ops cops config msg m = Done m'"
  shows "manager_inv m' \<and> dom (map_of (mg_connections m')) =
    (dom (map_of (mg_connections m)) - set (tc_Remove msg)) \<union>
      (case tc_Insert msg of None \<Rightarrow> {} | Some ins \<Rightarrow> fst ` set (cf_Target ins))"
proof -
  obtain m1 where m1: "fold_outcome (remove_target ops) (tc_Remove msg) m = Done m1"
    using r by (auto simp: handleTargetControlMsg_def go_simps)
  have rem: "manager_inv v \<and> dom (map_of (mg_connections v)) = dom (map_of (mg_connections u)) - set names"
    if "fold_outcome (remove_target ops) names u = Done v" "manager_inv u" for names and u v :: "('a, 'b) manager"
    using that
  proof (induction names arbitrary: u)
    case (Cons n ns)
    then obtain x where x: "remove_target ops n u = Done x" "fold_outcome (remove_target ops) ns x = Done v"
      by (auto simp: go_simps)
    from remove_target_inv [OF Cons.prems(2) x(1)] Cons.IH [OF x(2)] show ?case by auto
  qed simp
  note inv1 = rem [OF m1 inv]
  show ?thesis
  proof (cases "tc_Insert msg")
    case None
    with r m1 inv1 show ?thesis by (simp add: handleTargetControlMsg_def)
  next
    case (Some ins)
    let ?f = "\<lambda>(name, cfg). insert_target ops cops config ins name cfg"
    have m2: "fold_outcome ?f (cf_Target ins) m1 = Done m'"
      using r m1 Some by (simp add: handleTargetControlMsg_def)
    have "manager_inv v \<and> dom (map_of (mg_connections v)) = dom (map_of (mg_connections u)) \<union> fst ` set ts"
      if "fold_outcome ?f ts u = Done v" "manager_inv u" for ts and u v :: "('a, 'b) manager"
      using that
    proof (induction ts arbitrary: u)
      case (Cons p ts)
      obtain n cfg where p: "p = (n, cfg)" by (cases p)
      from Cons.prems(1) obtain x where x: "insert_target ops cops config ins n cfg u = Done x"
          "fold_outcome ?f ts x = Done v"
        by (auto simp: p go_simps)
      from insert_target_inv [OF Cons.prems(2) x(1)] Cons.IH [OF x(2)] show ?case by (auto simp: p)
    qed simp
    from this [OF m2] inv1 Some show ?thesis by auto
  qed
qed

text \<open>
  The manager follows its messages. A control message removes the named targets and then
  has every target of the configuration it carries, with exactly one connection that is not
  stopped for every name in the map and none for any other name, whatever was connected before.
\<close>

theorem handleTargetControlMsg_targets:
  assumes "manager_inv m" and "handleTargetControlMsg ops cops config msg m = Done m'"
  shows "manager_inv m' \<and> dom (map_of (mg_connections m')) =
    (dom (map_of (mg_connections m)) - set (tc_Remove msg)) \<union>
      (case tc_Insert msg of None \<Rightarrow> {} | Some ins \<Rightarrow> fst ` set (cf_Target ins))"
  using handleTargetControlMsg_inv [OF assms] .

definition insert_r1 :: target_control where
  "insert_r1 = \<lparr>tc_Insert = Some \<lparr>cf_Target = [(''r1'', example_target)], cf_Request = []\<rparr>, tc_Remove = []\<rparr>"

theorem handleTargetControlMsg_targets_witness:
  "\<exists>m'. handleTargetControlMsg example_client_ops log_cache_ops zero_gateway_config insert_r1
      (NewZookeeperConnectionManagerDefault [] True) = Done m' \<and>
    dom (map_of (mg_connections m')) = {''r1''} \<and> manager_inv m'"
proof -
  let ?m = "NewZookeeperConnectionManagerDefault [] True :: (string, log_cache) manager"
  obtain m' where r: "handleTargetControlMsg example_client_ops log_cache_ops zero_gateway_config insert_r1 ?m = Done m'"
    by (simp add: handleTargetControlMsg_def insert_r1_def insert_target_def
        NewZookeeperConnectionManagerDefault_def log_cache_ops_def)
  have "manager_inv ?m" by (simp add: manager_inv_def NewZookeeperConnectionManagerDefault_def)
  from handleTargetControlMsg_targets [OF this r] r show ?thesis
    by (simp add: insert_r1_def NewZookeeperConnectionManagerDefault_def)
qed

text \<open>
  At any time at most one connection per target name is not stopped, over every sequence of
  control messages.
\<close>

theorem one_live_connection_per_target:
  assumes "ReloadTargets ops cops config msgs (NewZookeeperConnectionManagerDefault c zk) = Done m"
    and "a < length (mg_runs m)" "b < length (mg_runs m)"
    and "\<not> cn_stopped (conn_at m a)" "\<not> cn_stopped (conn_at m b)"
    and "cn_name (conn_at m a) = cn_name (conn_at m b)"
  shows "a = b"
proof -
  have "manager_inv m"
  proof (rule fold_outcome_invariant [where I = manager_inv, OF assms(1) [unfolded ReloadTargets_def]])
    show "manager_inv (NewZookeeperConnectionManagerDefault c zk :: ('a, 'b) manager)"
      by (simp add: manager_inv_def NewZookeeperConnectionManagerDefault_def)
    fix msg and u v :: "('a, 'b) manager"
    assume "manager_inv u" "handleTargetControlMsg ops cops config msg u = Done v"
    from handleTargetControlMsg_inv [OF this] show "manager_inv v" ..
  qed
  note live = manager_inv_live [OF this]
  have "Some a = Some b"
    using live [OF assms(2,4)] live [OF assms(3,5)] unfolding assms(6) by (rule trans [OF sym])
  then show ?thesis by (rule option.inject [THEN iffD1])
qed

theorem one_live_connection_per_target_witness:
  "\<exists>m :: (string, log_cache) manager. ReloadTargets example_client_ops log_cache_ops zero_gateway_config [insert_r1, insert_r1]
      (NewZookeeperConnectionManagerDefault [] True) = Done m \<and>
    length (mg_runs m) = 1 \<and> \<not> cn_stopped (conn_at m 0) \<and> (0::nat) = 0"
proof -
  let ?m = "NewZookeeperConnectionManagerDefault [] True :: (string, log_cache) manager"
  obtain m where r: "ReloadTargets example_client_ops log_cache_ops zero_gateway_config
      [insert_r1, insert_r1] ?m = Done m" "length (mg_runs m) = 1" "\<not> cn_stopped (conn_at m 0)"
    by (simp add: ReloadTargets_def handleTargetControlMsg_def insert_r1_def insert_target_def
        NewZookeeperConnectionManagerDefault_def log_cache_ops_def update_target_def Equal_def
        new_conn_def conn_at_def loop_started_def example_target_def Let_def)
  have "(0::nat) = 0" by (rule one_live_connection_per_target [OF r(1)]) (use r in simp_all)
  with r show ?thesis by (intro exI [of _ m] conjI)
qed

section \<open>The manager as a map of target configurations\<close>

text \<open>
  What the manager promises: a map from the names of the targets to their configuration and
  subscribe request. A removal deletes the name; an insertion stores the configuration unless
  the name has one with the same addresses and credentials, which stays as it is.
\<close>

type_synonym target_map = "string \<rightharpoonup> (target \<times> subscribe_request option)"

definition spec_insert :: "target_configuration \<Rightarrow> string \<times> target \<Rightarrow> target_map \<Rightarrow> target_map" where
  "spec_insert ins p A =
     (case p of (name, cfg) \<Rightarrow>
        (case A name of
           Some (old, _) \<Rightarrow>
             if tg_Addresses old = tg_Addresses cfg \<and> tg_Credentials old = tg_Credentials cfg then A
             else A(name \<mapsto> (cfg, map_of (cf_Request ins) (tg_Request cfg)))
         | None \<Rightarrow> A(name \<mapsto> (cfg, map_of (cf_Request ins) (tg_Request cfg)))))"

definition spec_message :: "target_control \<Rightarrow> target_map \<Rightarrow> target_map" where
  "spec_message msg A =
     (let A = fold (\<lambda>name A. A(name := None)) (tc_Remove msg) A in
      case tc_Insert msg of None \<Rightarrow> A | Some ins \<Rightarrow> fold (spec_insert ins) (cf_Target ins) A)"

definition targets_of :: "('h, 'c) manager \<Rightarrow> target_map" where
  "targets_of m name =
     (case map_of (mg_connections m) name of
        None \<Rightarrow> None
      | Some a \<Rightarrow> Some (cn_target (conn_at m a), cn_request (conn_at m a)))"

lemma remove_target_refines:
  assumes inv: "manager_inv m" and r: "remove_target ops name m = Done m'"
  shows "targets_of m' = (targets_of m)(name := None)"
proof (cases "map_of (mg_connections m) name")
  case None
  with r show ?thesis by (auto simp: remove_target_def targets_of_def)
next
  case (Some a)
  have a: "a < length (mg_runs m)" using manager_inv_at [OF inv Some] by simp
  let ?t = "(conn_at m a)\<lparr>cn_stopped := True\<rparr>"
  have m': "m' = (set_conn a ?t m)\<lparr>mg_connections := gomap_del name (mg_connections m)\<rparr>"
    using r Some by (auto simp: remove_target_def disconnect_def Let_def go_simps)
  show ?thesis
    by (rule ext) (simp add: m' targets_of_def gomap_simps conn_at_set [OF a] split: option.split)
qed

lemma insert_target_refines:
  assumes inv: "manager_inv m" and r: "insert_target ops cops config ins name cfg m = Done m'"
  shows "targets_of m' = spec_insert ins (name, cfg) (targets_of m)"
proof (cases "map_of (mg_connections m) name")
  case (Some a)
  have a: "a < length (mg_runs m)" using manager_inv_at [OF inv Some] by simp
  have one: "b = a" if "map_of (mg_connections m) n = Some b" "n = name" for n b
    using that Some by simp
  have other: "b \<noteq> a" if "map_of (mg_connections m) n = Some b" "n \<noteq> name" for n b
    using that manager_inv_at [OF inv Some] manager_inv_at [OF inv that(1)] by auto
  let ?req = "map_of (cf_Request ins) (tg_Request cfg)"
  have u: "update_target ops a ?req cfg m = Done m'" using r Some by (simp add: insert_target_def)
  show ?thesis
  proof (cases "Equal (conn_at m a) cfg")
    case True
    with u Some show ?thesis
      by (simp add: update_target_def spec_insert_def targets_of_def Equal_same_fields)
  next
    case False
    then have m': "m' = set_conn a ((conn_at m a)\<lparr>cn_target := cfg, cn_request := ?req\<rparr>) m"
      using u by (auto simp: update_target_def Let_def go_simps)
    show ?thesis
      using False Some other
      by (intro ext) (auto simp: m' targets_of_def spec_insert_def Equal_same_fields conn_at_set [OF a]
          split: option.split)
  qed
next
  case None
  let ?req = "map_of (cf_Request ins) (tg_Request cfg)"
  obtain h c where hc: "co_Add cops name (mg_cache m) = (h, c)" by (cases "co_Add cops name (mg_cache m)")
  have m': "m' = m\<lparr>mg_cache := c, mg_connections := gomap_set name (length (mg_runs m)) (mg_connections m),
      mg_runs := mg_runs m @ [loop_started (new_conn config (mg_zkConn m) name ?req cfg h)]\<rparr>"
    using r None hc by (simp add: insert_target_def)
  have at: "conn_at m' b = conn_at m b" if "map_of (mg_connections m) n = Some b" for n b
    using manager_inv_at [OF inv that] by (simp add: m' conn_at_def nth_append)
  have new: "cn_target (conn_at m' (length (mg_runs m))) = cfg"
      "cn_request (conn_at m' (length (mg_runs m))) = ?req"
    by (simp_all add: m' conn_at_def loop_started_def new_conn_def Let_def)
  have get: "map_of (mg_connections m') = (map_of (mg_connections m))(name \<mapsto> length (mg_runs m))"
    by (simp add: m' gomap_simps)
  show ?thesis
    using None
    by (intro ext) (simp add: targets_of_def get new spec_insert_def at split: option.split)
qed

lemma handleTargetControlMsg_refines:
  assumes inv: "manager_inv m" and r: "handleTargetControlMsg ops cops config msg m = Done m'"
  shows "targets_of m' = spec_message msg (targets_of m)"
proof -
  obtain m1 where m1: "fold_outcome (remove_target ops) (tc_Remove msg) m = Done m1"
    using r by (auto simp: handleTargetControlMsg_def go_simps)
  have s1: "manager_inv m1 \<and> targets_of m1 = fold (\<lambda>name A. A(name := None)) (tc_Remove msg) (targets_of m)"
    by (rule fold_outcome_refines [where I = manager_inv and ab = targets_of, OF m1 inv]) (simp add: remove_target_inv remove_target_refines)
  show ?thesis
  proof (cases "tc_Insert msg")
    case None
    with r m1 s1 show ?thesis by (simp add: handleTargetControlMsg_def spec_message_def)
  next
    case (Some ins)
    let ?f = "\<lambda>(name, cfg). insert_target ops cops config ins name cfg"
    have m2: "fold_outcome ?f (cf_Target ins) m1 = Done m'"
      using r m1 Some by (simp add: handleTargetControlMsg_def)
    have "manager_inv m' \<and> targets_of m' = fold (spec_insert ins) (cf_Target ins) (targets_of m1)"
    proof (rule fold_outcome_refines [where I = manager_inv and ab = targets_of, OF m2])
      show "manager_inv m1" using s1 by simp
      fix x and u v :: "('a, 'b) manager"
      assume "manager_inv u" "?f x u = Done v"
      then show "manager_inv v \<and> targets_of v = spec_insert ins x (targets_of u)"
        by (cases x) (simp add: insert_target_inv insert_target_refines)
    qed
    with s1 Some show ?thesis by (simp add: spec_message_def)
  qed
qed

lemma ReloadTargets_refines:
  assumes "ReloadTargets ops cops config msgs (NewZookeeperConnectionManagerDefault c zk) = Done m"
  shows "targets_of m = fold spec_message msgs (\<lambda>_. None)"
proof -
  let ?m0 = "NewZookeeperConnectionManagerDefault c zk :: ('a, 'b) manager"
  have "manager_inv m \<and> targets_of m = fold spec_message msgs (targets_of ?m0)"
  proof (rule fold_outcome_refines [where I = manager_inv and ab = targets_of,
        OF assms [unfolded ReloadTargets_def]])
    show "manager_inv ?m0"
      by (simp add: manager_inv_def NewZookeeperConnectionManagerDefault_def)
    fix msg and u v :: "('a, 'b) manager"
    assume a: "manager_inv u" "handleTargetControlMsg ops cops config msg u = Done v"
    from handleTargetControlMsg_inv [OF a] handleTargetControlMsg_refines [OF a]
    show "manager_inv v \<and> targets_of v = spec_message msg (targets_of u)" by simp
  qed
  moreover have "targets_of ?m0 = (\<lambda>_. None)"
    by (rule ext) (simp add: targets_of_def NewZookeeperConnectionManagerDefault_def)
  ultimately show ?thesis by simp
qed



section \<open>Forwarding and events\<close>

text \<open>The connections that may forward the messages of a target.\<close>

definition serves_target :: "('h, zk_lock) conn \<Rightarrow> string \<Rightarrow> bool" where
  "serves_target t tgt \<longleftrightarrow> \<not> cn_clusterMember t \<and> (cn_useLock t \<longrightarrow> cn_lockAcquired t) \<and>
     (cn_queryTarget t = tgt \<or> Seen t tgt)"

lemma forwardable_loop_ex:
  "forwardable_loop m tgt cs \<longleftrightarrow> (\<exists>a \<in> set (map snd cs). serves_target (conn_at m a) tgt)"
proof (induction cs)
  case (Cons p cs)
  obtain n a where p: "p = (n, a)" by (cases p)
  have "forwardable_loop m tgt (p # cs) \<longleftrightarrow> serves_target (conn_at m a) tgt \<or> forwardable_loop m tgt cs"
    by (simp add: p serves_target_def)
  with Cons.IH show ?case by (simp add: p)
qed simp

text \<open>
  What is forwardable. Besides the wildcard and the empty target, exactly the targets that
  some connection of the map, to a device and not to another gateway, queries or has seen, if
  the connection uses no lock or holds its lock.
\<close>

theorem Forwardable_iff:
  "Forwardable m tgt \<longleftrightarrow> tgt = ''*'' \<or> tgt = [] \<or>
     (\<exists>a \<in> set (map snd (mg_connections m)). serves_target (conn_at m a) tgt)"
  by (simp add: Forwardable_def forwardable_loop_ex)

text \<open>The loop over the connections, whose answer is either all cancelled clients or a panic.\<close>

definition never_subscribed :: "('h, 'c) manager \<Rightarrow> nat list \<Rightarrow> bool" where
  "never_subscribed m addrs \<longleftrightarrow>
     (\<exists>a \<in> set addrs. cn_useLock (conn_at m a) \<and> cn_clientCancel (conn_at m a) = None)"

definition cancelled_clients :: "('h, 'c) manager \<Rightarrow> nat list \<Rightarrow> nat list" where
  "cancelled_clients m addrs =
     List.map_filter (\<lambda>a. if cn_useLock (conn_at m a) then cn_clientCancel (conn_at m a) else None) addrs"

lemma unlock_conn_loop:
  "fold_outcome (\<lambda>(_, a). unlock_conn m a) cs ks =
     (if never_subscribed m (map snd cs) then Panics NilFuncCall
      else Done (ks @ cancelled_clients m (map snd cs)))"
proof (induction cs arbitrary: ks)
  case Nil
  then show ?case by (simp add: never_subscribed_def cancelled_clients_def map_filter_simps)
next
  case (Cons p cs)
  obtain n a where p: "p = (n, a)" by (cases p)
  show ?case
    using Cons.IH
    by (cases "cn_clientCancel (conn_at m a)")
       (auto simp: p unlock_conn_def unlock_def never_subscribed_def cancelled_clients_def map_filter_simps)
qed

text \<open>
  A Zookeeper disconnect cancels the subscriptions of exactly the connections that use a
  lock, and panics when one of them has not subscribed yet. Other states cancel nothing.
\<close>

theorem eventListener_disconnect:
  "eventListener m st =
     (if st \<noteq> StateDisconnected then Done []
      else if never_subscribed m (map snd (mg_connections m)) then Panics NilFuncCall
      else Done (cancelled_clients m (map snd (mg_connections m))))"
  by (simp add: eventListener_def unlock_conn_loop)

section \<open>Lock paths\<close>

definition target_lock_id :: "string \<Rightarrow> string \<Rightarrow> string" where
  "target_lock_id zkprefix tgt = zl_id (NewZookeeperNonBlockingLock (MakeTargetLockPath zkprefix tgt) [])"

lemma trim_right_char_append:
  "s \<noteq> [] \<Longrightarrow> CHR ''/'' \<notin> set s \<Longrightarrow> trim_right_char CHR ''/'' (p @ s) = p @ s"
  by (rule trim_right_char_id) (auto dest: last_in_set)

lemma last_part_of_trimmed:
  assumes "tgt \<noteq> []" and "CHR ''/'' \<notin> set tgt"
  shows "last (split_on CHR ''/'' (''/'' @ trim_char CHR ''/'' (p @ ''/target/'' @ tgt))) = tgt"
proof -
  have keep: "trim_right_char CHR ''/'' (q @ CHR ''/'' # tgt) = q @ CHR ''/'' # tgt" for q
    using trim_right_char_append [OF assms, of "q @ ''/''"] by simp
  obtain q where q: "trim_char CHR ''/'' (p @ ''/target/'' @ tgt) = q @ CHR ''/'' # tgt"
  proof -
    have d: "dropWhile (\<lambda>c. c = CHR ''/'') (p @ ''/target/'' @ tgt) =
        dropWhile (\<lambda>c. c = CHR ''/'') (p @ ''/target'') @ CHR ''/'' # tgt"
      by (induction p) auto
    show ?thesis
      by (rule that [of "dropWhile (\<lambda>c. c = CHR ''/'') (p @ ''/target'')"])
         (use d keep in \<open>simp add: trim_char_def trim_left_char_def\<close>)
  qed
  have "split_on CHR ''/'' ((''/'' @ q) @ CHR ''/'' # tgt) = split_on CHR ''/'' (''/'' @ q) @ split_on CHR ''/'' tgt"
    by (rule split_on_append_sep)
  with q show ?thesis by (simp add: split_on_no_sep [OF assms(2)])
qed

text \<open>
  Different targets have different locks. For names without a slash the lock identifier
  determines the target, and it does not depend on slashes around the configured prefix.
\<close>

theorem target_lock_id_injective:
  assumes "tgt \<noteq> []" "CHR ''/'' \<notin> set tgt" and "tgt' \<noteq> []" "CHR ''/'' \<notin> set tgt'"
    and "target_lock_id zkprefix tgt = target_lock_id zkprefix' tgt'"
  shows "tgt = tgt'"
proof -
  have "last (split_on CHR ''/'' (target_lock_id p t)) = t"
    if "t \<noteq> []" "CHR ''/'' \<notin> set t" for p t
    using last_part_of_trimmed [OF that, of "trim_right_char CHR ''/'' p"]
    by (simp add: target_lock_id_def NewZookeeperNonBlockingLock_def MakeTargetLockPath_def)
  from this [OF assms(1,2), of zkprefix] this [OF assms(3,4), of zkprefix'] assms(5)
  show ?thesis by simp
qed

theorem target_lock_id_injective_witness:
  "target_lock_id ''/gnmi/'' ''r1'' = ''/gnmi/target/r1'' \<and>
   target_lock_id ''/gnmi/'' ''r1'' \<noteq> target_lock_id ''/gnmi/'' ''r2''"
proof
  show "target_lock_id ''/gnmi/'' ''r1'' = ''/gnmi/target/r1''" by code_simp
  show "target_lock_id ''/gnmi/'' ''r1'' \<noteq> target_lock_id ''/gnmi/'' ''r2''"
    using target_lock_id_injective [of "''r1''" "''r2''" "''/gnmi/''" "''/gnmi/''"] by auto
qed

section \<open>The manager drives the process\<close>

text \<open>What the manager does to the connections are steps of the process of \<open>ConnLoop\<close>.\<close>

lemma conn_system_reachable_trans:
  assumes "conn_system_reachable ops config sem lk s t" and "conn_system_reachable ops config sem lk t u"
  shows "conn_system_reachable ops config sem lk s u"
  using assms(2,1)
  by (induction rule: conn_system_reachable.induct) (auto intro: conn_system_reachable.step)

lemma touch_reachable:
  assumes "a < length (mg_runs m)" and "conn_touched (conn_at m a) t"
  shows "conn_system_reachable ops config sem lk (s\<lparr>sy_runs := mg_runs m\<rparr>)
    (s\<lparr>sy_runs := mg_runs (set_conn a t m)\<rparr>)"
proof -
  have "conn_system_step ops config sem lk (s\<lparr>sy_runs := mg_runs m\<rparr>)
      ((s\<lparr>sy_runs := mg_runs m\<rparr>)\<lparr>sy_runs := (sy_runs (s\<lparr>sy_runs := mg_runs m\<rparr>))
        [a := (sy_runs (s\<lparr>sy_runs := mg_runs m\<rparr>) ! a)\<lparr>rn_conn := t\<rparr>]\<rparr>)"
    by (rule conn_system_step.touch) (use assms in \<open>simp_all add: conn_at_def\<close>)
  from conn_system_reachable.step [OF conn_system_reachable.start this]
  show ?thesis by (simp add: set_conn_def)
qed

lemma remove_target_steps:
  assumes inv: "manager_inv m" and r: "remove_target cops name m = Done m'"
  shows "conn_system_reachable ops config sem lk (s\<lparr>sy_runs := mg_runs m\<rparr>) (s\<lparr>sy_runs := mg_runs m'\<rparr>)"
proof (cases "map_of (mg_connections m) name")
  case None
  with r show ?thesis by (simp add: remove_target_def conn_system_reachable.start)
next
  case (Some a)
  let ?t = "(conn_at m a)\<lparr>cn_stopped := True\<rparr>"
  have "mg_runs m' = mg_runs (set_conn a ?t m)"
    using r Some by (auto simp: remove_target_def disconnect_def Let_def go_simps)
  moreover have "conn_touched (conn_at m a) ?t" by (simp add: conn_touched_def)
  ultimately show ?thesis
    using touch_reachable [of a m ?t] manager_inv_at [OF inv Some] by simp
qed

lemma insert_target_steps:
  assumes inv: "manager_inv m" and r: "insert_target cl cops cf ins name cfg m = Done m'"
  shows "conn_system_reachable ops config sem lk (s\<lparr>sy_runs := mg_runs m\<rparr>) (s\<lparr>sy_runs := mg_runs m'\<rparr>)"
proof (cases "map_of (mg_connections m) name")
  case (Some a)
  let ?req = "map_of (cf_Request ins) (tg_Request cfg)"
  let ?t = "(conn_at m a)\<lparr>cn_target := cfg, cn_request := ?req\<rparr>"
  have u: "update_target cl a ?req cfg m = Done m'" using r Some by (simp add: insert_target_def)
  show ?thesis
  proof (cases "Equal (conn_at m a) cfg")
    case True
    with u show ?thesis by (simp add: update_target_def conn_system_reachable.start)
  next
    case False
    then have "m' = set_conn a ?t m" using u by (auto simp: update_target_def Let_def go_simps)
    moreover have "conn_touched (conn_at m a) ?t" by (simp add: conn_touched_def)
    ultimately show ?thesis
      using touch_reachable [of a m ?t] manager_inv_at [OF inv Some] by simp
  qed
next
  case None
  obtain h c where hc: "co_Add cops name (mg_cache m) = (h, c)" by (cases "co_Add cops name (mg_cache m)")
  let ?t = "new_conn cf (mg_zkConn m) name (map_of (cf_Request ins) (tg_Request cfg)) cfg h"
  have "conn_system_step ops config sem lk (s\<lparr>sy_runs := mg_runs m\<rparr>)
      ((s\<lparr>sy_runs := mg_runs m\<rparr>)\<lparr>sy_runs := sy_runs (s\<lparr>sy_runs := mg_runs m\<rparr>) @ [loop_started ?t]\<rparr>)"
    by (rule conn_system_step.new) simp_all
  from conn_system_reachable.step [OF conn_system_reachable.start this]
  show ?thesis using r None hc by (auto simp: insert_target_def)
qed

lemma fold_outcome_steps:
  assumes "fold_outcome f xs m = Done m'" and "manager_inv m"
    and "\<And>x u v. manager_inv u \<Longrightarrow> f x u = Done v \<Longrightarrow> manager_inv v \<and>
      conn_system_reachable ops config sem lk (s\<lparr>sy_runs := mg_runs u\<rparr>) (s\<lparr>sy_runs := mg_runs v\<rparr>)"
  shows "manager_inv m' \<and>
    conn_system_reachable ops config sem lk (s\<lparr>sy_runs := mg_runs m\<rparr>) (s\<lparr>sy_runs := mg_runs m'\<rparr>)"
proof (rule fold_outcome_invariant [where I = "\<lambda>u. manager_inv u \<and>
    conn_system_reachable ops config sem lk (s\<lparr>sy_runs := mg_runs m\<rparr>) (s\<lparr>sy_runs := mg_runs u\<rparr>)", OF assms(1)])
  show "manager_inv m \<and>
    conn_system_reachable ops config sem lk (s\<lparr>sy_runs := mg_runs m\<rparr>) (s\<lparr>sy_runs := mg_runs m\<rparr>)"
    by (simp add: assms(2) conn_system_reachable.start)
  fix x u v
  assume "manager_inv u \<and>
    conn_system_reachable ops config sem lk (s\<lparr>sy_runs := mg_runs m\<rparr>) (s\<lparr>sy_runs := mg_runs u\<rparr>)" "f x u = Done v"
  with assms(3) [of u x v] conn_system_reachable_trans
  show "manager_inv v \<and>
    conn_system_reachable ops config sem lk (s\<lparr>sy_runs := mg_runs m\<rparr>) (s\<lparr>sy_runs := mg_runs v\<rparr>)"
    by metis
qed

lemma handleTargetControlMsg_steps:
  assumes inv: "manager_inv m" and r: "handleTargetControlMsg cl cops cf msg m = Done m'"
  shows "manager_inv m' \<and>
    conn_system_reachable ops config sem lk (s\<lparr>sy_runs := mg_runs m\<rparr>) (s\<lparr>sy_runs := mg_runs m'\<rparr>)"
proof -
  obtain m1 where m1: "fold_outcome (remove_target cl) (tc_Remove msg) m = Done m1"
    using r by (auto simp: handleTargetControlMsg_def go_simps)
  have s1: "manager_inv m1 \<and>
      conn_system_reachable ops config sem lk (s\<lparr>sy_runs := mg_runs m\<rparr>) (s\<lparr>sy_runs := mg_runs m1\<rparr>)"
    by (rule fold_outcome_steps [OF m1 inv]) (simp add: remove_target_inv remove_target_steps)
  show ?thesis
  proof (cases "tc_Insert msg")
    case None
    with r m1 s1 show ?thesis by (simp add: handleTargetControlMsg_def)
  next
    case (Some ins)
    let ?f = "\<lambda>(name, cfg). insert_target cl cops cf ins name cfg"
    have m2: "fold_outcome ?f (cf_Target ins) m1 = Done m'"
      using r m1 Some by (simp add: handleTargetControlMsg_def)
    have "manager_inv m' \<and>
        conn_system_reachable ops config sem lk (s\<lparr>sy_runs := mg_runs m1\<rparr>) (s\<lparr>sy_runs := mg_runs m'\<rparr>)"
    proof (rule fold_outcome_steps [OF m2])
      show "manager_inv m1" using s1 by simp
      fix x and u v :: "('a, 'b) manager"
      assume "manager_inv u" "?f x u = Done v"
      then show "manager_inv v \<and>
          conn_system_reachable ops config sem lk (s\<lparr>sy_runs := mg_runs u\<rparr>) (s\<lparr>sy_runs := mg_runs v\<rparr>)"
        by (cases x) (simp add: insert_target_inv insert_target_steps)
    qed
    with s1 conn_system_reachable_trans show ?thesis by metis
  qed
qed

text \<open>
  A gateway process: control messages to the manager, and steps of the goroutines and of the
  world in between. Only the manager starts and stops connections: the other steps keep their
  number, names and \<open>stopped\<close> flags.
\<close>

definition keeps_targets :: "('h, 'l) conn_run list \<Rightarrow> ('h, 'l) conn_run list \<Rightarrow> bool" where
  "keeps_targets rs rs' \<longleftrightarrow> list_all2 (\<lambda>r r'. cn_name (rn_conn r') = cn_name (rn_conn r) \<and>
     cn_stopped (rn_conn r') = cn_stopped (rn_conn r)) rs rs'"

text \<open>The steps of the goroutines do so.\<close>

lemma keeps_targets_update:
  "i < length rs \<Longrightarrow> cn_name (rn_conn r) = cn_name (rn_conn (rs ! i)) \<Longrightarrow>
   cn_stopped (rn_conn r) = cn_stopped (rn_conn (rs ! i)) \<Longrightarrow> keeps_targets rs (rs[i := r])"
  by (auto simp: keeps_targets_def list_all2_conv_all_nth nth_list_update)

lemma run_step_keeps:
  assumes "i < length (sy_runs s)" and "run_step ops config sem lk i s = Done s'"
  shows "keeps_targets (sy_runs s) (sy_runs s')"
proof (cases "cn_useLock (rn_conn (sy_runs s ! i))")
  case True
  then obtain r m w where "connectWithLock_step ops config (sy_fresh s) sem lk (sy_runs s ! i) (sy_sem s) (sy_world s)
      = Done (r, m, w)" "sy_runs s' = (sy_runs s)[i := r]"
    using assms(2)
    by (cases "connectWithLock_step ops config (sy_fresh s) sem lk (sy_runs s ! i) (sy_sem s) (sy_world s)")
       (auto simp: run_step_def Let_def)
  with assms(1) connectWithLock_step_keeps keeps_targets_update show ?thesis by metis
next
  case False
  obtain r m where "connect_step ops config (sy_fresh s) sem (sy_runs s ! i) (sy_sem s) = (r, m)"
    by fastforce
  moreover from this have "sy_runs s' = (sy_runs s)[i := r]"
    using assms(2) False by (auto simp: run_step_def Let_def)
  ultimately show ?thesis using assms(1) connect_step_keeps keeps_targets_update by metis
qed

inductive gateway_reachable ::
    "client_ops \<Rightarrow> ('h, 'c) cache_ops \<Rightarrow> gateway_config \<Rightarrow> 'm semaphore \<Rightarrow> (zk_lock, 'w, 'e) locker_ops \<Rightarrow>
     ('h, 'c) manager \<Rightarrow> ('h, zk_lock, 'm, 'w) conn_system \<Rightarrow>
     ('h, 'c) manager \<Rightarrow> ('h, zk_lock, 'm, 'w) conn_system \<Rightarrow> bool"
  for ops cops config sem lk m0 s0 where
  start: "gateway_reachable ops cops config sem lk m0 s0 m0 s0"
| message: "gateway_reachable ops cops config sem lk m0 s0 m s \<Longrightarrow>
    handleTargetControlMsg ops cops config msg (m\<lparr>mg_runs := sy_runs s\<rparr>) = Done m' \<Longrightarrow>
    gateway_reachable ops cops config sem lk m0 s0 m' (s\<lparr>sy_runs := mg_runs m'\<rparr>)"
| process: "gateway_reachable ops cops config sem lk m0 s0 m s \<Longrightarrow>
    conn_system_step ops config sem lk s s' \<Longrightarrow> keeps_targets (sy_runs s) (sy_runs s') \<Longrightarrow>
    gateway_reachable ops cops config sem lk m0 s0 m s'"

lemma gateway_reachable_runs:
  "gateway_reachable ops cops config sem lk m0 s0 m s \<Longrightarrow> i < length (sy_runs s) \<Longrightarrow>
   run_steps ops config sem lk i n s = Done s' \<Longrightarrow> gateway_reachable ops cops config sem lk m0 s0 m s'"
proof (induction n arbitrary: s)
  case (Suc n)
  from Suc.prems(3) obtain u where u: "run_step ops config sem lk i s = Done u"
      "run_steps ops config sem lk i n u = Done s'"
    by (auto simp: go_simps)
  have "gateway_reachable ops cops config sem lk m0 s0 m u"
    using Suc.prems(1) conn_system_step.run [OF Suc.prems(2) u(1)] run_step_keeps [OF Suc.prems(2) u(1)]
    by (rule gateway_reachable.process)
  with Suc.IH [OF _ _ u(2)] Suc.prems(2) run_step_length [OF u(1)] show ?case by simp
qed simp

lemma manager_inv_keeps:
  assumes inv: "manager_inv (m\<lparr>mg_runs := rs\<rparr>)" and k: "keeps_targets rs rs'"
  shows "manager_inv (m\<lparr>mg_runs := rs'\<rparr>)"
proof -
  have len: "length rs' = length rs" using k by (auto simp: keeps_targets_def dest: list_all2_lengthD)
  have at: "cn_name (conn_at (m\<lparr>mg_runs := rs'\<rparr>) a) = cn_name (conn_at (m\<lparr>mg_runs := rs\<rparr>) a) \<and>
      cn_stopped (conn_at (m\<lparr>mg_runs := rs'\<rparr>) a) = cn_stopped (conn_at (m\<lparr>mg_runs := rs\<rparr>) a)"
    if "a < length rs" for a
    using k that by (auto simp: keeps_targets_def conn_at_def dest: list_all2_nthD)
  show ?thesis
    unfolding manager_inv_def
  proof (intro conjI allI impI)
    show "gomap_ok (mg_connections (m\<lparr>mg_runs := rs'\<rparr>))" using inv by (simp add: manager_inv_def)
  next
    fix n a assume "map_of (mg_connections (m\<lparr>mg_runs := rs'\<rparr>)) n = Some a"
    then have g: "map_of (mg_connections (m\<lparr>mg_runs := rs\<rparr>)) n = Some a" by simp
    from manager_inv_at [OF inv g] have a: "a < length rs" by simp
    with len show "a < length (mg_runs (m\<lparr>mg_runs := rs'\<rparr>))" by simp
    show "cn_name (conn_at (m\<lparr>mg_runs := rs'\<rparr>) a) = n" "\<not> cn_stopped (conn_at (m\<lparr>mg_runs := rs'\<rparr>) a)"
      using manager_inv_at [OF inv g] at [OF a] by auto
  next
    fix a assume a: "a < length (mg_runs (m\<lparr>mg_runs := rs'\<rparr>))" "\<not> cn_stopped (conn_at (m\<lparr>mg_runs := rs'\<rparr>) a)"
    then have al: "a < length rs" using len by simp
    with a at [OF al] manager_inv_live [OF inv, of a]
    show "map_of (mg_connections (m\<lparr>mg_runs := rs'\<rparr>)) (cn_name (conn_at (m\<lparr>mg_runs := rs'\<rparr>) a)) = Some a"
      by simp
  qed
qed

lemma gateway_reachable_inv:
  fixes c :: 'c and w :: 'w
  assumes "gateway_reachable ops cops config sem lk
      (NewZookeeperConnectionManagerDefault c zk :: ('h, 'c) manager) (conn_system_init x w) m s"
  shows "manager_inv (m\<lparr>mg_runs := sy_runs s\<rparr>) \<and>
    conn_system_reachable ops config sem lk (conn_system_init x w) s"
  using assms
proof (induction rule: gateway_reachable.induct)
  case start
  then show ?case
    by (simp add: manager_inv_def NewZookeeperConnectionManagerDefault_def conn_system_init_def
        conn_system_reachable.start)
next
  case (message m s msg m')
  from handleTargetControlMsg_steps [OF conjunct1 [OF message.IH] message.hyps(2),
      of ops config sem lk s]
  have "manager_inv m'" "conn_system_reachable ops config sem lk s (s\<lparr>sy_runs := mg_runs m'\<rparr>)"
    by simp_all
  with message.IH conn_system_reachable_trans show ?case by fastforce
next
  case (process m s s')
  then show ?case
    using manager_inv_keeps conn_system_reachable.step by blast
qed



end
