(* ===== verification/Loaders.thy ===== *)
theory Loaders
  imports Plugins Clustering ConnManager
begin

text \<open>
  \<open>gateway/loaders\<close>: the registry of target loaders and the loaders of the gateway (JSON file,
  simple YAML file, NetBox, cluster). Files, parsers, the NetBox client and the validation of
  \<open>openconfig/gnmi\<close> are parameters, a record \<open>loader_lib\<close> as they answer at one time. A round of
  a \<open>WatchConfiguration\<close> loop gives the control message it sends to the connection manager, if
  it sends one. The NetBox loader may panic, so a round is an \<open>outcome\<close>.
\<close>

section \<open>Libraries and loaders\<close>

record request_config =
  rq_Target :: string
  rq_Paths :: "string list"

record connection_config =
  cc_Addresses :: "string list"
  cc_Request :: string
  cc_Meta :: "(string, string) gomap"
  cc_Credentials :: credentials

record target_config =
  tf_Connection :: "(string, connection_config) gomap"
  tf_Request :: "(string, request_config) gomap"

text \<open>A NetBox device: the name, and the primary address (nil, or with an address that may be nil).\<close>

record netbox_device =
  nd_Name :: "string option"
  nd_PrimaryIP :: "string option option"

record loader_lib =
  lb_ReadFile :: "string \<Rightarrow> string + string"
  lb_UnmarshalJSON :: "string \<Rightarrow> string + target_configuration"
  lb_UnmarshalYAML :: "string \<Rightarrow> string + target_config"
  lb_Validate :: "target_configuration \<Rightarrow> string option"
  lb_ToGNMIPath :: "string \<Rightarrow> string + path"
  lb_DevicesList :: "string \<Rightarrow> string \<Rightarrow> string \<Rightarrow> string + netbox_device list option"
  lb_ParseCIDR :: "string \<Rightarrow> string + string"

datatype load_error =
    OpenError string string
  | ParseError string string
  | InvalidConfig string string
  | XPathError string string
  | ListError string string

type_synonym loaded = "load_error + target_configuration"

record json_loader =
  jl_file :: string
  jl_interval :: duration
  jl_last :: "target_configuration option"

record simple_loader =
  sm_file :: string
  sm_interval :: duration
  sm_last :: "target_configuration option"

record netbox_loader =
  nb_config :: target_loaders_config
  nb_last :: "target_configuration option"
  nb_apiKey :: string
  nb_client :: "(string \<times> string) option"
  nb_host :: string
  nb_interval :: duration

datatype target_loader =
    JSONFileTargetLoader json_loader
  | SimpleTargetLoader simple_loader
  | NetBoxTargetLoader netbox_loader

definition NewJSONFileTargetLoader :: "gateway_config \<Rightarrow> target_loader outcome" where
  "NewJSONFileTargetLoader config =
     bind_outcome (deref (gc_TargetLoaders config)) (\<lambda>c.
       Done (JSONFileTargetLoader \<lparr>jl_file = tl_JSONFile c, jl_interval = tl_JSONFileReloadInterval c,
         jl_last = None\<rparr>))"

definition NewSimpleTargetLoader :: "gateway_config \<Rightarrow> target_loader outcome" where
  "NewSimpleTargetLoader config =
     bind_outcome (deref (gc_TargetLoaders config)) (\<lambda>c.
       Done (SimpleTargetLoader \<lparr>sm_file = tl_SimpleFile c, sm_interval = tl_SimpleFileReloadInterval c,
         sm_last = None\<rparr>))"

definition NewNetBoxTargetLoader :: "gateway_config \<Rightarrow> target_loader outcome" where
  "NewNetBoxTargetLoader config =
     bind_outcome (deref (gc_TargetLoaders config)) (\<lambda>c.
       Done (NetBoxTargetLoader \<lparr>nb_config = c, nb_last = None, nb_apiKey = tl_NetBoxAPIKey c,
         nb_client = None, nb_host = tl_NetBoxHost c, nb_interval = tl_NetBoxReloadInterval c\<rparr>))"

section \<open>The registry\<close>

definition loaders_Register :: "string \<Rightarrow> (gateway_config \<Rightarrow> target_loader outcome) \<Rightarrow>
    target_loader plugin_registry \<Rightarrow> target_loader plugin_registry" where
  "loaders_Register name new reg = gomap_set name new reg"

definition loaders_New :: "target_loader plugin_registry \<Rightarrow> string \<Rightarrow> gateway_config \<Rightarrow>
    target_loader option outcome" where
  "loaders_New reg name config =
     (case map_of reg name of
        None \<Rightarrow> Done None
      | Some exporter \<Rightarrow> map_done Some (exporter config))"

interpretation loader_registry: name_registry loaders_Register loaders_New "[]"
  by unfold_locales (auto simp: loaders_Register_def loaders_New_def gomap_simps)

text \<open>What the \<open>init\<close> functions of the loader packages register.\<close>

definition loader_constructors :: "(string \<times> (gateway_config \<Rightarrow> target_loader outcome)) list" where
  "loader_constructors =
     [(''json'', NewJSONFileTargetLoader), (''netbox'', NewNetBoxTargetLoader),
      (''simple'', NewSimpleTargetLoader)]"

definition loader_registry_init :: "target_loader plugin_registry" where
  "loader_registry_init = fold (\<lambda>(n, f). loaders_Register n f) loader_constructors []"

section \<open>Reading a configuration\<close>

definition json_GetConfiguration :: "loader_lib \<Rightarrow> json_loader \<Rightarrow> loaded" where
  "json_GetConfiguration lib m =
     (case lb_ReadFile lib (jl_file m) of
        Inl err \<Rightarrow> Inl (OpenError (jl_file m) err)
      | Inr f \<Rightarrow>
          (case lb_UnmarshalJSON lib f of
             Inl err \<Rightarrow> Inl (ParseError (jl_file m) err)
           | Inr configs \<Rightarrow>
               (case lb_Validate lib configs of
                  Some err \<Rightarrow> Inl (InvalidConfig (jl_file m) err)
                | None \<Rightarrow> Inr configs)))"

definition split_origin :: "string \<Rightarrow> string \<times> string" where
  "split_origin x = (case split_on CHR '':'' x of a # b # _ \<Rightarrow> (a, b) | _ \<Rightarrow> ([], x))"

fun parse_paths :: "loader_lib \<Rightarrow> string list \<Rightarrow> load_error + subscription list" where
  "parse_paths lib [] = Inr []"
| "parse_paths lib (x # xs) =
     (let (origin, x) = split_origin x in
      case lb_ToGNMIPath lib x of
        Inl err \<Rightarrow> Inl (XPathError x err)
      | Inr p \<Rightarrow>
          (let p = (if origin \<noteq> [] then p\<lparr>p_Origin := origin\<rparr> else p) in
           case parse_paths lib xs of
             Inl err \<Rightarrow> Inl err
           | Inr subs \<Rightarrow> Inr (\<lparr>sub_Path = Some p\<rparr> # subs)))"

definition simple_request :: "request_config \<Rightarrow> subscription list \<Rightarrow> subscribe_request" where
  "simple_request request subs =
     \<lparr>sr_Subscribe = Some \<lparr>sl_Prefix = Some (empty_path\<lparr>p_Target := rq_Target request\<rparr>),
        sl_Subscription = subs, sl_Mode = STREAM, sl_UpdatesOnly = False\<rparr>\<rparr>"

fun simple_requests :: "loader_lib \<Rightarrow> (string \<times> request_config) list \<Rightarrow> target_configuration \<Rightarrow> loaded" where
  "simple_requests lib [] configs = Inr configs"
| "simple_requests lib ((requestName, request) # rs) configs =
     (case parse_paths lib (rq_Paths request) of
        Inl err \<Rightarrow> Inl err
      | Inr subs \<Rightarrow> simple_requests lib rs
          (configs\<lparr>cf_Request := gomap_set requestName (simple_request request subs) (cf_Request configs)\<rparr>))"

definition simple_target :: "connection_config \<Rightarrow> target" where
  "simple_target conn =
     \<lparr>tg_Addresses = cc_Addresses conn, tg_Credentials = Some (cc_Credentials conn),
      tg_Request = cc_Request conn, tg_Meta = cc_Meta conn\<rparr>"

definition yamlToTargets :: "loader_lib \<Rightarrow> simple_loader \<Rightarrow> string \<Rightarrow> loaded" where
  "yamlToTargets lib m data =
     (case lb_UnmarshalYAML lib data of
        Inl err \<Rightarrow> Inl (ParseError (sm_file m) err)
      | Inr simpleConfig \<Rightarrow>
          (case simple_requests lib (tf_Request simpleConfig) \<lparr>cf_Target = [], cf_Request = []\<rparr> of
             Inl err \<Rightarrow> Inl err
           | Inr configs \<Rightarrow>
               Inr (configs\<lparr>cf_Target := fold (\<lambda>(connName, conn). gomap_set connName (simple_target conn))
                 (tf_Connection simpleConfig) (cf_Target configs)\<rparr>)))"

definition simple_GetConfiguration :: "loader_lib \<Rightarrow> simple_loader \<Rightarrow> loaded" where
  "simple_GetConfiguration lib m =
     (case lb_ReadFile lib (sm_file m) of
        Inl err \<Rightarrow> Inl (OpenError (sm_file m) err)
      | Inr data \<Rightarrow>
          (case yamlToTargets lib m data of
             Inl err \<Rightarrow> Inl err
           | Inr configs \<Rightarrow>
               (case lb_Validate lib configs of
                  Some err \<Rightarrow> Inl (InvalidConfig (sm_file m) err)
                | None \<Rightarrow> Inr configs)))"

fun netbox_paths :: "loader_lib \<Rightarrow> string list \<Rightarrow> load_error + subscription list" where
  "netbox_paths lib [] = Inr []"
| "netbox_paths lib (x # xs) =
     (case lb_ToGNMIPath lib x of
        Inl err \<Rightarrow> Inl (XPathError x err)
      | Inr p \<Rightarrow>
          (case netbox_paths lib xs of
             Inl err \<Rightarrow> Inl err
           | Inr subs \<Rightarrow> Inr (\<lparr>sub_Path = Some p\<rparr> # subs)))"

definition netbox_target :: "target_loaders_config \<Rightarrow> string \<Rightarrow> target" where
  "netbox_target c ip =
     \<lparr>tg_Addresses = [ip @ '':'' @ Itoa (sint (tl_NetBoxDeviceGNMIPort c))],
      tg_Credentials = Some \<lparr>cr_Username = tl_NetBoxDeviceUsername c, cr_Password = tl_NetBoxDevicePassword c\<rparr>,
      tg_Request = ''default'', tg_Meta = []\<rparr>"

definition add_device :: "loader_lib \<Rightarrow> target_loaders_config \<Rightarrow> netbox_device \<Rightarrow>
    (string, target) gomap \<Rightarrow> (string, target) gomap outcome" where
  "add_device lib c device targets =
     bind_outcome (deref (nd_PrimaryIP device)) (\<lambda>address.
       if address = None \<or> address = Some [] then Done targets
       else case lb_ParseCIDR lib (the address) of
           Inl err \<Rightarrow> Done targets
         | Inr ip \<Rightarrow> bind_outcome (deref (nd_Name device)) (\<lambda>name.
             Done (gomap_set name (netbox_target c ip) targets)))"

definition netbox_GetConfiguration :: "loader_lib \<Rightarrow> netbox_loader \<Rightarrow> loaded outcome" where
  "netbox_GetConfiguration lib m =
     (let c = nb_config m in
      bind_outcome (deref (nb_client m)) (\<lambda>(host, key).
        case lb_DevicesList lib host key (tl_NetBoxIncludeTag c) of
          Inl err \<Rightarrow> Done (Inl (ListError (tl_NetBoxIncludeTag c) err))
        | Inr payload \<Rightarrow>
            (case netbox_paths lib (tl_NetBoxSubscribePaths c) of
               Inl err \<Rightarrow> Done (Inl err)
             | Inr subs \<Rightarrow>
                 bind_outcome (fold_outcome (add_device lib c)
                     (case payload of None \<Rightarrow> [] | Some results \<Rightarrow> results) []) (\<lambda>targets.
                   let configs = \<lparr>cf_Target = targets, cf_Request =
                         [(''default'', \<lparr>sr_Subscribe = Some \<lparr>sl_Prefix = Some empty_path,
                            sl_Subscription = subs, sl_Mode = STREAM, sl_UpdatesOnly = False\<rparr>\<rparr>)]\<rparr>
                   in case lb_Validate lib configs of
                        Some err \<Rightarrow> Done (Inl (InvalidConfig ''NetBox'' err))
                      | None \<Rightarrow> Done (Inr configs)))))"

section \<open>Starting\<close>

definition json_Start :: "loader_lib \<Rightarrow> json_loader \<Rightarrow> load_error option" where
  "json_Start lib m = None"

definition simple_Start :: "loader_lib \<Rightarrow> simple_loader \<Rightarrow> load_error option" where
  "simple_Start lib m = (case simple_GetConfiguration lib m of Inl err \<Rightarrow> Some err | Inr _ \<Rightarrow> None)"

definition netbox_Start :: "loader_lib \<Rightarrow> netbox_loader \<Rightarrow> (load_error option \<times> netbox_loader) outcome" where
  "netbox_Start lib m =
     (let m = m\<lparr>nb_client := Some (tl_NetBoxHost (nb_config m), tl_NetBoxAPIKey (nb_config m))\<rparr> in
      bind_outcome (netbox_GetConfiguration lib m) (\<lambda>r.
        Done (case r of Inl err \<Rightarrow> Some err | Inr _ \<Rightarrow> None, m)))"

section \<open>Watching\<close>

text \<open>The targets of the last configuration that the new one does not have.\<close>

definition removed_targets :: "target_configuration option \<Rightarrow> target_configuration \<Rightarrow> string list" where
  "removed_targets previous targetConfig =
     (case previous of
        None \<Rightarrow> []
      | Some l \<Rightarrow> filter (\<lambda>targetName. map_of (cf_Target targetConfig) targetName = None)
          (gomap_keys (cf_Target l)))"

definition control_msg :: "target_configuration option \<Rightarrow> target_configuration \<Rightarrow> target_control" where
  "control_msg previous targetConfig =
     \<lparr>tc_Insert = Some targetConfig, tc_Remove = removed_targets previous targetConfig\<rparr>"

text \<open>One round of each of the loops \<open>WatchConfiguration\<close>.\<close>

definition json_WatchConfiguration :: "loader_lib \<Rightarrow> json_loader \<Rightarrow> (target_control option \<times> json_loader) outcome" where
  "json_WatchConfiguration lib m =
     (case json_GetConfiguration lib m of
        Inl err \<Rightarrow> Done (None, m)
      | Inr targetConfig \<Rightarrow>
          Done (Some (control_msg (jl_last m) targetConfig), m\<lparr>jl_last := Some targetConfig\<rparr>))"

definition simple_WatchConfiguration :: "loader_lib \<Rightarrow> simple_loader \<Rightarrow> (target_control option \<times> simple_loader) outcome" where
  "simple_WatchConfiguration lib m =
     (case simple_GetConfiguration lib m of
        Inl err \<Rightarrow> Done (None, m)
      | Inr targetConfig \<Rightarrow>
          Done (Some (control_msg (sm_last m) targetConfig), m\<lparr>sm_last := Some targetConfig\<rparr>))"

definition netbox_WatchConfiguration :: "loader_lib \<Rightarrow> netbox_loader \<Rightarrow> (target_control option \<times> netbox_loader) outcome" where
  "netbox_WatchConfiguration lib m =
     bind_outcome (netbox_GetConfiguration lib m) (\<lambda>r.
       case r of
         Inl err \<Rightarrow> Done (None, m)
       | Inr targetConfig \<Rightarrow>
           Done (Some (control_msg (nb_last m) targetConfig), m\<lparr>nb_last := Some targetConfig\<rparr>))"

section \<open>The cluster loader\<close>

definition all_requests :: "(string, subscribe_request) gomap" where
  "all_requests =
     [(''all'', \<lparr>sr_Subscribe = Some \<lparr>sl_Prefix = Some (empty_path\<lparr>p_Target := ''*''\<rparr>),
        sl_Subscription = [\<lparr>sub_Path = Some empty_path\<rparr>], sl_Mode = STREAM, sl_UpdatesOnly = False\<rparr>\<rparr>)]"

definition cluster_GetConfiguration :: "zk_error + member_id list \<Rightarrow> zk_error + target_configuration" where
  "cluster_GetConfiguration memberList =
     (case memberList of
        Inl err \<Rightarrow> Inl err
      | Inr members \<Rightarrow>
          Inr \<lparr>cf_Target = fold (\<lambda>member. gomap_set (member_string member)
                \<lparr>tg_Addresses = [member_string member], tg_Credentials = None, tg_Request = ''all'', tg_Meta = []\<rparr>)
                members [],
              cf_Request = all_requests\<rparr>)"

definition cluster_target :: "member_id \<Rightarrow> target" where
  "cluster_target add =
     \<lparr>tg_Addresses = [member_string add], tg_Credentials = None, tg_Request = ''all'',
      tg_Meta = [(''NoLock'', ''yes''), (''ClusterMember'', ''yes'')]\<rparr>"

definition cluster_insert :: "member_id \<Rightarrow> target_control" where
  "cluster_insert add =
     \<lparr>tc_Insert = Some \<lparr>cf_Target = [(member_string add, cluster_target add)], cf_Request = all_requests\<rparr>,
      tc_Remove = []\<rparr>"

definition cluster_remove :: "member_id \<Rightarrow> target_control" where
  "cluster_remove rem = \<lparr>tc_Insert = None, tc_Remove = [member_string rem]\<rparr>"

text \<open>The callback \<open>WatchConfiguration\<close> gives to \<open>MemberListCallback\<close>; its state is what it has sent.\<close>

definition cluster_callback :: "target_control list member_callback" where
  "cluster_callback add rem sent =
     (let sent = (if add \<noteq> MemberID [] then sent @ [cluster_insert add] else sent)
      in if rem \<noteq> MemberID [] then sent @ [cluster_remove rem] else sent)"

section \<open>A loader and the connection manager\<close>

text \<open>The messages of the rounds of a loop, with a library that answers anew in each round.\<close>

fun watch_loop :: "(loader_lib \<Rightarrow> 'l \<Rightarrow> (target_control option \<times> 'l) outcome) \<Rightarrow> loader_lib list \<Rightarrow> 'l \<Rightarrow>
    (target_control list \<times> 'l) outcome" where
  "watch_loop round [] l = Done ([], l)"
| "watch_loop round (lib # libs) l =
     bind_outcome (round lib l) (\<lambda>(msg, l).
       bind_outcome (watch_loop round libs l) (\<lambda>(msgs, l).
         Done ((case msg of None \<Rightarrow> msgs | Some m \<Rightarrow> m # msgs), l)))"

text \<open>The last configuration that was loaded.\<close>

fun last_loaded :: "loaded outcome list \<Rightarrow> target_configuration option \<Rightarrow> target_configuration option" where
  "last_loaded [] c = c"
| "last_loaded (Done (Inr cfg) # rs) c = last_loaded rs (Some cfg)"
| "last_loaded (r # rs) c = last_loaded rs c"

text \<open>
  A target map follows a configuration when it has the same names, each with the addresses and
  credentials of the configuration.
\<close>

definition follows :: "target_map \<Rightarrow> target_configuration option \<Rightarrow> bool" where
  "follows A cfg \<longleftrightarrow>
     (case cfg of
        None \<Rightarrow> A = (\<lambda>_. None)
      | Some c \<Rightarrow> dom A = dom (map_of (cf_Target c)) \<and>
          (\<forall>n t r. A n = Some (t, r) \<longrightarrow> (\<exists>d. map_of (cf_Target c) n = Some d \<and>
             tg_Addresses t = tg_Addresses d \<and> tg_Credentials t = tg_Credentials d)))"

definition same_connection :: "target \<Rightarrow> target \<Rightarrow> bool" where
  "same_connection t d \<longleftrightarrow> tg_Addresses t = tg_Addresses d \<and> tg_Credentials t = tg_Credentials d"

lemma spec_insert_get:
  "spec_insert ins (n, cfg) A m = (if m \<noteq> n then A m else
     (case A n of
        Some (old, r) \<Rightarrow> if same_connection old cfg then Some (old, r)
          else Some (cfg, map_of (cf_Request ins) (tg_Request cfg))
      | None \<Rightarrow> Some (cfg, map_of (cf_Request ins) (tg_Request cfg))))"
  by (auto simp: spec_insert_def same_connection_def split: option.splits)

lemma spec_insert_other: "m \<noteq> n \<Longrightarrow> spec_insert ins (n, cfg) A m = A m"
  by (simp add: spec_insert_get)

lemma spec_insert_same: "\<exists>t r. spec_insert ins (n, cfg) A n = Some (t, r) \<and> same_connection t cfg"
  by (cases "A n") (auto simp: spec_insert_get same_connection_def split: prod.splits if_splits)

lemma fold_spec_insert:
  assumes "distinct (map fst ps)"
  shows "case map_of ps n of
      None \<Rightarrow> fold (spec_insert ins) ps A n = A n
    | Some d \<Rightarrow> \<exists>t r. fold (spec_insert ins) ps A n = Some (t, r) \<and> same_connection t d"
  using assms
proof (induction ps arbitrary: A)
  case (Cons p ps)
  obtain m cfg where p: "p = (m, cfg)" by (cases p)
  have IH: "case map_of ps n of
      None \<Rightarrow> fold (spec_insert ins) ps (spec_insert ins p A) n = spec_insert ins p A n
    | Some d \<Rightarrow> \<exists>t r. fold (spec_insert ins) ps (spec_insert ins p A) n = Some (t, r) \<and> same_connection t d"
    using Cons by simp
  show ?case
  proof (cases "m = n")
    case True
    with Cons.prems p have "map_of ps n = None" by (auto simp: map_of_eq_None_iff)
    with IH True p spec_insert_same [of ins n cfg A] show ?thesis by auto
  next
    case False
    with IH p show ?thesis by (auto simp: spec_insert_other split: option.splits)
  qed
qed simp

lemma fold_remove_get: "fold (\<lambda>name A. A(name := None)) ns A n = (if n \<in> set ns then None else A n)"
  by (induction ns arbitrary: A) auto

lemma removed_targets_set:
  "set (removed_targets (Some l) c) = dom (map_of (cf_Target l)) - dom (map_of (cf_Target c))"
  by (auto simp: removed_targets_def map_of_eq_None_iff dom_map_of_conv_image_fst)

lemma control_msg_follows:
  assumes A: "follows A previous" and ok: "gomap_ok (cf_Target c)"
  shows "follows (spec_message (control_msg previous c) A) (Some c)"
proof -
  let ?A = "fold (\<lambda>name A. A(name := None)) (removed_targets previous c) A"
  have new: "spec_message (control_msg previous c) A = fold (spec_insert c) (cf_Target c) ?A"
    by (simp add: spec_message_def control_msg_def)
  have gone: "?A n = None" if "map_of (cf_Target c) n = None" for n
  proof (cases previous)
    case None
    with A show ?thesis by (simp add: follows_def fold_remove_get)
  next
    case (Some l)
    with A that show ?thesis
      using removed_targets_set [of l c]
      by (cases "A n") (auto simp: follows_def fold_remove_get dom_def)
  qed
  have get: "case map_of (cf_Target c) n of
      None \<Rightarrow> fold (spec_insert c) (cf_Target c) ?A n = None
    | Some d \<Rightarrow> \<exists>t r. fold (spec_insert c) (cf_Target c) ?A n = Some (t, r) \<and> same_connection t d" for n
    using fold_spec_insert [OF ok [unfolded gomap_ok_def], where n = n and ins = c and A = ?A] gone [of n]
    by (cases "map_of (cf_Target c) n") simp_all
  have "(fold (spec_insert c) (cf_Target c) ?A n = None) = (map_of (cf_Target c) n = None)" for n
    using get [of n] by (auto split: option.splits)
  then have "dom (fold (spec_insert c) (cf_Target c) ?A) = dom (map_of (cf_Target c))"
    by (auto simp: dom_def)
  moreover have "\<exists>d. map_of (cf_Target c) n = Some d \<and> same_connection t d"
    if "fold (spec_insert c) (cf_Target c) ?A n = Some (t, r)" for n t r
    using get [of n] that by (auto split: option.splits)
  ultimately show ?thesis
    unfolding new follows_def option.case same_connection_def by blast
qed

text \<open>
  The contract of the polling loaders: a round that cannot get the configuration sends nothing
  and changes nothing; a round that gets it sends it with the targets it no longer has, and
  remembers it.
\<close>

locale config_watcher =
  fixes get :: "loader_lib \<Rightarrow> 'l \<Rightarrow> loaded outcome"
    and previous :: "'l \<Rightarrow> target_configuration option"
    and round :: "loader_lib \<Rightarrow> 'l \<Rightarrow> (target_control option \<times> 'l) outcome"
    and remember :: "target_configuration \<Rightarrow> 'l \<Rightarrow> 'l"
  assumes round_eq: "round lib l = bind_outcome (get lib l) (\<lambda>r. case r of
        Inl err \<Rightarrow> Done (None, l)
      | Inr cfg \<Rightarrow> Done (Some (control_msg (previous l) cfg), remember cfg l))"
    and previous_remember: "previous (remember cfg l) = Some cfg"
    and get_remember: "get lib (remember cfg l) = get lib l"
begin

lemma watch_loop_follows:
  assumes "watch_loop round libs l = Done (msgs, l')" and "follows A (previous l)"
    and "\<And>lib cfg. lib \<in> set libs \<Longrightarrow> get lib l = Done (Inr cfg) \<Longrightarrow> gomap_ok (cf_Target cfg)"
  shows "follows (fold spec_message msgs A) (last_loaded (map (\<lambda>lib. get lib l) libs) (previous l))"
  using assms
proof (induction libs arbitrary: l msgs A)
  case (Cons lib libs)
  from Cons.prems(1) obtain msg l1 ms where r: "round lib l = Done (msg, l1)"
      "watch_loop round libs l1 = Done (ms, l')" "msgs = (case msg of None \<Rightarrow> ms | Some m \<Rightarrow> m # ms)"
    by (auto simp: go_simps)
  from r(1) obtain g where g: "get lib l = Done g" by (auto simp: round_eq go_simps)
  show ?case
  proof (cases g)
    case (Inl err)
    with r g have "msg = None" "l1 = l" by (auto simp: round_eq)
    have "follows (fold spec_message ms A) (last_loaded (map (\<lambda>lib. get lib l) libs) (previous l))"
    proof (rule Cons.IH [OF _ Cons.prems(2)])
      show "watch_loop round libs l = Done (ms, l')" using r(2) \<open>l1 = l\<close> by simp
      show "gomap_ok (cf_Target cfg)" if "lb \<in> set libs" "get lb l = Done (Inr cfg)" for lb cfg
        using Cons.prems(3) [of lb cfg] that by simp
    qed
    with r(3) \<open>msg = None\<close> g Inl show ?thesis by simp
  next
    case (Inr cfg)
    with r g have m: "msg = Some (control_msg (previous l) cfg)" "l1 = remember cfg l"
      by (auto simp: round_eq)
    have "follows (spec_message (control_msg (previous l) cfg) A) (previous l1)"
      using control_msg_follows [OF Cons.prems(2)] Cons.prems(3) [of lib cfg] g Inr
      by (simp add: m previous_remember)
    then have "follows (fold spec_message ms (spec_message (control_msg (previous l) cfg) A))
        (last_loaded (map (\<lambda>lib. get lib l1) libs) (previous l1))"
    proof (rule Cons.IH [OF r(2)])
      show "gomap_ok (cf_Target d)" if "lb \<in> set libs" "get lb l1 = Done (Inr d)" for lb d
        using Cons.prems(3) [of lb d] that by (simp add: m get_remember)
    qed
    with m r(3) g Inr show ?thesis by (simp add: previous_remember get_remember)
  qed
qed simp

text \<open>A loader whose configuration never panics keeps watching.\<close>

lemma watch_loop_total:
  assumes "\<And>lib. lib \<in> set libs \<Longrightarrow> is_done (get lib l)"
  shows "\<exists>msgs l'. watch_loop round libs l = Done (msgs, l')"
  using assms
proof (induction libs arbitrary: l)
  case (Cons lib libs)
  from Cons.prems [of lib] obtain g where g: "get lib l = Done g" by (auto simp: is_done_iff)
  define l1 where "l1 = (case g of Inl err \<Rightarrow> l | Inr cfg \<Rightarrow> remember cfg l)"
  have "is_done (get lb l1)" if "lb \<in> set libs" for lb
    using Cons.prems [of lb] that by (simp add: l1_def get_remember split: sum.split)
  then obtain msgs l' where "watch_loop round libs l1 = Done (msgs, l')" using Cons.IH [of l1] by blast
  moreover have "\<exists>m. round lib l = Done (m, l1)"
    using g by (simp add: round_eq l1_def split: sum.split)
  ultimately show ?case by auto
qed simp

end

interpretation json_watcher: config_watcher
  "\<lambda>lib l. Done (json_GetConfiguration lib l)" jl_last json_WatchConfiguration
  "\<lambda>cfg l. l\<lparr>jl_last := Some cfg\<rparr>"
  by unfold_locales (simp_all add: json_WatchConfiguration_def json_GetConfiguration_def split: sum.split option.split)

interpretation simple_watcher: config_watcher
  "\<lambda>lib l. Done (simple_GetConfiguration lib l)" sm_last simple_WatchConfiguration
  "\<lambda>cfg l. l\<lparr>sm_last := Some cfg\<rparr>"
  by unfold_locales (simp_all add: simple_WatchConfiguration_def simple_GetConfiguration_def
      yamlToTargets_def split: sum.split option.split)

interpretation netbox_watcher: config_watcher
  netbox_GetConfiguration nb_last netbox_WatchConfiguration "\<lambda>cfg l. l\<lparr>nb_last := Some cfg\<rparr>"
  by unfold_locales (simp_all add: netbox_WatchConfiguration_def netbox_GetConfiguration_def)

text \<open>The methods of the interface \<open>TargetLoader\<close>, by the loader behind it.\<close>

definition loader_GetConfiguration :: "loader_lib \<Rightarrow> target_loader \<Rightarrow> loaded outcome" where
  "loader_GetConfiguration lib l =
     (case l of
        JSONFileTargetLoader m \<Rightarrow> Done (json_GetConfiguration lib m)
      | SimpleTargetLoader m \<Rightarrow> Done (simple_GetConfiguration lib m)
      | NetBoxTargetLoader m \<Rightarrow> netbox_GetConfiguration lib m)"

definition loader_Start :: "loader_lib \<Rightarrow> target_loader \<Rightarrow> (load_error option \<times> target_loader) outcome" where
  "loader_Start lib l =
     (case l of
        JSONFileTargetLoader m \<Rightarrow> Done (json_Start lib m, l)
      | SimpleTargetLoader m \<Rightarrow> Done (simple_Start lib m, l)
      | NetBoxTargetLoader m \<Rightarrow> map_done (\<lambda>(e, m). (e, NetBoxTargetLoader m)) (netbox_Start lib m))"

definition loader_WatchConfiguration :: "loader_lib \<Rightarrow> target_loader \<Rightarrow>
    (target_control option \<times> target_loader) outcome" where
  "loader_WatchConfiguration lib l =
     (case l of
        JSONFileTargetLoader m \<Rightarrow> map_done (\<lambda>(c, m). (c, JSONFileTargetLoader m)) (json_WatchConfiguration lib m)
      | SimpleTargetLoader m \<Rightarrow> map_done (\<lambda>(c, m). (c, SimpleTargetLoader m)) (simple_WatchConfiguration lib m)
      | NetBoxTargetLoader m \<Rightarrow> map_done (\<lambda>(c, m). (c, NetBoxTargetLoader m)) (netbox_WatchConfiguration lib m))"

fun loader_last :: "target_loader \<Rightarrow> target_configuration option" where
  "loader_last (JSONFileTargetLoader m) = jl_last m"
| "loader_last (SimpleTargetLoader m) = sm_last m"
| "loader_last (NetBoxTargetLoader m) = nb_last m"

fun loader_remember :: "target_configuration \<Rightarrow> target_loader \<Rightarrow> target_loader" where
  "loader_remember cfg (JSONFileTargetLoader m) = JSONFileTargetLoader (m\<lparr>jl_last := Some cfg\<rparr>)"
| "loader_remember cfg (SimpleTargetLoader m) = SimpleTargetLoader (m\<lparr>sm_last := Some cfg\<rparr>)"
| "loader_remember cfg (NetBoxTargetLoader m) = NetBoxTargetLoader (m\<lparr>nb_last := Some cfg\<rparr>)"

interpretation loader_watcher: config_watcher
  loader_GetConfiguration loader_last loader_WatchConfiguration loader_remember
proof
  fix lib l cfg
  have net: "map_done f (bind_outcome m g) = bind_outcome m (\<lambda>x. map_done f (g x))" for f m g
    by (cases m) simp_all
  show "loader_WatchConfiguration lib l = bind_outcome (loader_GetConfiguration lib l) (\<lambda>r. case r of
        Inl err \<Rightarrow> Done (None, l)
      | Inr cfg \<Rightarrow> Done (Some (control_msg (loader_last l) cfg), loader_remember cfg l))"
    by (cases l) (auto simp: loader_WatchConfiguration_def loader_GetConfiguration_def
        json_watcher.round_eq simple_watcher.round_eq netbox_watcher.round_eq net
        intro!: arg_cong2 [where f = bind_outcome] split: sum.split)
  show "loader_last (loader_remember cfg l) = Some cfg" by (cases l) simp_all
  show "loader_GetConfiguration lib (loader_remember cfg l) = loader_GetConfiguration lib l"
    by (cases l) (simp_all add: loader_GetConfiguration_def json_watcher.get_remember [simplified]
        simple_watcher.get_remember [simplified] netbox_watcher.get_remember)
qed

section \<open>Properties of the loaders\<close>


definition example_lib :: loader_lib where
  "example_lib =
     \<lparr>lb_ReadFile = (\<lambda>f. Inr []), lb_UnmarshalJSON = (\<lambda>d. Inr \<lparr>cf_Target = [(''r1'', example_target)], cf_Request = []\<rparr>),
      lb_UnmarshalYAML = (\<lambda>d. Inr \<lparr>tf_Connection = [], tf_Request = []\<rparr>), lb_Validate = (\<lambda>c. None),
      lb_ToGNMIPath = (\<lambda>x. Inr empty_path), lb_DevicesList = (\<lambda>h k t. Inr None), lb_ParseCIDR = (\<lambda>a. Inr a)\<rparr>"

definition failing_lib :: loader_lib where
  "failing_lib = example_lib\<lparr>lb_ReadFile := \<lambda>f. Inl ''no such file''\<rparr>"

definition example_loader :: target_loader where
  "example_loader = JSONFileTargetLoader \<lparr>jl_file = ''targets.json'', jl_interval = 0, jl_last = None\<rparr>"


lemma simple_requests_get:
  assumes "distinct (map fst rs)"
  shows "case simple_requests lib rs configs of
      Inl err \<Rightarrow> \<exists>(n, r) \<in> set rs. parse_paths lib (rq_Paths r) = Inl err
    | Inr c \<Rightarrow> cf_Target c = cf_Target configs \<and>
        (\<forall>n. case map_of rs n of
           None \<Rightarrow> map_of (cf_Request c) n = map_of (cf_Request configs) n
         | Some r \<Rightarrow> \<exists>subs. parse_paths lib (rq_Paths r) = Inr subs \<and>
             map_of (cf_Request c) n = Some (simple_request r subs))"
  using assms
proof (induction rs arbitrary: configs)
  case (Cons x rs)
  obtain n r where x: "x = (n, r)" by (cases x)
  show ?case
  proof (cases "parse_paths lib (rq_Paths r)")
    case (Inl err)
    with x show ?thesis by auto
  next
    case (Inr subs)
    let ?c = "configs\<lparr>cf_Request := gomap_set n (simple_request r subs) (cf_Request configs)\<rparr>"
    have new: "map_of rs n = None" using Cons.prems x by (auto simp: map_of_eq_None_iff)
    have "distinct (map fst rs)" using Cons.prems by simp
    note IH = Cons.IH [OF this, of ?c]
    show ?thesis
    proof (cases "simple_requests lib rs ?c")
      case (Inl err)
      with IH Inr x show ?thesis by auto
    next
      case c: (Inr c)
      have get: "case map_of rs k of
           None \<Rightarrow> map_of (cf_Request c) k = map_of (cf_Request ?c) k
         | Some r \<Rightarrow> \<exists>subs. parse_paths lib (rq_Paths r) = Inr subs \<and>
             map_of (cf_Request c) k = Some (simple_request r subs)" for k
        using IH c by simp
      have "case map_of (x # rs) k of
           None \<Rightarrow> map_of (cf_Request c) k = map_of (cf_Request configs) k
         | Some r \<Rightarrow> \<exists>subs. parse_paths lib (rq_Paths r) = Inr subs \<and>
             map_of (cf_Request c) k = Some (simple_request r subs)" for k
        using get [of k] new Inr by (cases "k = n") (auto simp: x gomap_simps split: option.splits)
      with IH c Inr x show ?thesis by simp
    qed
  qed
qed simp


definition yaml_lib :: loader_lib where
  "yaml_lib = example_lib\<lparr>lb_UnmarshalYAML := \<lambda>d. Inr
     \<lparr>tf_Connection = [(''r1'', \<lparr>cc_Addresses = [''r1:9339''], cc_Request = ''req'', cc_Meta = [],
          cc_Credentials = \<lparr>cr_Username = ''u'', cr_Password = ''p''\<rparr>\<rparr>)],
      tf_Request = [(''req'', \<lparr>rq_Target = ''*'', rq_Paths = [''openconfig:/interfaces'']\<rparr>)]\<rparr>\<rparr>"


text \<open>
  A path is split at its colons and all but the first two parts are dropped, so a key value with
  a colon is taken for an origin and the rest of the path is lost.
\<close>

lemma split_origin_plain: "CHR '':'' \<notin> set x \<Longrightarrow> split_origin x = ([], x)"
  by (simp add: split_origin_def split_on_no_sep)

lemma split_origin_once:
  "CHR '':'' \<notin> set a \<Longrightarrow> CHR '':'' \<notin> set b \<Longrightarrow> split_origin (a @ CHR '':'' # b) = (a, b)"
  by (simp add: split_origin_def split_on_append split_on_no_sep)

lemma split_origin_truncates:
  assumes "CHR '':'' \<notin> set a" "CHR '':'' \<notin> set b"
  shows "split_origin (a @ CHR '':'' # b @ CHR '':'' # c) = (a, b)"
  using assms by (simp add: split_origin_def split_on_append)

text \<open>
  A request of the NetBox loader for its configuration panics exactly when it has no client
  yet, or when NetBox answers and the subscription paths are valid but one of the devices has no
  primary address object, or has a valid address and no name.
\<close>

definition device_ok :: "loader_lib \<Rightarrow> netbox_device \<Rightarrow> bool" where
  "device_ok lib d \<longleftrightarrow>
     (case nd_PrimaryIP d of
        None \<Rightarrow> False
      | Some None \<Rightarrow> True
      | Some (Some a) \<Rightarrow> a = [] \<or> isl (lb_ParseCIDR lib a) \<or> nd_Name d \<noteq> None)"

lemma add_device_done: "is_done (add_device lib c d ts) \<longleftrightarrow> device_ok lib d"
proof (cases "nd_PrimaryIP d")
  case (Some address)
  show ?thesis
  proof (cases address)
    case a: (Some a)
    show ?thesis
      by (cases "lb_ParseCIDR lib a"; cases "nd_Name d") (simp_all add: add_device_def device_ok_def Some a)
  qed (simp add: add_device_def device_ok_def Some)
qed (simp add: add_device_def device_ok_def)

lemma fold_add_device_done: "is_done (fold_outcome (add_device lib c) ds ts) \<longleftrightarrow> list_all (device_ok lib) ds"
proof (induction ds arbitrary: ts)
  case (Cons d ds)
  have "is_done (fold_outcome (add_device lib c) (d # ds) ts) \<longleftrightarrow>
      is_done (add_device lib c d ts) \<and> list_all (device_ok lib) ds"
    by (simp add: go_simps Cons.IH) (simp add: is_done_iff)
  then show ?case by (simp add: add_device_done)
qed simp

theorem netbox_GetConfiguration_returns_iff:
  "is_done (netbox_GetConfiguration lib m) \<longleftrightarrow>
     (case nb_client m of
        None \<Rightarrow> False
      | Some (host, key) \<Rightarrow>
          (case lb_DevicesList lib host key (tl_NetBoxIncludeTag (nb_config m)) of
             Inl err \<Rightarrow> True
           | Inr payload \<Rightarrow> isl (netbox_paths lib (tl_NetBoxSubscribePaths (nb_config m))) \<or>
               list_all (device_ok lib) (case payload of None \<Rightarrow> [] | Some results \<Rightarrow> results)))"
proof (cases "nb_client m")
  case (Some hk)
  obtain host key where hk: "hk = (host, key)" by (cases hk)
  have tail: "is_done (bind_outcome x (\<lambda>t. case f t of Some err \<Rightarrow> Done (g err) | None \<Rightarrow> Done (h t))) \<longleftrightarrow> is_done x"
    for x :: "(string, target) gomap outcome" and f g h
    by (cases x) (simp_all split: option.split)
  show ?thesis
    by (simp add: netbox_GetConfiguration_def Let_def Some hk tail fold_add_device_done split: sum.splits)
qed (simp add: netbox_GetConfiguration_def)

lemma netbox_device_without_address_panics:
  assumes "nb_client m = Some (h, k)" and "lb_DevicesList lib h k (tl_NetBoxIncludeTag (nb_config m)) = Inr (Some ds)"
    and "netbox_paths lib (tl_NetBoxSubscribePaths (nb_config m)) = Inr subs"
    and "\<lparr>nd_Name = n, nd_PrimaryIP = None\<rparr> \<in> set ds"
  shows "\<not> is_done (netbox_GetConfiguration lib m)"
proof -
  let ?c = "nb_config m"
  have "\<not> is_done (fold_outcome (add_device lib ?c) ds [])"
    using assms(4) by (auto simp: fold_add_device_done list_all_iff device_ok_def
        intro!: bexI [of _ "\<lparr>nd_Name = n, nd_PrimaryIP = None\<rparr>"])
  then obtain p where "fold_outcome (add_device lib ?c) ds [] = Panics p"
    by (cases "fold_outcome (add_device lib ?c) ds []") simp_all
  with assms show ?thesis by (simp add: netbox_GetConfiguration_def Let_def)
qed

section \<open>The cluster loader and the member callback\<close>

text \<open>Two callbacks that keep their states related see the same rounds.\<close>

definition related_callbacks :: "('s \<Rightarrow> 't \<Rightarrow> bool) \<Rightarrow> 's member_callback \<Rightarrow> 't member_callback \<Rightarrow> bool" where
  "related_callbacks R cb1 cb2 \<longleftrightarrow>
     (\<forall>add rem u v. R u v \<longrightarrow> add = MemberID [] \<or> rem = MemberID [] \<longrightarrow> R (cb1 add rem u) (cb2 add rem v))"

lemma related_folds:
  assumes "related_callbacks R cb1 cb2" and "R u v"
  shows "R (fold (\<lambda>m. cb1 m (MemberID [])) ms u) (fold (\<lambda>m. cb2 m (MemberID [])) ms v)"
    and "R (fold (\<lambda>m. cb1 (MemberID []) m) ms u) (fold (\<lambda>m. cb2 (MemberID []) m) ms v)"
  using assms(2)
  by (induction ms arbitrary: u v) (use assms(1) in \<open>auto simp: related_callbacks_def\<close>)

lemma watch_round_related:
  assumes cb: "related_callbacks R cb1 cb2" and "R u v"
    and "run_zk svc (watch_round cb1 c w u) z = ((w', u'), z')"
  shows "\<exists>v'. run_zk svc (watch_round cb2 c w v) z = ((w', v'), z') \<and> R u' v'"
proof -
  have children: "\<exists>v'. watch_children cb2 c w cs v = (fst (watch_children cb1 c w cs u), v') \<and>
      R (snd (watch_children cb1 c w cs u)) v'" for cs
    by (simp add: watch_children_eq related_folds [OF cb] assms(2))
  show ?thesis
  proof (cases "mw_stopped w \<or> mw_errors w > 3")
    case True
    with assms(2,3) show ?thesis by (auto simp: watch_round_def)
  next
    case False
    obtain r z1 where r: "zks_children svc (searchPath c) z = (r, z1)"
      by (cases "zks_children svc (searchPath c) z")
    show ?thesis
    proof (cases r)
      case (Inr cs)
      with False r assms(3) children [of cs] show ?thesis by (auto simp: watch_round_def)
    next
      case (Inl err)
      obtain e z2 where p: "run_zk svc (CreatePath (searchPath c)) z1 = (e, z2)"
        by (cases "run_zk svc (CreatePath (searchPath c)) z1")
      show ?thesis
        using False r Inl p assms(2,3)
        by (cases err; cases e) (auto simp: watch_round_def run_zk_bind)
    qed
  qed
qed

lemma watch_reachable_related:
  assumes "watch_reachable svc c cb1 u0 x" and cb: "related_callbacks R cb1 cb2" and "R u0 v0"
  shows "\<exists>v. watch_reachable svc c cb2 v0 (fst x, fst (snd x), v) \<and> R (snd (snd x)) v"
  using assms(1)
proof (induction rule: watch_reachable.induct)
  case (start z)
  then show ?case using assms(3) by (auto intro: watch_reachable.start)
next
  case (step x y)
  then obtain v where v: "watch_reachable svc c cb2 v0 (fst x, fst (snd x), v)" "R (snd (snd x)) v" by blast
  from step.hyps(2) show ?case
  proof (cases rule: watch_step.cases)
    case (round w s z w' s' z')
    from watch_round_related [OF cb, of s v svc c w z w' s' z'] round v
    obtain v' where "run_zk svc (watch_round cb2 c w v) z = ((w', v'), z')" "R s' v'" by auto
    with round v show ?thesis by (auto intro: watch_reachable.step watch_step.round)
  qed (use v in \<open>auto intro: watch_reachable.step watch_step.intros\<close>)
qed

definition cluster_targets :: "member_id set \<Rightarrow> target_map" where
  "cluster_targets S n =
     (if MemberID n \<in> S then Some (cluster_target (MemberID n), map_of all_requests ''all'') else None)"

lemma cluster_insert_targets:
  assumes "m = MemberID n"
  shows "spec_message (cluster_insert m) (cluster_targets S) = cluster_targets (insert m S)"
  by (rule ext) (auto simp: assms spec_message_def cluster_insert_def spec_insert_def cluster_targets_def
      cluster_target_def)

lemma cluster_remove_targets:
  "spec_message (cluster_remove m) (cluster_targets S) = cluster_targets (S - {m})"
  by (rule ext, cases m) (auto simp: spec_message_def cluster_remove_def cluster_targets_def)

lemma cluster_callbacks_related:
  "related_callbacks (\<lambda>S sent. fold spec_message sent (\<lambda>_. None) = cluster_targets S) apply_change cluster_callback"
  unfolding related_callbacks_def
proof (intro allI impI)
  fix add rem :: member_id and S sent
  assume R: "fold spec_message sent (\<lambda>_. None) = cluster_targets S"
    and one: "add = MemberID [] \<or> rem = MemberID []"
  obtain a where a: "add = MemberID a" by (cases add)
  from one R show "fold spec_message (cluster_callback add rem sent) (\<lambda>_. None) = cluster_targets (apply_change add rem S)"
    by (auto simp: cluster_callback_def apply_change_def cluster_insert_targets [OF a] cluster_remove_targets)
qed

lemma cluster_round_targets:
  assumes "proper_children svc" and reach: "watch_reachable svc c cluster_callback [] (z, w, sent)"
    and "\<not> mw_stopped w" and "mw_errors w \<le> 3"
    and "fst (zks_children svc (searchPath c) z) = Inr children"
    and run: "run_zk svc (watch_round cluster_callback c w sent) z = ((w', sent'), z')"
  shows "fold spec_message sent' (\<lambda>_. None) = cluster_targets (MemberID ` set children - {cm_member c})"
proof -
  let ?R = "\<lambda>sent S. fold spec_message sent (\<lambda>_. None) = cluster_targets S"
  have cb: "related_callbacks ?R cluster_callback apply_change"
    using cluster_callbacks_related by (simp add: related_callbacks_def)
  have "?R [] {}" by (auto simp: cluster_targets_def)
  from watch_reachable_related [where R = ?R, OF reach cb this]
  obtain S where S: "watch_reachable svc c apply_change {} (z, w, S)" "?R sent S" by auto
  from watch_round_related [where R = ?R, OF cb S(2) run]
  obtain S' where S': "run_zk svc (watch_round apply_change c w S) z = ((w', S'), z')" "?R sent' S'" by auto
  have "S' = MemberID ` set children - {cm_member c}"
    using member_round_tracks [OF assms(1) S(1) assms(3,4,5) S'(1)] by simp
  with S'(2) show ?thesis by simp
qed



end
