(* ===== verification/OpenConfig.thy ===== *)
theory OpenConfig
  imports GnmiTypes
begin

text \<open>
  \<open>gateway/openconfig/types.go\<close>: the lookup of the YANG type of a path, and the merge of the
  OpenConfig modules into one tree. The YANG library and the directory walk are parameters: a
  library \<open>y\<close> gives the paths to search, the visits of the walk, the reading of a module into
  the module set and the entry of a module.
\<close>

section \<open>Type lookup\<close>

text \<open>A YANG entry: the name of its type, if it has one, and its children by name.\<close>

datatype yang_entry = YangEntry (ye_Type: "string option") (ye_Dir: "(string \<times> yang_entry) list")

fun getTypeByPath :: "yang_entry \<Rightarrow> string list \<Rightarrow> string outcome" where
  "getTypeByPath entry [] = Panics IndexOutOfRange"
| "getTypeByPath entry (p # path) =
     (case map_of (ye_Dir entry) p of
        None \<Rightarrow> Done []
      | Some child \<Rightarrow>
          if path = [] then
            (case ye_Type child of None \<Rightarrow> Done [] | Some name \<Rightarrow> Done name)
          else getTypeByPath child path)"

type_synonym type_tree = "(string, yang_entry) gomap"

fun GetTypeByPath :: "type_tree \<Rightarrow> string list \<Rightarrow> string outcome" where
  "GetTypeByPath treeRoot [] = Panics IndexOutOfRange"
| "GetTypeByPath treeRoot (p # path) =
     (case map_of treeRoot p of None \<Rightarrow> Done [] | Some entry \<Rightarrow> getTypeByPath entry path)"

text \<open>The entry that a path leads to, and the name of its type.\<close>

fun walk_entry :: "yang_entry \<Rightarrow> string list \<Rightarrow> yang_entry option" where
  "walk_entry e [] = Some e"
| "walk_entry e (p # ps) = (case map_of (ye_Dir e) p of None \<Rightarrow> None | Some c \<Rightarrow> walk_entry c ps)"

definition type_name :: "yang_entry option \<Rightarrow> string" where
  "type_name e = (case e of None \<Rightarrow> [] | Some e \<Rightarrow> (case ye_Type e of None \<Rightarrow> [] | Some n \<Rightarrow> n))"

lemma getTypeByPath_walk: "ps \<noteq> [] \<Longrightarrow> getTypeByPath e ps = Done (type_name (walk_entry e ps))"
proof (induction ps arbitrary: e)
  case (Cons p ps)
  then show ?case
    by (cases ps) (auto simp: type_name_def split: option.splits)
qed simp

text \<open>
  The type lookup answers the type of the entry the path leads to, the empty string when
  there is no such entry or it has no type, and panics exactly on the empty path and on the
  path of one element that names an existing root.
\<close>

theorem GetTypeByPath_lookup:
  "GetTypeByPath root path =
     (case path of
        [] \<Rightarrow> Panics IndexOutOfRange
      | p # ps \<Rightarrow>
          (case map_of root p of
             None \<Rightarrow> Done []
           | Some e \<Rightarrow>
               if ps = [] then Panics IndexOutOfRange else Done (type_name (walk_entry e ps))))"
  by (cases path) (auto simp: getTypeByPath_walk split: option.splits)

section \<open>Loading the modules\<close>

record 'm yang_lib =
  yl_PathsWithModules :: "string \<Rightarrow> string + string list"
  yl_Walk :: "string \<Rightarrow> (string + string) list"
  yl_Read :: "string list \<Rightarrow> string \<Rightarrow> 'm list \<Rightarrow> string option \<times> 'm list"
  yl_Process :: "'m list \<Rightarrow> (string, 'm) gomap"
  yl_Name :: "'m \<Rightarrow> string"
  yl_ToEntry :: "'m \<Rightarrow> yang_entry"

text \<open>
  The walk visits files in its order; each visit is an error or the name of the file, and the
  first error ends the walk.
\<close>

fun walk_visits :: "(string + string) list \<Rightarrow> string list \<Rightarrow> string + string list" where
  "walk_visits [] fileList = Inr fileList"
| "walk_visits (Inl err # vs) fileList = Inl err"
| "walk_visits (Inr name # vs) fileList =
     walk_visits vs (if suffix ''.yang'' name then fileList @ [take (length name - 5) name] else fileList)"

fun read_modules :: "(string \<Rightarrow> 'm list \<Rightarrow> string option \<times> 'm list) \<Rightarrow> string list \<Rightarrow> 'm list \<Rightarrow>
    string + 'm list" where
  "read_modules rd [] ms = Inr ms"
| "read_modules rd (f # fs) ms =
     (case rd f ms of (Some err, _) \<Rightarrow> Inl err | (None, ms') \<Rightarrow> read_modules rd fs ms')"

text \<open>The first module of each name, in the order in which the map is ranged over.\<close>

fun first_modules :: "('m \<Rightarrow> string) \<Rightarrow> 'm list \<Rightarrow> (string, 'm) gomap \<Rightarrow> string list \<Rightarrow>
    (string, 'm) gomap \<times> string list" where
  "first_modules nm [] mods names = (mods, names)"
| "first_modules nm (m # ms) mods names =
     (if map_of mods (nm m) = None
      then first_modules nm ms (gomap_set (nm m) m mods) (names @ [nm m])
      else first_modules nm ms mods names)"

definition merge_root :: "(string, yang_entry) gomap \<Rightarrow> type_tree" where
  "merge_root entries =
     fold (\<lambda>(fileName, fileEntry) root.
         if prefix ''openconfig'' fileName
         then fold (\<lambda>(name, rootEntry) root. gomap_set name rootEntry root) (ye_Dir fileEntry) root
         else root)
       entries []"

definition LoadAllModules :: "'m yang_lib \<Rightarrow> string \<Rightarrow> type_tree \<Rightarrow> string option \<times> type_tree" where
  "LoadAllModules y dir treeRoot =
     (case yl_PathsWithModules y dir of
        Inl err \<Rightarrow> (Some err, treeRoot)
      | Inr expanded \<Rightarrow>
          (case walk_visits (yl_Walk y dir) [] of
             Inl err \<Rightarrow> (Some err, treeRoot)
           | Inr fileList \<Rightarrow>
               (case read_modules (yl_Read y expanded) fileList [] of
                  Inl err \<Rightarrow> (Some err, treeRoot)
                | Inr ms \<Rightarrow>
                    (case first_modules (yl_Name y) (map snd (yl_Process y ms)) [] [] of
                       (mods, names) \<Rightarrow>
                         let entries = fold (\<lambda>name es.
                               case map_of mods name of
                                 None \<Rightarrow> es
                               | Some m \<Rightarrow> gomap_set name (yl_ToEntry y m) es)
                             (sort_strings names) []
                         in (None, merge_root entries)))))"

text \<open>The inner and the outer loop of the merge: which pairs and which names they store.\<close>

lemma merge_inner:
  "set (fold (\<lambda>(name, rootEntry) root. gomap_set name rootEntry root) ps root) \<subseteq> set root \<union> set ps"
proof (induction ps arbitrary: root)
  case (Cons p ps)
  obtain k v where p: "p = (k, v)" by (cases p)
  have "set (gomap_set k v root) \<subseteq> insert (k, v) (set root)"
    by (induction root) auto
  with Cons.IH [of "gomap_set k v root"] show ?case by (auto simp: p)
qed simp

lemma merge_inner_dom:
  "dom (map_of (fold (\<lambda>(name, rootEntry) root. gomap_set name rootEntry root) ps root)) =
   dom (map_of root) \<union> fst ` set ps"
  by (induction ps arbitrary: root) (auto simp: gomap_simps)

lemma merge_root_loop:
  fixes acc :: type_tree
  defines "go \<equiv> \<lambda>(fileName, fileEntry) root.
         if prefix ''openconfig'' fileName
         then fold (\<lambda>(name, rootEntry) root. gomap_set name rootEntry root) (ye_Dir fileEntry) root
         else root"
  shows "set (fold go es acc) \<subseteq> set acc \<union>
      (\<Union>(f, e) \<in> set es. if prefix ''openconfig'' f then set (ye_Dir e) else {}) \<and>
    dom (map_of (fold go es acc)) = dom (map_of acc) \<union>
      (\<Union>(f, e) \<in> set es. if prefix ''openconfig'' f then fst ` set (ye_Dir e) else {})"
proof (induction es arbitrary: acc)
  case (Cons p es)
  obtain f e where p: "p = (f, e)" by (cases p)
  have g: "go p acc = (if prefix ''openconfig'' f
      then fold (\<lambda>(name, rootEntry) root. gomap_set name rootEntry root) (ye_Dir e) acc else acc)"
    by (simp add: go_def p)
  have "set (go p acc) \<subseteq> set acc \<union> (if prefix ''openconfig'' f then set (ye_Dir e) else {})"
    "dom (map_of (go p acc)) = dom (map_of acc) \<union> (if prefix ''openconfig'' f then fst ` set (ye_Dir e) else {})"
    using merge_inner [of "ye_Dir e" acc] merge_inner_dom [of "ye_Dir e" acc] by (auto simp: g)
  with Cons.IH [of "go p acc"] show ?case by (auto simp: p)
qed simp

text \<open>
  The merged tree has a root for every top-level node of every module whose name starts
  with \<open>openconfig\<close>, and no other; each root is the entry some such module gives to its name.
\<close>

theorem merge_root_openconfig:
  "dom (map_of (merge_root entries)) =
     (\<Union>(f, e) \<in> set entries. if prefix ''openconfig'' f then fst ` set (ye_Dir e) else {}) \<and>
   (map_of (merge_root entries) name = Some r \<longrightarrow>
     (\<exists>f e. (f, e) \<in> set entries \<and> prefix ''openconfig'' f \<and> (name, r) \<in> set (ye_Dir e)))"
proof (intro conjI impI)
  show "dom (map_of (merge_root entries)) =
      (\<Union>(f, e) \<in> set entries. if prefix ''openconfig'' f then fst ` set (ye_Dir e) else {})"
    using merge_root_loop [of entries "[]"] by (simp add: merge_root_def)
next
  assume "map_of (merge_root entries) name = Some r"
  then have "(name, r) \<in> set (merge_root entries)" by (rule map_of_SomeD)
  moreover have "set (merge_root entries) \<subseteq>
      (\<Union>(f, e) \<in> set entries. if prefix ''openconfig'' f then set (ye_Dir e) else {})"
    using merge_root_loop [of entries "[]"] by (simp add: merge_root_def)
  ultimately have "(name, r) \<in> (\<Union>(f, e) \<in> set entries.
      if prefix ''openconfig'' f then set (ye_Dir e) else {})" by (rule subsetD [rotated])
  then obtain f e where "(f, e) \<in> set entries"
      "(name, r) \<in> (if prefix ''openconfig'' f then set (ye_Dir e) else {})" by blast
  then show "\<exists>f e. (f, e) \<in> set entries \<and> prefix ''openconfig'' f \<and> (name, r) \<in> set (ye_Dir e)"
    by (intro exI [of _ f] exI [of _ e]) (simp split: if_splits)
qed

theorem merge_root_openconfig_witness:
  "map_of (merge_root [(''openconfig-interfaces'', YangEntry None [(''interfaces'', YangEntry None [])]),
      (''ietf-ip'', YangEntry None [(''ip'', YangEntry None [])])]) ''interfaces'' =
     Some (YangEntry None []) \<and>
   (\<exists>f e. prefix ''openconfig'' f \<and> (''interfaces'', YangEntry None []) \<in> set (ye_Dir e))"
proof -
  let ?m = "[(''openconfig-interfaces'', YangEntry None [(''interfaces'', YangEntry None [])]),
      (''ietf-ip'', YangEntry None [(''ip'', YangEntry None [])])]"
  have "map_of (merge_root ?m) ''interfaces'' = Some (YangEntry None [])" by code_simp
  with merge_root_openconfig [of ?m "''interfaces''" "YangEntry None []"] show ?thesis by blast
qed

end
