(* ===== verification/Prometheus.thy ===== *)
theory Prometheus
  imports Plugins Utils OpenConfig
begin

text \<open>
  \<open>exporters/prometheus\<close>: the exporter of numeric updates to Prometheus. The Prometheus client
  and the hash function are parameters: \<open>pm_New\<close> creates and registers a metric (which may
  panic) in a registry state \<open>'r\<close>, and \<open>pm_implements\<close> tells whether a metric made as one kind
  satisfies the Go interface of another one, which is what the type switch of \<open>Export\<close> tests.
  The calls on the metrics are a list of events.
\<close>

type_synonym hash = uint64

datatype metric_kind = PromCounter | PromGauge

record 'r prom_lib =
  pm_New :: "metric_kind \<Rightarrow> string \<Rightarrow> (string, string) gomap \<Rightarrow> 'r \<Rightarrow> (nat \<times> 'r) outcome"
  pm_implements :: "metric_kind \<Rightarrow> metric_kind \<Rightarrow> bool"
  pm_Sum64String :: "string \<Rightarrow> hash"

datatype prom_event = AddEvent nat float64 | SetEvent nat float64

section \<open>Deltas and hashes\<close>

type_synonym delta_history = "(hash, float64) gomap"

definition NewDeltaCalculator :: delta_history where
  "NewDeltaCalculator = []"

definition Calc :: "hash \<Rightarrow> float64 \<Rightarrow> delta_history \<Rightarrow> (float64 \<times> bool) \<times> delta_history" where
  "Calc h newValue d =
     (let oldValue = gomap_index float_zero d h; present = (map_of d h \<noteq> None);
          d = gomap_set h newValue d
      in ((float_sub newValue oldValue, present), d))"

definition label_string :: "(string, string) gomap \<Rightarrow> string" where
  "label_string labels =
     fold (\<lambda>k hash. hash @ k @ gomap_index [] labels k) (sort_strings (gomap_keys labels)) []"

definition NewStringMapHash :: "'r prom_lib \<Rightarrow> string \<Rightarrow> (string, string) gomap \<Rightarrow> hash" where
  "NewStringMapHash lib name labels = pm_Sum64String lib (name @ label_string labels)"

section \<open>Metric names\<close>

definition add_labels :: "string \<Rightarrow> (string, string) gomap \<Rightarrow> (string, string) gomap \<Rightarrow> (string, string) gomap" where
  "add_labels metricName keys labels =
     fold (\<lambda>(key, val). gomap_set (metricName @ ''_'' @ ReplaceAll key CHR ''-'' CHR ''_'') val) keys labels"

fun metric_elems :: "path_elem list \<Rightarrow> string \<Rightarrow> (string, string) gomap \<Rightarrow> string \<times> (string, string) gomap" where
  "metric_elems [] metricName labels = (metricName, labels)"
| "metric_elems (elem # elems) metricName labels =
     (let elemName = ReplaceAll (pe_Name elem) CHR ''-'' CHR ''_'';
          metricName = (if metricName = [] then elemName else metricName @ ''_'' @ elemName)
      in metric_elems elems metricName (add_labels metricName (GetKey elem) labels))"

definition target_label :: "path option \<Rightarrow> (string, string) gomap" where
  "target_label pre = (if pre \<noteq> None \<and> GetTarget pre \<noteq> [] then [(''target'', GetTarget pre)] else [])"

definition UpdateToMetricNameAndLabels :: "path option \<Rightarrow> update \<Rightarrow>
    (string \<times> (string, string) gomap) outcome" where
  "UpdateToMetricNameAndLabels pre upd =
     bind_outcome (deref (u_Path upd)) (\<lambda>p. Done (metric_elems (p_Elem p) [] (target_label pre)))"

section \<open>The exporter\<close>

record 'r prometheus_exporter =
  px_history :: delta_history
  px_metrics :: "(hash, (metric_kind \<times> nat) option) gomap"
  px_types :: type_tree
  px_registry :: 'r
  px_events :: "prom_event list"

definition NewPrometheusExporter :: "'r \<Rightarrow> gateway_config \<Rightarrow> 'r prometheus_exporter outcome" where
  "NewPrometheusExporter r config =
     Done \<lparr>px_history = NewDeltaCalculator, px_metrics = [], px_types = [], px_registry = r, px_events = []\<rparr>"

text \<open>The metric of a series that has none yet; \<open>None\<close> is the nil metric.\<close>

definition new_metric :: "'r prom_lib \<Rightarrow> string \<Rightarrow> (string, string) gomap \<Rightarrow> string \<Rightarrow>
    'r prometheus_exporter \<Rightarrow> ((metric_kind \<times> nat) option \<times> 'r prometheus_exporter) outcome" where
  "new_metric lib metricName labels metricType e =
     (if metricType = ''counter64'' then
        bind_outcome (pm_New lib PromCounter metricName labels (px_registry e))
          (\<lambda>(i, r). Done (Some (PromCounter, i), e\<lparr>px_registry := r\<rparr>))
      else if metricType = ''gauge32'' then Done (None, e)
      else
        bind_outcome (pm_New lib PromGauge metricName labels (px_registry e))
          (\<lambda>(i, r). Done (Some (PromGauge, i), e\<lparr>px_registry := r\<rparr>)))"

definition find_metric :: "'r prom_lib \<Rightarrow> path option \<Rightarrow> hash \<Rightarrow> string \<Rightarrow> (string, string) gomap \<Rightarrow>
    'r prometheus_exporter \<Rightarrow> ((metric_kind \<times> nat) option \<times> 'r prometheus_exporter) outcome" where
  "find_metric lib p metricHash metricName labels e =
     (case map_of (px_metrics e) metricHash of
        Some metric \<Rightarrow> Done (metric, e)
      | None \<Rightarrow>
          bind_outcome (GetTypeByPath (px_types e) (map pe_Name (GetElem p))) (\<lambda>metricType.
          bind_outcome (new_metric lib metricName labels metricType e) (\<lambda>(metric, e).
            Done (metric, e\<lparr>px_metrics := gomap_set metricHash metric (px_metrics e)\<rparr>))))"

definition record_value :: "'r prom_lib \<Rightarrow> hash \<Rightarrow> (metric_kind \<times> nat) option \<Rightarrow> float64 \<Rightarrow>
    'r prometheus_exporter \<Rightarrow> 'r prometheus_exporter" where
  "record_value lib metricHash metric val e =
     (case metric of
        None \<Rightarrow> e
      | Some (kind, i) \<Rightarrow>
          if pm_implements lib kind PromCounter then
            (let ((delta, present), d) = Calc metricHash val (px_history e);
                 e = e\<lparr>px_history := d\<rparr>
             in if present \<and> float_nonneg delta then e\<lparr>px_events := px_events e @ [AddEvent i delta]\<rparr> else e)
          else if pm_implements lib kind PromGauge then e\<lparr>px_events := px_events e @ [SetEvent i val]\<rparr>
          else e)"

definition export_update :: "'r prom_lib \<Rightarrow> path option \<Rightarrow> update \<Rightarrow> 'r prometheus_exporter \<Rightarrow>
    'r prometheus_exporter outcome" where
  "export_update lib pre upd e =
     (let (val, isNumber) = GetNumberValues (u_Val upd) in
      if \<not> isNumber then Done e
      else
        bind_outcome (UpdateToMetricNameAndLabels pre upd) (\<lambda>(metricName, labels).
          let metricHash = NewStringMapHash lib metricName labels in
          bind_outcome (find_metric lib (u_Path upd) metricHash metricName labels e) (\<lambda>(metric, e).
            Done (record_value lib metricHash metric val e))))"

definition prometheus_Export :: "'r prom_lib \<Rightarrow> leaf_value \<Rightarrow> 'r prometheus_exporter \<Rightarrow>
    'r prometheus_exporter outcome" where
  "prometheus_Export lib leaf e =
     bind_outcome (leaf_notification leaf) (\<lambda>n.
     bind_outcome (deref n) (\<lambda>notification.
       fold_outcome (export_update lib (n_Prefix notification)) (n_Update notification) e))"

datatype exporter_error =
    NoOpenConfigDirectory | ModuleError string | InvalidTarget string | NoToken | NoOrg | NoBucket | NoTopic
  | NoBrokers

definition prometheus_Start :: "'m yang_lib \<Rightarrow> gateway_config \<Rightarrow> 'r prometheus_exporter \<Rightarrow>
    exporter_error option \<times> 'r prometheus_exporter" where
  "prometheus_Start ylib config e =
     (if gc_OpenConfigDirectory config = [] then (Some NoOpenConfigDirectory, e)
      else case LoadAllModules ylib (gc_OpenConfigDirectory config) (px_types e) of
          (err, types) \<Rightarrow> (map_option ModuleError err, e\<lparr>px_types := types\<rparr>))"

section \<open>The HTTP server of the exporter\<close>

text \<open>
  The loop of \<open>runHttpServer\<close>, given what \<open>ListenAndServe\<close> returns in each round.
  \<open>http.Handle\<close> panics when the pattern is registered already.
\<close>

record http_server =
  hs_handled :: bool
  hs_errCount :: nat
  hs_lastError :: "string option"

definition http_round :: "string option \<Rightarrow> http_server \<Rightarrow> http_server outcome" where
  "http_round err s =
     (if hs_handled s then Panics (ExplicitPanic ''http: multiple registrations for /metrics'')
      else
        let s = s\<lparr>hs_handled := True\<rparr> in
        case err of
          None \<Rightarrow> Done s
        | Some e \<Rightarrow> bind_outcome (deref (hs_lastError s)) (\<lambda>l.
            if e = l then
              (let s = s\<lparr>hs_errCount := hs_errCount s + 1\<rparr> in
               if hs_errCount s \<ge> 3
               then Panics (ExplicitPanic ''too many errors returned by Prometheus HTTP server'')
               else Done s)
            else Done (s\<lparr>hs_errCount := 0, hs_lastError := Some e\<rparr>)))"

definition runHttpServer :: "string option list \<Rightarrow> http_server outcome" where
  "runHttpServer errs =
     fold_outcome http_round errs \<lparr>hs_handled = False, hs_errCount = 0, hs_lastError = None\<rparr>"

section \<open>The identity of a series\<close>

lemma label_string_eq:
  assumes "gomap_eq m n"
  shows "label_string m = label_string n"
  unfolding label_string_def gomap_eq_sorted_keys [OF assms] gomap_index_def gomap_eq_get [OF assms] ..

definition label_pairs :: "string \<Rightarrow> (string, string) gomap \<Rightarrow> (string \<times> string) list" where
  "label_pairs name keys = map (\<lambda>(k, v). (name @ ''_'' @ ReplaceAll k CHR ''-'' CHR ''_'', v)) keys"

lemma add_labels_pairs: "add_labels name keys labels = fold (\<lambda>(k, v). gomap_set k v) (label_pairs name keys) labels"
  by (simp add: add_labels_def label_pairs_def fold_map comp_def case_prod_beta')

lemma gomap_ok_fold_set: "gomap_ok m \<Longrightarrow> gomap_ok (fold (\<lambda>(k, v). gomap_set k v) ps m)"
  by (induction ps arbitrary: m) (auto simp: split_beta)

text \<open>The keys of an element stay distinct when dashes become underscores.\<close>

definition clean_keys :: "path_elem \<Rightarrow> bool" where
  "clean_keys e \<longleftrightarrow> inj_on (\<lambda>k. ReplaceAll k CHR ''-'' CHR ''_'') (set (map fst (GetKey e)))"

lemma distinct_label_pairs:
  assumes "gomap_ok keys" and "inj_on (\<lambda>k. ReplaceAll k CHR ''-'' CHR ''_'') (set (map fst keys))"
  shows "distinct (map fst (label_pairs name keys))"
proof -
  have "map fst (label_pairs name keys) =
      map (\<lambda>k. name @ ''_'' @ ReplaceAll k CHR ''-'' CHR ''_'') (map fst keys)"
    by (simp add: label_pairs_def split_beta)
  moreover have "inj_on (\<lambda>k. name @ ''_'' @ ReplaceAll k CHR ''-'' CHR ''_'') (set (map fst keys))"
    using assms(2) by (auto simp: inj_on_def)
  ultimately show ?thesis using assms(1) by (simp only: gomap_ok_def distinct_map)
qed

lemma add_labels_eq:
  assumes "gomap_eq m n" and labels: "gomap_eq l l'"
    and "inj_on (\<lambda>k. ReplaceAll k CHR ''-'' CHR ''_'') (set (map fst m))"
  shows "gomap_eq (add_labels name m l) (add_labels name n l')"
proof -
  have ok: "gomap_ok m" "gomap_ok n" "set m = set n" "gomap_ok l" "gomap_ok l'"
    using assms(1,2) by (auto simp: gomap_eq_def)
  have d: "distinct (map fst (label_pairs name m))" "distinct (map fst (label_pairs name n))"
    using ok assms(3) by (auto intro!: distinct_label_pairs)
  have "set (label_pairs name m) = set (label_pairs name n)" by (simp add: label_pairs_def ok)
  then have "map_of (label_pairs name m) = map_of (label_pairs name n)"
    using d by (simp add: map_of_inject_set)
  then have "map_of (add_labels name m l) = map_of (add_labels name n l')"
    by (simp add: add_labels_pairs map_of_fold_update d gomap_eq_get [OF labels])
  moreover have "gomap_ok (add_labels name m l)" "gomap_ok (add_labels name n l')"
    by (simp_all add: add_labels_pairs gomap_ok_fold_set ok)
  ultimately show ?thesis
    by (simp add: gomap_eq_def gomap_ok_def map_of_inject_set)
qed

lemma metric_elems_eq:
  assumes "list_all2 elem_equiv es fs" and "gomap_eq l l'" and "list_all clean_keys es"
  shows "fst (metric_elems es name l) = fst (metric_elems fs name l') \<and>
    gomap_eq (snd (metric_elems es name l)) (snd (metric_elems fs name l'))"
  using assms
proof (induction es fs arbitrary: name l l' rule: list_all2_induct)
  case (Cons e es f fs)
  have "gomap_eq (GetKey e) (GetKey f)" using Cons.hyps(1) by (rule elem_equiv_GetKey)
  then have "gomap_eq (add_labels n (GetKey e) l) (add_labels n (GetKey f) l')" for n
    using Cons.prems by (auto simp: clean_keys_def intro: add_labels_eq)
  moreover have "pe_Name e = pe_Name f" using Cons.hyps(1) by simp
  ultimately show ?case using Cons.IH Cons.prems(2) by (simp add: Let_def)
qed simp

text \<open>
  C32: the series an update belongs to does not depend on the order in which Go ranges over the
  keys of its path: two updates whose paths differ only in that order have the same metric name
  and the same hash, when the keys of an element stay distinct with dashes replaced.
\<close>

theorem series_order_independent:
  assumes "path_equiv p q" and "list_all clean_keys (p_Elem p)"
    and "UpdateToMetricNameAndLabels pre (u\<lparr>u_Path := Some p\<rparr>) = Done (name, labels)"
    and "UpdateToMetricNameAndLabels pre (v\<lparr>u_Path := Some q\<rparr>) = Done (name', labels')"
  shows "name = name' \<and> NewStringMapHash lib name labels = NewStringMapHash lib name' labels'"
proof -
  have "gomap_eq (target_label pre) (target_label pre)"
    by (simp add: gomap_eq_def gomap_ok_def target_label_def)
  from metric_elems_eq [OF _ this assms(2), of "p_Elem q" "[]"] assms(1,3,4)
  have "name = name' \<and> gomap_eq labels labels'"
    by (simp add: UpdateToMetricNameAndLabels_def path_equiv_def)
  then show ?thesis by (auto simp: NewStringMapHash_def dest: label_string_eq)
qed

definition sum_lib :: "nat prom_lib" where
  "sum_lib = \<lparr>pm_New = (\<lambda>k n l r. Done (r, r + 1)), pm_implements = (\<lambda>k j. k = j \<or> k = PromGauge),
     pm_Sum64String = (\<lambda>s. of_nat (length s))\<rparr>"

definition keyed_path :: "(string, string) gomap \<Rightarrow> path" where
  "keyed_path keys = empty_path\<lparr>p_Elem := [\<lparr>pe_Name = ''interface'', pe_Key = Some keys\<rparr>]\<rparr>"

theorem series_order_independent_witness:
  "NewStringMapHash sum_lib ''interface''
     [(''interface_name'', ''eth0''), (''interface_sub_if'', ''1'')] =
   NewStringMapHash sum_lib ''interface''
     [(''interface_sub_if'', ''1''), (''interface_name'', ''eth0'')]"
proof -
  let ?p = "keyed_path [(''name'', ''eth0''), (''sub-if'', ''1'')]"
  let ?q = "keyed_path [(''sub-if'', ''1''), (''name'', ''eth0'')]"
  let ?u = "\<lparr>u_Path = None, u_Val = None, u_Duplicates = 0\<rparr>"
  have "path_equiv ?p ?q" "list_all clean_keys (p_Elem ?p)"
    by (auto simp: path_equiv_def keyed_path_def empty_path_def gomap_eq_def gomap_ok_def
        clean_keys_def GetKey_def ReplaceAll_def)
  from series_order_independent [OF this, of None ?u _ _ ?u _ _ sum_lib] show ?thesis
    by (simp add: UpdateToMetricNameAndLabels_def keyed_path_def target_label_def add_labels_def
        GetKey_def ReplaceAll_def)
qed

text \<open>
  The keys and values of the labels are hashed without separators, so series with different
  labels share a hash, and with it a metric.
\<close>

lemma NewStringMapHash_collides:
  "NewStringMapHash lib name [(''ab'', ''c'')] = NewStringMapHash lib name [(''a'', ''bc'')]"
  by (simp add: NewStringMapHash_def label_string_def gomap_index_def sort_strings_def)

section \<open>What the exporter reports\<close>

text \<open>The events a part of the exporter adds.\<close>

definition adds_events :: "(prom_event \<Rightarrow> bool) \<Rightarrow> 'r prometheus_exporter \<Rightarrow> 'r prometheus_exporter \<Rightarrow> bool" where
  "adds_events P e e' \<longleftrightarrow> (\<exists>new. px_events e' = px_events e @ new \<and> list_all P new)"

lemma adds_events_refl [simp]: "adds_events P e e"
  by (simp add: adds_events_def)

lemma adds_events_trans: "adds_events P a b \<Longrightarrow> adds_events P b c \<Longrightarrow> adds_events P a c"
  unfolding adds_events_def by (metis append_assoc list_all_append)

lemma find_metric_events:
  "find_metric lib p h name labels e = Done (m, e') \<Longrightarrow> px_events e' = px_events e \<and> px_history e' = px_history e"
  by (auto simp: find_metric_def new_metric_def go_simps split: option.splits if_splits prod.splits)

fun nonneg_add :: "prom_event \<Rightarrow> bool" where
  "nonneg_add (AddEvent i d) = float_nonneg d"
| "nonneg_add (SetEvent i v) = False"

definition gauges_are_counters :: "'r prom_lib \<Rightarrow> bool" where
  "gauges_are_counters lib \<longleftrightarrow> pm_implements lib PromCounter PromCounter \<and> pm_implements lib PromGauge PromCounter"

lemma record_value_events:
  assumes "gauges_are_counters lib"
  shows "adds_events nonneg_add e (record_value lib h m v e)"
proof (cases m)
  case (Some km)
  obtain k i where km: "km = (k, i)" by (cases km)
  have "pm_implements lib k PromCounter" using assms by (cases k) (auto simp: gauges_are_counters_def)
  then show ?thesis by (auto simp: Some km record_value_def Calc_def Let_def adds_events_def)
qed (simp add: record_value_def)

lemma export_update_events:
  assumes "gauges_are_counters lib" and "export_update lib pre u e = Done e'"
  shows "adds_events nonneg_add e e'"
proof (cases "snd (GetNumberValues (u_Val u))")
  case False
  with assms(2) show ?thesis by (auto simp: export_update_def split: prod.splits)
next
  case True
  then obtain name labels m e1 where f: "find_metric lib (u_Path u) (NewStringMapHash lib name labels) name labels e = Done (m, e1)"
      "e' = record_value lib (NewStringMapHash lib name labels) m (fst (GetNumberValues (u_Val u))) e1"
    using assms(2) by (auto simp: export_update_def go_simps Let_def split: prod.splits)
  have "adds_events nonneg_add e1 e'" unfolding f(2) by (rule record_value_events [OF assms(1)])
  with find_metric_events [OF f(1)] show ?thesis by (simp add: adds_events_def)
qed

text \<open>
  C38: with the Prometheus client library, whose gauges also have the methods of a counter, an
  export never sets a gauge: all it does to the metrics is to add amounts that are not negative.
  So a gauge never shows the value of its leaf, and no decrease is ever exported.
\<close>

theorem prometheus_only_adds:
  assumes "gauges_are_counters lib" and "prometheus_Export lib leaf e = Done e'"
  shows "\<exists>new. px_events e' = px_events e @ new \<and> (\<forall>ev \<in> set new. nonneg_add ev)"
proof -
  from assms(2) obtain n :: notification where "fold_outcome (export_update lib (n_Prefix n)) (n_Update n) e = Done e'"
    by (auto simp: prometheus_Export_def go_simps)
  then have "adds_events nonneg_add e e'"
    by (rule fold_outcome_invariant [where I = "adds_events nonneg_add e"])
       (auto intro: adds_events_trans dest: export_update_events [OF assms(1)])
  then show ?thesis by (simp add: adds_events_def list_all_iff)
qed

definition gauge_update :: "int64 \<Rightarrow> update" where
  "gauge_update v = \<lparr>u_Path = Some (empty_path\<lparr>p_Elem := [\<lparr>pe_Name = ''fan'', pe_Key = None\<rparr>, \<lparr>pe_Name = ''speed'', pe_Key = None\<rparr>]\<rparr>),
     u_Val = Some (Some (IntVal v)), u_Duplicates = 0\<rparr>"

definition gauge_note :: "int64 list \<Rightarrow> leaf_value" where
  "gauge_note vs = NotificationValue (Some \<lparr>n_Timestamp = 0, n_Prefix = None, n_Alias = [],
     n_Update = map gauge_update vs, n_Delete = [], n_Atomic = False\<rparr>)"

definition new_exporter :: "nat prometheus_exporter" where
  "new_exporter = \<lparr>px_history = [], px_metrics = [], px_types = [], px_registry = 0, px_events = []\<rparr>"

theorem prometheus_only_adds_witness:
  "\<exists>e'. prometheus_Export sum_lib (gauge_note [7]) new_exporter = Done e' \<and>
     map fst (px_metrics e') = [of_nat 9] \<and> px_events e' = []"
proof -
  obtain e' where run: "prometheus_Export sum_lib (gauge_note [7]) new_exporter = Done e'"
      and m: "map fst (px_metrics e') = [of_nat 9]"
    by (simp add: prometheus_Export_def leaf_notification_def gauge_note_def gauge_update_def new_exporter_def
        sum_lib_def export_update_def UpdateToMetricNameAndLabels_def empty_path_def target_label_def
        add_labels_def GetKey_def ReplaceAll_def NewStringMapHash_def label_string_def sort_strings_def
        find_metric_def new_metric_def record_value_def Calc_def)
  have "gauges_are_counters sum_lib" by (simp add: gauges_are_counters_def sum_lib_def)
  from prometheus_only_adds [OF this run] obtain new where "px_events e' = new" "\<forall>ev \<in> set new. nonneg_add ev"
    by (auto simp: new_exporter_def)
  moreover have "px_events e' = []"
    using run by (auto simp: prometheus_Export_def leaf_notification_def gauge_note_def gauge_update_def new_exporter_def
        sum_lib_def export_update_def UpdateToMetricNameAndLabels_def empty_path_def target_label_def
        add_labels_def GetKey_def ReplaceAll_def NewStringMapHash_def label_string_def sort_strings_def
        find_metric_def new_metric_def record_value_def Calc_def)
  ultimately show ?thesis using run m by (intro exI [of _ e']) simp
qed

fun deltas :: "float64 list \<Rightarrow> float64 list" where
  "deltas (a # b # vs) = float_sub b a # deltas (b # vs)"
| "deltas vs = []"

lemma record_values_from:
  assumes "pm_implements lib k PromCounter" and "map_of (px_history e) h = Some a"
  shows "px_events (fold (\<lambda>v. record_value lib h (Some (k, i)) v) vs e) =
    px_events e @ map (AddEvent i) (filter float_nonneg (deltas (a # vs)))"
  using assms(2)
proof (induction vs arbitrary: e a)
  case (Cons v vs)
  let ?e = "record_value lib h (Some (k, i)) v e"
  have "map_of (px_history ?e) h = Some v"
    by (simp add: record_value_def assms(1) Calc_def Let_def gomap_simps)
  note IH = Cons.IH [OF this]
  have "px_events ?e = px_events e @ map (AddEvent i) (filter float_nonneg [float_sub v a])"
    using Cons.prems by (simp add: record_value_def assms(1) Calc_def Let_def gomap_index_def)
  with IH show ?case by simp
qed simp

text \<open>
  C31: a metric accumulates the increases of its series. After any values of one series the
  amounts added to its metric are the differences of consecutive values that are not negative,
  in order; the first value and every decrease add nothing.
\<close>

theorem counter_accumulates_increases:
  assumes "pm_implements lib k PromCounter" and "map_of (px_history e) h = None"
  shows "px_events (fold (\<lambda>v. record_value lib h (Some (k, i)) v) vs e) =
    px_events e @ map (AddEvent i) (filter float_nonneg (deltas vs))"
proof (cases vs)
  case (Cons v ws)
  let ?e = "record_value lib h (Some (k, i)) v e"
  have "map_of (px_history ?e) h = Some v"
    by (simp add: record_value_def assms(1) Calc_def Let_def gomap_simps)
  from record_values_from [OF assms(1) this, of i ws]
  have "px_events (fold (\<lambda>v. record_value lib h (Some (k, i)) v) ws ?e) =
      px_events ?e @ map (AddEvent i) (filter float_nonneg (deltas vs))"
    unfolding Cons .
  moreover have "px_events ?e = px_events e"
    using assms(2) by (simp add: record_value_def assms(1) Calc_def Let_def)
  ultimately show ?thesis unfolding Cons fold.simps comp_def by simp
qed simp

lemma example_deltas: "filter float_nonneg (deltas [F64 5 1, F64 3 2, F64 1 0]) = [F64 1 1]"
  by code_simp

theorem counter_accumulates_increases_witness:
  "px_events (fold (\<lambda>v. record_value sum_lib 5 (Some (PromCounter, 1)) v) [F64 5 1, F64 3 2, F64 1 0] new_exporter) =
   [AddEvent 1 (F64 1 1)]"
proof -
  have "pm_implements sum_lib PromCounter PromCounter" "map_of (px_history new_exporter) 5 = None"
    by (simp_all add: sum_lib_def new_exporter_def)
  from counter_accumulates_increases [OF this, of 1 "[F64 5 1, F64 3 2, F64 1 0]"] show ?thesis
    unfolding example_deltas by (simp only: list.map) (simp add: new_exporter_def)
qed

text \<open>A leaf of the type \<open>gauge32\<close> has the nil metric and is never reported.\<close>

lemma gauge32_not_reported:
  "new_metric lib name labels ''gauge32'' e = Done (None, e)" "record_value lib h None v e = e"
  by (simp_all add: new_metric_def record_value_def)

text \<open>
  The retry loop of the HTTP server never retries: the first error of the server panics on
  the nil \<open>lastError\<close>, and a server that stopped without one is not restarted, since the second
  round registers its handler again.
\<close>

theorem runHttpServer_never_retries:
  "runHttpServer errs =
     (case errs of
        [] \<Rightarrow> Done \<lparr>hs_handled = False, hs_errCount = 0, hs_lastError = None\<rparr>
      | [None] \<Rightarrow> Done \<lparr>hs_handled = True, hs_errCount = 0, hs_lastError = None\<rparr>
      | Some e # _ \<Rightarrow> Panics NilDeref
      | None # _ \<Rightarrow> Panics (ExplicitPanic ''http: multiple registrations for /metrics''))"
  by (auto simp: runHttpServer_def http_round_def Let_def split: list.split option.split)

end
