(* ===== verification/Exporters.thy ===== *)
theory Exporters
  imports Prometheus
begin

text \<open>
  \<open>gateway/exporters\<close>: the registry of the exporters, the InfluxDB, Kafka and debug exporters,
  and the interface the gateway calls. The clients are parameters: an InfluxDB client takes
  points, a Kafka writer messages; what was written is kept in the state of the exporter. The
  serialisation of a notification, the check of a URL and the printing of values are functions of
  \<open>export_lib\<close>.
\<close>

section \<open>InfluxDB\<close>

record export_lib =
  xl_ParseRequestURI :: "string \<Rightarrow> string option"
  xl_Marshal :: "notification option \<Rightarrow> string + string"
  xl_show_val :: "typed_value_ptr \<Rightarrow> string"

record point =
  pt_Measurement :: string
  pt_Tags :: "(string, string) gomap"
  pt_Fields :: "(string, float64) gomap"
  pt_Timestamp :: int64

text \<open>\<open>ix_client\<close> tells whether \<open>Start\<close> has made the client.\<close>

record influxdb_exporter =
  ix_config :: gateway_config
  ix_client :: bool
  ix_written :: "point list"

definition NewInfluxDBExporter :: "gateway_config \<Rightarrow> influxdb_exporter" where
  "NewInfluxDBExporter config = \<lparr>ix_config = config, ix_client = False, ix_written = []\<rparr>"

definition pathToMetricName :: "string \<Rightarrow> string" where
  "pathToMetricName p = ReplaceAll (ReplaceAll p CHR ''/'' CHR ''_'') CHR ''-'' CHR ''_''"

fun extract_keys :: "string \<Rightarrow> (string, string) gomap \<Rightarrow> (string, string) gomap \<Rightarrow> (string, string) gomap" where
  "extract_keys name [] keys = keys"
| "extract_keys name ((k, v) # kvs) keys =
     extract_keys name kvs
       (if map_of keys k \<noteq> None then gomap_set (name @ ''/'' @ k) v keys else gomap_set k v keys)"

fun extract_elems :: "path_elem list \<Rightarrow> string list \<times> (string, string) gomap \<Rightarrow>
    string list \<times> (string, string) gomap" where
  "extract_elems [] r = r"
| "extract_elems (e # es) (elems, keys) =
     extract_elems es (elems @ [pe_Name e], extract_keys (pe_Name e) (GetKey e) keys)"

text \<open>The third result tells whether the function returns an error.\<close>

definition extractPrefixAndPathKeys :: "path option \<Rightarrow> path option \<Rightarrow>
    (string list \<times> (string, string) gomap \<times> bool) outcome" where
  "extractPrefixAndPathKeys pre p =
     bind_outcome (deref pre) (\<lambda>pre. bind_outcome (deref p) (\<lambda>p.
       case extract_elems (p_Elem pre @ p_Elem p) ([], []) of
         (elems, keys) \<Rightarrow> Done (elems, keys, elems = [])))"

definition influx_tags :: "path option \<Rightarrow> string \<Rightarrow> (string, string) gomap \<Rightarrow> (string, string) gomap" where
  "influx_tags p pth keys =
     (let keys = gomap_set ''path'' pth keys;
          keys = (if GetOrigin p \<noteq> [] then gomap_set ''origin'' (GetOrigin p) keys else keys)
      in if GetTarget p \<noteq> [] then gomap_set ''target'' (GetTarget p) keys else keys)"

text \<open>One update; an error of the extraction is only logged.\<close>

definition influx_update :: "path option \<Rightarrow> update \<Rightarrow> point \<Rightarrow> point outcome" where
  "influx_update pre upd pt =
     (let (val, isNumber) = GetNumberValues (u_Val upd) in
      if \<not> isNumber then Done pt
      else
        bind_outcome (extractPrefixAndPathKeys pre (u_Path upd)) (\<lambda>(elems, keys, err).
          if elems = [] then Panics IndexOutOfRange
          else
            let name = last elems; elems = butlast elems;
                pt = (if pt_Measurement pt = [] then
                        let pth = join_with ''/'' elems in
                        pt\<lparr>pt_Measurement := pathToMetricName pth, pt_Tags := influx_tags pre pth keys\<rparr>
                      else pt)
            in Done (pt\<lparr>pt_Fields := gomap_set (pathToMetricName name) val (pt_Fields pt)\<rparr>)))"

definition influx_point :: "notification \<Rightarrow> point outcome" where
  "influx_point n =
     fold_outcome (influx_update (n_Prefix n)) (n_Update n)
       \<lparr>pt_Measurement = [], pt_Tags = [], pt_Fields = [], pt_Timestamp = n_Timestamp n\<rparr>"

definition influxdb_Export :: "leaf_value \<Rightarrow> influxdb_exporter \<Rightarrow> influxdb_exporter outcome" where
  "influxdb_Export leaf e =
     bind_outcome (leaf_notification leaf) (\<lambda>n. bind_outcome (deref n) (\<lambda>notification.
       bind_outcome (influx_point notification) (\<lambda>pt.
         if pt_Measurement pt = [] then Done e
         else if \<not> ix_client e then Panics NilDeref
         else Done (e\<lparr>ix_written := ix_written e @ [pt]\<rparr>))))"

definition influxdb_Start :: "export_lib \<Rightarrow> influxdb_exporter \<Rightarrow>
    (exporter_error option \<times> influxdb_exporter) outcome" where
  "influxdb_Start lib e =
     bind_outcome (deref (gc_Exporters (ix_config e))) (\<lambda>c. Done (
       if xl_ParseRequestURI lib (ec_InfluxDBTarget c) \<noteq> None
       then (Some (InvalidTarget (ec_InfluxDBTarget c)), e)
       else if ec_InfluxDBToken c = [] then (Some NoToken, e)
       else if ec_InfluxDBOrg c = [] then (Some NoOrg, e)
       else if ec_InfluxDBBucket c = [] then (Some NoBucket, e)
       else (None, e\<lparr>ix_client := True\<rparr>)))"

section \<open>Kafka\<close>

record kafka_writer =
  kw_Addr :: "string list"
  kw_Topic :: string
  kw_BatchBytes :: int64
  kw_BatchSize :: int64
  kw_BatchTimeout :: duration
  kw_Async :: bool
  kw_Logging :: bool

record kafka_exporter =
  kx_config :: gateway_config
  kx_writer :: "kafka_writer option"
  kx_written :: "(string \<times> string) list"

definition NewKafkaExporter :: "gateway_config \<Rightarrow> kafka_exporter" where
  "NewKafkaExporter config = \<lparr>kx_config = config, kx_writer = None, kx_written = []\<rparr>"

text \<open>A message has the path of the prefix as its key. A failing write is only logged.\<close>

definition kafka_Export :: "export_lib \<Rightarrow> leaf_value \<Rightarrow> kafka_exporter \<Rightarrow> kafka_exporter outcome" where
  "kafka_Export lib leaf e =
     bind_outcome (leaf_notification leaf) (\<lambda>n.
       case xl_Marshal lib n of
         Inl err \<Rightarrow> Done e
       | Inr data \<Rightarrow>
           bind_outcome (deref n) (\<lambda>notification.
           bind_outcome (PathToXPath (n_Prefix notification)) (\<lambda>key.
           bind_outcome (deref (kx_writer e)) (\<lambda>w.
             Done (e\<lparr>kx_written := kx_written e @ [(key, data)]\<rparr>)))))"

definition kafka_Start :: "kafka_exporter \<Rightarrow> (exporter_error option \<times> kafka_exporter) outcome" where
  "kafka_Start e =
     bind_outcome (deref (gc_Exporters (kx_config e))) (\<lambda>c. Done (
       if ec_KafkaTopic c = [] then (Some NoTopic, e)
       else if int (length (ec_KafkaBrokers c)) < 0 then (Some NoBrokers, e)
       else (None, e\<lparr>kx_writer := Some
         \<lparr>kw_Addr = ec_KafkaBrokers c, kw_Topic = ec_KafkaTopic c, kw_BatchBytes = ec_KafkaBatchBytes c,
          kw_BatchSize = ec_KafkaBatchSize c, kw_BatchTimeout = ec_KafkaBatchTimeout c, kw_Async = True,
          kw_Logging = ec_KafkaLogging c\<rparr>\<rparr>)))"

section \<open>Debug\<close>

record debug_exporter =
  dx_config :: gateway_config
  dx_logged :: "string list"

definition NewDebugExporter :: "gateway_config \<Rightarrow> debug_exporter" where
  "NewDebugExporter config = \<lparr>dx_config = config, dx_logged = []\<rparr>"

definition debug_Export :: "export_lib \<Rightarrow> leaf_value \<Rightarrow> debug_exporter \<Rightarrow> debug_exporter outcome" where
  "debug_Export lib leaf e =
     bind_outcome (leaf_notification leaf) (\<lambda>n.
     bind_outcome (GNMINotificationPrettyString (xl_show_val lib) n) (\<lambda>s.
       Done (e\<lparr>dx_logged := dx_logged e @ [s]\<rparr>)))"

definition debug_Start :: "debug_exporter \<Rightarrow> exporter_error option \<times> debug_exporter" where
  "debug_Start e = (None, e)"

section \<open>The interface and the registry\<close>

datatype 'r exporter =
    PrometheusExporter gateway_config "'r prometheus_exporter"
  | InfluxDBExporter influxdb_exporter
  | KafkaExporter kafka_exporter
  | DebugExporter debug_exporter

fun exporter_Name :: "'r exporter \<Rightarrow> string" where
  "exporter_Name (PrometheusExporter c e) = ''prometheus''"
| "exporter_Name (InfluxDBExporter e) = ''influxdb''"
| "exporter_Name (KafkaExporter e) = ''kafka''"
| "exporter_Name (DebugExporter e) = ''debug''"

definition exporter_Start :: "'m yang_lib \<Rightarrow> export_lib \<Rightarrow> 'r exporter \<Rightarrow>
    (exporter_error option \<times> 'r exporter) outcome" where
  "exporter_Start ylib lib x =
     (case x of
        PrometheusExporter c e \<Rightarrow> (case prometheus_Start ylib c e of (err, e) \<Rightarrow> Done (err, PrometheusExporter c e))
      | InfluxDBExporter e \<Rightarrow> map_done (\<lambda>(err, e). (err, InfluxDBExporter e)) (influxdb_Start lib e)
      | KafkaExporter e \<Rightarrow> map_done (\<lambda>(err, e). (err, KafkaExporter e)) (kafka_Start e)
      | DebugExporter e \<Rightarrow> (case debug_Start e of (err, e) \<Rightarrow> Done (err, DebugExporter e)))"

definition exporter_Export :: "'r prom_lib \<Rightarrow> export_lib \<Rightarrow> leaf_value \<Rightarrow> 'r exporter \<Rightarrow> 'r exporter outcome" where
  "exporter_Export plib lib leaf x =
     (case x of
        PrometheusExporter c e \<Rightarrow> map_done (PrometheusExporter c) (prometheus_Export plib leaf e)
      | InfluxDBExporter e \<Rightarrow> map_done InfluxDBExporter (influxdb_Export leaf e)
      | KafkaExporter e \<Rightarrow> map_done KafkaExporter (kafka_Export lib leaf e)
      | DebugExporter e \<Rightarrow> map_done DebugExporter (debug_Export lib leaf e))"

definition exporters_Register :: "string \<Rightarrow> (gateway_config \<Rightarrow> 'r exporter outcome) \<Rightarrow>
    'r exporter plugin_registry \<Rightarrow> 'r exporter plugin_registry" where
  "exporters_Register name new reg = gomap_set name new reg"

definition exporters_New :: "'r exporter plugin_registry \<Rightarrow> string \<Rightarrow> gateway_config \<Rightarrow>
    'r exporter option outcome" where
  "exporters_New reg name config =
     (case map_of reg name of
        None \<Rightarrow> Done None
      | Some exporter \<Rightarrow> map_done Some (exporter config))"

interpretation exporter_registry: name_registry exporters_Register exporters_New "[]"
  by unfold_locales (auto simp: exporters_Register_def exporters_New_def gomap_simps)

definition exporter_constructors :: "'r \<Rightarrow> (string \<times> (gateway_config \<Rightarrow> 'r exporter outcome)) list" where
  "exporter_constructors r =
     [(''debug'', \<lambda>c. Done (DebugExporter (NewDebugExporter c))),
      (''influxdb'', \<lambda>c. Done (InfluxDBExporter (NewInfluxDBExporter c))),
      (''kafka'', \<lambda>c. Done (KafkaExporter (NewKafkaExporter c))),
      (''prometheus'', \<lambda>c. map_done (PrometheusExporter c) (NewPrometheusExporter r c))]"

definition exporter_registry_init :: "'r \<Rightarrow> 'r exporter plugin_registry" where
  "exporter_registry_init r = fold (\<lambda>(n, f). exporters_Register n f) (exporter_constructors r) []"

section \<open>InfluxDB points\<close>

text \<open>The elements of an update, its numeric value, its field and its measurement.\<close>

definition influx_elems :: "path option \<Rightarrow> update \<Rightarrow> string list" where
  "influx_elems pre u = map pe_Name (GetElem pre @ GetElem (u_Path u))"

definition numeric :: "update \<Rightarrow> bool" where
  "numeric u \<longleftrightarrow> snd (GetNumberValues (u_Val u))"

definition influx_field :: "path option \<Rightarrow> update \<Rightarrow> string \<times> float64" where
  "influx_field pre u = (pathToMetricName (last (influx_elems pre u)), fst (GetNumberValues (u_Val u)))"

definition influx_measurement :: "path option \<Rightarrow> update \<Rightarrow> string" where
  "influx_measurement pre u = pathToMetricName (join_with ''/'' (butlast (influx_elems pre u)))"

fun first_nonempty :: "string list \<Rightarrow> string" where
  "first_nonempty [] = []"
| "first_nonempty (x # xs) = (if x = [] then first_nonempty xs else x)"

definition influx_ok :: "path option \<Rightarrow> update \<Rightarrow> bool" where
  "influx_ok pre u \<longleftrightarrow> \<not> numeric u \<or> pre \<noteq> None \<and> u_Path u \<noteq> None \<and> influx_elems pre u \<noteq> []"

lemma extract_elems_names: "fst (extract_elems es (elems, keys)) = elems @ map pe_Name es"
  by (induction es arbitrary: elems keys) auto

definition influx_keys :: "path option \<Rightarrow> update \<Rightarrow> (string, string) gomap" where
  "influx_keys pre u = snd (extract_elems (GetElem pre @ GetElem (u_Path u)) ([], []))"

lemma influx_update_eq:
  "influx_update pre u pt =
     (if \<not> numeric u then Done pt
      else if pre = None \<or> u_Path u = None then Panics NilDeref
      else if influx_elems pre u = [] then Panics IndexOutOfRange
      else let pt' = (if pt_Measurement pt = [] then
               pt\<lparr>pt_Measurement := influx_measurement pre u,
                  pt_Tags := influx_tags pre (join_with ''/'' (butlast (influx_elems pre u))) (influx_keys pre u)\<rparr>
             else pt)
           in Done (pt'\<lparr>pt_Fields := gomap_set (fst (influx_field pre u)) (snd (influx_field pre u)) (pt_Fields pt)\<rparr>))"
proof (cases "numeric u \<and> pre \<noteq> None \<and> u_Path u \<noteq> None")
  case True
  then obtain p q where pq: "pre = Some p" "u_Path u = Some q" by auto
  let ?x = "extract_elems (p_Elem p @ p_Elem q) ([], [])"
  have names: "fst ?x = influx_elems pre u"
    using extract_elems_names [of "p_Elem p @ p_Elem q" "[]" "[]"] by (simp add: influx_elems_def pq)
  have x: "?x = (influx_elems pre u, influx_keys pre u)"
    using names by (simp add: influx_keys_def pq prod_eq_iff)
  obtain val where v: "GetNumberValues (u_Val u) = (val, True)"
    using True by (cases "GetNumberValues (u_Val u)") (simp add: numeric_def)
  show ?thesis
    using True x
    by (auto simp: influx_update_def extractPrefixAndPathKeys_def pq v Let_def influx_field_def
        influx_measurement_def split: prod.split)
next
  case False
  then show ?thesis
    by (auto simp: influx_update_def numeric_def extractPrefixAndPathKeys_def split: prod.splits)
       (cases pre; simp)+
qed

lemma influx_update_done: "is_done (influx_update pre u pt) \<longleftrightarrow> influx_ok pre u"
  by (simp add: influx_update_eq influx_ok_def Let_def)

lemma fold_influx_done: "is_done (fold_outcome (influx_update pre) us pt) \<longleftrightarrow> list_all (influx_ok pre) us"
proof (induction us arbitrary: pt)
  case (Cons u us)
  have "is_done (fold_outcome (influx_update pre) (u # us) pt) \<longleftrightarrow>
      is_done (influx_update pre u pt) \<and> list_all (influx_ok pre) us"
    by (simp add: go_simps Cons.IH) (simp add: is_done_iff)
  then show ?case by (simp add: influx_update_done)
qed simp

text \<open>
  The InfluxDB exporter builds a point without panicking exactly when each numeric update
  has a path, the notification has a prefix, and the two have at least one element.
\<close>

theorem influx_point_returns_iff:
  "is_done (influx_point n) \<longleftrightarrow> list_all (influx_ok (n_Prefix n)) (n_Update n)"
  by (simp add: influx_point_def fold_influx_done)

lemma fold_influx_point:
  assumes "fold_outcome (influx_update pre) us pt = Done pt'"
  shows "map_of (pt_Fields pt') = map_of (pt_Fields pt) ++ map_of (rev (map (influx_field pre) (filter numeric us))) \<and>
    pt_Measurement pt' = first_nonempty (pt_Measurement pt # map (influx_measurement pre) (filter numeric us)) \<and>
    pt_Timestamp pt' = pt_Timestamp pt"
  using assms
proof (induction us arbitrary: pt)
  case (Cons u us)
  from Cons.prems obtain q where q: "influx_update pre u pt = Done q" "fold_outcome (influx_update pre) us q = Done pt'"
    by (auto simp: go_simps)
  note IH = Cons.IH [OF q(2)]
  show ?case
  proof (cases "numeric u")
    case True
    with q(1) have "map_of (pt_Fields q) = (map_of (pt_Fields pt))(fst (influx_field pre u) \<mapsto> snd (influx_field pre u))"
        "pt_Measurement q = first_nonempty [pt_Measurement pt, influx_measurement pre u]"
        "pt_Timestamp q = pt_Timestamp pt"
      by (auto simp: influx_update_eq Let_def gomap_simps split: if_splits)
    moreover have "(m(a \<mapsto> b)) ++ map_of xs = m ++ map_of (xs @ [(a, b)])"
      for m :: "string \<rightharpoonup> float64" and a b xs
      by (rule ext) (simp add: map_add_def split: option.split)
    ultimately show ?thesis using IH True
      by (simp only: filter.simps if_True list.map rev.simps prod.collapse) (cases "influx_field pre u", simp)
  next
    case False
    with q(1) IH show ?thesis by (simp add: influx_update_eq)
  qed
qed simp

text \<open>
  C33: the point of a notification has one field for each name of a last path element among its
  numeric updates, with the value of the last such update, the measurement of the first numeric
  update that has a parent path, and the notification's timestamp.
\<close>

theorem influx_point_fields:
  assumes "influx_point n = Done pt"
  shows "map_of (pt_Fields pt) = map_of (rev (map (influx_field (n_Prefix n)) (filter numeric (n_Update n)))) \<and>
    pt_Measurement pt = first_nonempty (map (influx_measurement (n_Prefix n)) (filter numeric (n_Update n))) \<and>
    pt_Timestamp pt = n_Timestamp n"
  using fold_influx_point [OF assms [unfolded influx_point_def]] by simp

definition octets :: "string \<Rightarrow> int64 \<Rightarrow> update" where
  "octets name v = \<lparr>u_Path = Some (empty_path\<lparr>p_Elem :=
       [\<lparr>pe_Name = ''interface'', pe_Key = Some [(''name'', name)]\<rparr>, \<lparr>pe_Name = ''in-octets'', pe_Key = None\<rparr>]\<rparr>),
     u_Val = Some (Some (IntVal v)), u_Duplicates = 0\<rparr>"

definition octets_note :: notification where
  "octets_note = \<lparr>n_Timestamp = 5, n_Prefix = Some (empty_path\<lparr>p_Target := ''r1''\<rparr>), n_Alias = [],
     n_Update = [octets ''eth0'' 1, octets ''eth1'' 2], n_Delete = [], n_Atomic = False\<rparr>"

lemma octets_point:
  "influx_point octets_note = Done
     \<lparr>pt_Measurement = ''interface'',
      pt_Tags = [(''name'', ''eth0''), (''path'', ''interface''), (''target'', ''r1'')],
      pt_Fields = [(''in_octets'', float_of_int64 2)], pt_Timestamp = 5\<rparr>"
  by (simp add: influx_point_def octets_note_def octets_def influx_update_def extractPrefixAndPathKeys_def
      empty_path_def GetKey_def pathToMetricName_def ReplaceAll_def influx_tags_def Let_def)

theorem influx_point_fields_witness:
  "\<exists>pt. influx_point octets_note = Done pt \<and> map_of (pt_Fields pt) ''in_octets'' = Some (float_of_int64 2) \<and>
     pt_Measurement pt = ''interface''"
proof -
  from octets_point obtain pt where pt: "influx_point octets_note = Done pt" by blast
  have fields: "map (influx_field (n_Prefix octets_note)) (filter numeric (n_Update octets_note)) =
      [(''in_octets'', float_of_int64 1), (''in_octets'', float_of_int64 2)]"
    "map (influx_measurement (n_Prefix octets_note)) (filter numeric (n_Update octets_note)) =
      [''interface'', ''interface'']"
    by (simp_all add: octets_note_def octets_def numeric_def influx_field_def influx_measurement_def
        influx_elems_def empty_path_def pathToMetricName_def ReplaceAll_def)
  from influx_point_fields [OF pt] pt show ?thesis unfolding fields by simp
qed

text \<open>
  Two numeric updates of one notification with the same last element become one field, with
  the value of the second and the tags of the first: the values of different list entries are
  mixed up.
\<close>

theorem influx_merges_entries:
  assumes "n_Update n = [u, v]" and "numeric u" and "numeric v"
    and "influx_ok (n_Prefix n) u" and "influx_ok (n_Prefix n) v"
    and "fst (influx_field (n_Prefix n) u) = fst (influx_field (n_Prefix n) v)"
    and "influx_measurement (n_Prefix n) u \<noteq> []"
  shows "influx_point n = Done
    \<lparr>pt_Measurement = influx_measurement (n_Prefix n) u,
     pt_Tags = influx_tags (n_Prefix n) (join_with ''/'' (butlast (influx_elems (n_Prefix n) u))) (influx_keys (n_Prefix n) u),
     pt_Fields = [influx_field (n_Prefix n) v], pt_Timestamp = n_Timestamp n\<rparr>"
  using assms by (simp add: influx_point_def influx_update_eq influx_ok_def Let_def)

theorem influx_merges_entries_witness:
  "\<exists>pt. influx_point octets_note = Done pt \<and> map_of (pt_Tags pt) ''name'' = Some ''eth0'' \<and>
     pt_Fields pt = [(''in_octets'', float_of_int64 2)]"
proof -
  let ?p = "n_Prefix octets_note"
  have "n_Update octets_note = [octets ''eth0'' 1, octets ''eth1'' 2]" by (simp add: octets_note_def)
  moreover have "numeric (octets a i)" "influx_ok ?p (octets a i)" for a i
    by (simp_all add: numeric_def octets_def influx_ok_def influx_elems_def octets_note_def empty_path_def)
  moreover have "fst (influx_field ?p (octets ''eth0'' 1)) = fst (influx_field ?p (octets ''eth1'' 2))"
    "influx_measurement ?p (octets ''eth0'' 1) \<noteq> []"
    by (simp_all add: influx_field_def influx_measurement_def influx_elems_def octets_def octets_note_def
        empty_path_def pathToMetricName_def ReplaceAll_def)
  ultimately have "influx_point octets_note = Done
    \<lparr>pt_Measurement = influx_measurement ?p (octets ''eth0'' 1),
     pt_Tags = influx_tags ?p (join_with ''/'' (butlast (influx_elems ?p (octets ''eth0'' 1)))) (influx_keys ?p (octets ''eth0'' 1)),
     pt_Fields = [influx_field ?p (octets ''eth1'' 2)], pt_Timestamp = n_Timestamp octets_note\<rparr>"
    by (intro influx_merges_entries)
  then show ?thesis
    by (simp add: octets_note_def influx_keys_def octets_def influx_field_def influx_elems_def empty_path_def GetKey_def influx_tags_def
        pathToMetricName_def ReplaceAll_def)
qed

text \<open>A notification whose numeric updates have paths of one element writes nothing.\<close>

lemma influx_drops_short_paths:
  assumes "influx_point n = Done pt" and "pt_Measurement pt = []"
  shows "influxdb_Export (NotificationValue (Some n)) e = Done e"
  using assms by (simp add: influxdb_Export_def leaf_notification_def)

section \<open>Starting the exporters\<close>

text \<open>
  The Kafka exporter starts whenever the topic is set: the test of the brokers is never true.
\<close>

lemma kafka_Start_error_iff:
  assumes "gc_Exporters (kx_config e) = Some c"
  shows "kafka_Start e = Done (if ec_KafkaTopic c = [] then (Some NoTopic, e)
     else (None, e\<lparr>kx_writer := Some
         \<lparr>kw_Addr = ec_KafkaBrokers c, kw_Topic = ec_KafkaTopic c, kw_BatchBytes = ec_KafkaBatchBytes c,
          kw_BatchSize = ec_KafkaBatchSize c, kw_BatchTimeout = ec_KafkaBatchTimeout c, kw_Async = True,
          kw_Logging = ec_KafkaLogging c\<rparr>\<rparr>))"
  using assms by (simp add: kafka_Start_def)

text \<open>
  An exporter that could not start has no client or writer.
\<close>

lemma failed_start_has_no_client:
  assumes "exporter_Start ylib lib x = Done (Some err, x')"
  shows "x = InfluxDBExporter e \<Longrightarrow> \<not> ix_client e \<Longrightarrow> x' = InfluxDBExporter e"
    and "x = KafkaExporter k \<Longrightarrow> kx_writer k = None \<Longrightarrow> x' = KafkaExporter k"
  using assms
  by (auto simp: exporter_Start_def influxdb_Start_def kafka_Start_def go_simps
      split: if_splits elim!: map_done.elims)

end
