(* ===== verification/Gateway.thy ===== *)
theory Gateway
  imports Loaders Exporters "HOL-Library.Multiset"
begin

text \<open>
  \<open>gateway/gateway.go\<close>: the clients of the cache with their transition buffers, the start of
  the gateway, the events of Zookeeper and the local address. The delivery of updates is a step
  relation, since the callback of the cache runs in the goroutines of the targets, blocks when a
  buffer is full, and runs beside the goroutines that empty the buffers.
\<close>

section \<open>Clients of the cache\<close>

text \<open>\<open>tb_sent\<close> are the leaves that \<open>run\<close> has passed to the \<open>send\<close> function, in order.\<close>

record cache_client =
  tb_name :: string
  tb_buffer :: "leaf_value list"
  tb_size :: nat
  tb_External :: bool
  tb_sent :: "leaf_value list"

definition NewCacheClient :: "string \<Rightarrow> bool \<Rightarrow> uint64 \<Rightarrow> cache_client" where
  "NewCacheClient name external bufsize =
     \<lparr>tb_name = name, tb_buffer = [], tb_size = unat bufsize, tb_External = external, tb_sent = []\<rparr>"

definition NewGateway :: "cache_client list" where
  "NewGateway = []"

definition AddClient :: "gateway_config \<Rightarrow> string \<Rightarrow> bool \<Rightarrow> cache_client list \<Rightarrow> cache_client list" where
  "AddClient config name external clients =
     clients @ [NewCacheClient name external (gc_GatewayTransitionBufferSize config)]"

text \<open>
  \<open>Send\<close> blocks while the buffer is full: no result. A channel without a buffer hands the leaf
  over when the receiver is ready, which is modelled as a buffer of one.
\<close>

definition Send :: "leaf_value \<Rightarrow> cache_client \<Rightarrow> cache_client option" where
  "Send leaf c =
     (if length (tb_buffer c) < max 1 (tb_size c)
      then Some (c\<lparr>tb_buffer := tb_buffer c @ [leaf]\<rparr>) else None)"

text \<open>One round of \<open>run\<close>.\<close>

definition run_client :: "cache_client \<Rightarrow> cache_client option" where
  "run_client c =
     (case tb_buffer c of
        [] \<Rightarrow> None
      | l # ls \<Rightarrow> Some (c\<lparr>tb_buffer := ls, tb_sent := tb_sent c @ [l]\<rparr>))"

text \<open>
  Whether a client gets a leaf; the type assertion and the getters on a nil notification are
  those of the code.
\<close>

definition leaf_target :: "leaf_value \<Rightarrow> string outcome" where
  "leaf_target leaf =
     map_done (\<lambda>n. case n of None \<Rightarrow> [] | Some m \<Rightarrow> GetTarget (n_Prefix m)) (leaf_notification leaf)"

definition client_wants :: "(string \<Rightarrow> bool) \<Rightarrow> leaf_value \<Rightarrow> cache_client \<Rightarrow> bool outcome" where
  "client_wants forwardable leaf c =
     (if tb_External c then map_done forwardable (leaf_target leaf) else Done True)"

text \<open>
  A call of \<open>sendUpdateToClients\<close> in progress: the leaf, the index of the next client, and the
  number of clients when the call began, since \<open>range\<close> evaluates the slice once. \<open>AddClient\<close> may
  append to the slice in between; the unsynchronised reading of the slice itself is not modelled.
\<close>

record delivery =
  dl_clients :: "cache_client list"
  dl_calls :: "(leaf_value \<times> nat \<times> nat) list"
  dl_done :: "(leaf_value \<times> nat) list"

inductive delivery_step :: "gateway_config \<Rightarrow> (string \<Rightarrow> bool) \<Rightarrow> delivery \<Rightarrow> delivery \<Rightarrow> bool" for config forwardable where
  call: "delivery_step config forwardable s (s\<lparr>dl_calls := dl_calls s @ [(leaf, 0, length (dl_clients s))]\<rparr>)"
| skip: "j < length (dl_calls s) \<Longrightarrow> dl_calls s ! j = (leaf, k, n) \<Longrightarrow> k < n \<Longrightarrow>
    client_wants forwardable leaf (dl_clients s ! k) = Done False \<Longrightarrow>
    delivery_step config forwardable s (s\<lparr>dl_calls := (dl_calls s)[j := (leaf, Suc k, n)]\<rparr>)"
| pass: "j < length (dl_calls s) \<Longrightarrow> dl_calls s ! j = (leaf, k, n) \<Longrightarrow> k < n \<Longrightarrow>
    client_wants forwardable leaf (dl_clients s ! k) = Done True \<Longrightarrow>
    Send leaf (dl_clients s ! k) = Some c \<Longrightarrow>
    delivery_step config forwardable s (s\<lparr>dl_calls := (dl_calls s)[j := (leaf, Suc k, n)],
      dl_clients := (dl_clients s)[k := c]\<rparr>)"
| return: "j < length (dl_calls s) \<Longrightarrow> dl_calls s ! j = (leaf, n, n) \<Longrightarrow>
    delivery_step config forwardable s
      (s\<lparr>dl_calls := take j (dl_calls s) @ drop (Suc j) (dl_calls s), dl_done := dl_done s @ [(leaf, n)]\<rparr>)"
| run: "k < length (dl_clients s) \<Longrightarrow> run_client (dl_clients s ! k) = Some c \<Longrightarrow>
    delivery_step config forwardable s (s\<lparr>dl_clients := (dl_clients s)[k := c]\<rparr>)"
| add: "delivery_step config forwardable s (s\<lparr>dl_clients := AddClient config name external (dl_clients s)\<rparr>)"

text \<open>The connection manager may change its mind between two steps: \<open>F\<close> are its possible answers.\<close>

inductive delivery_reachable :: "gateway_config \<Rightarrow> (string \<Rightarrow> bool) set \<Rightarrow> delivery \<Rightarrow> delivery \<Rightarrow> bool"
  for config F s0 where
  start: "delivery_reachable config F s0 s0"
| step: "delivery_reachable config F s0 s \<Longrightarrow> f \<in> F \<Longrightarrow> delivery_step config f s t \<Longrightarrow>
    delivery_reachable config F s0 t"

definition delivery_init :: delivery where
  "delivery_init = \<lparr>dl_clients = NewGateway, dl_calls = [], dl_done = []\<rparr>"

section \<open>No update is lost\<close>

text \<open>The leaves that the calls have taken past the client \<open>k\<close>.\<close>

definition passed :: "delivery \<Rightarrow> nat \<Rightarrow> leaf_value multiset" where
  "passed s k = mset (map fst (filter (\<lambda>(l, n). k < n) (dl_done s))) +
     mset (map fst (filter (\<lambda>(l, i, n). k < i) (dl_calls s)))"

definition received :: "cache_client \<Rightarrow> leaf_value multiset" where
  "received c = mset (tb_sent c @ tb_buffer c)"

text \<open>What every answer, and what some answer, of the manager lets through to a client.\<close>

definition always_wants :: "(string \<Rightarrow> bool) set \<Rightarrow> cache_client \<Rightarrow> leaf_value \<Rightarrow> bool" where
  "always_wants F c leaf \<longleftrightarrow> (\<forall>f \<in> F. client_wants f leaf c = Done True)"

definition sometimes_wants :: "(string \<Rightarrow> bool) set \<Rightarrow> cache_client \<Rightarrow> leaf_value \<Rightarrow> bool" where
  "sometimes_wants F c leaf \<longleftrightarrow> (\<exists>f \<in> F. client_wants f leaf c = Done True)"

definition same_client :: "cache_client \<Rightarrow> cache_client \<Rightarrow> bool" where
  "same_client c d \<longleftrightarrow> tb_External c = tb_External d \<and> tb_size c = tb_size d \<and> tb_name c = tb_name d"

definition client_inv :: "(string \<Rightarrow> bool) set \<Rightarrow> delivery \<Rightarrow> nat \<Rightarrow> bool" where
  "client_inv F s k \<longleftrightarrow>
     (let c = dl_clients s ! k in
      filter_mset (always_wants F c) (passed s k) \<subseteq># received c \<and>
      received c \<subseteq># filter_mset (sometimes_wants F c) (passed s k) \<and>
      length (tb_buffer c) \<le> max 1 (tb_size c))"

definition delivery_inv :: "(string \<Rightarrow> bool) set \<Rightarrow> delivery \<Rightarrow> bool" where
  "delivery_inv F s \<longleftrightarrow> (\<forall>k < length (dl_clients s). client_inv F s k) \<and>
     (\<forall>(l, i, n) \<in> set (dl_calls s). i \<le> n \<and> n \<le> length (dl_clients s)) \<and>
     (\<forall>(l, n) \<in> set (dl_done s). n \<le> length (dl_clients s))"

lemma client_wants_same: "same_client c d \<Longrightarrow> client_wants f leaf c = client_wants f leaf d"
  by (simp add: client_wants_def same_client_def)

lemma wants_same:
  assumes "same_client c d"
  shows "always_wants F c = always_wants F d" "sometimes_wants F c = sometimes_wants F d"
  using client_wants_same [OF assms] by (auto simp: always_wants_def sometimes_wants_def fun_eq_iff)

lemma Send_client:
  assumes "Send leaf c = Some d"
  shows "same_client d c" "received d = received c + {#leaf#}" "length (tb_buffer d) \<le> max 1 (tb_size d)"
  using assms by (auto simp: Send_def same_client_def received_def split: if_splits)

lemma run_client_client:
  assumes "run_client c = Some d"
  shows "same_client d c" "received d = received c" "length (tb_buffer d) \<le> length (tb_buffer c)"
  using assms by (auto simp: run_client_def same_client_def received_def split: list.splits)

text \<open>A call that moves past the client \<open>k\<close>.\<close>

lemma filter_calls_update:
  assumes "j < length xs" and "xs ! j = (leaf, k, n)"
  shows "mset (map fst (filter (\<lambda>(l, i, n). m < i) (xs[j := (leaf, Suc k, n)]))) =
    mset (map fst (filter (\<lambda>(l, i, n). m < i) xs)) + (if m = k then {#leaf#} else {#})"
proof -
  obtain ys zs where xs: "xs = ys @ (leaf, k, n) # zs" "length ys = j"
    using id_take_nth_drop [OF assms(1)] assms by (metis length_take min.absorb4)
  then show ?thesis by (auto simp: list_update_append)
qed

lemma passed_return:
  assumes "j < length (dl_calls s)" and "dl_calls s ! j = (leaf, n, n)"
  shows "passed (s\<lparr>dl_calls := take j (dl_calls s) @ drop (Suc j) (dl_calls s), dl_done := dl_done s @ [(leaf, n)]\<rparr>) m =
    passed s m"
proof -
  have "mset (map fst (filter (\<lambda>(l, i, n). m < i) (dl_calls s))) =
      mset (map fst (filter (\<lambda>(l, i, n). m < i) (take j (dl_calls s) @ (leaf, n, n) # drop (Suc j) (dl_calls s))))"
    using id_take_nth_drop [OF assms(1)] assms(2) by simp
  then show ?thesis by (simp add: passed_def)
qed

lemma passed_none:
  assumes "delivery_inv F s" and "length (dl_clients s) \<le> m"
  shows "passed s m = {#}"
proof -
  have "\<not> m < n" if "(l, n) \<in> set (dl_done s)" for l n
    using assms that by (auto simp: delivery_inv_def)
  moreover have "\<not> m < i" if "(l, i, n) \<in> set (dl_calls s)" for l i n
    using assms that by (auto simp: delivery_inv_def)
  ultimately show ?thesis by (auto simp: passed_def filter_empty_conv)
qed

lemma client_inv_same:
  assumes "client_inv F s k" and "k < length (dl_clients s)" "dl_clients t ! k = dl_clients s ! k" "passed t k = passed s k"
  shows "client_inv F t k"
  using assms by (simp add: client_inv_def Let_def)

lemma client_inv_skip:
  assumes "client_inv F s k" and "dl_clients t ! k = dl_clients s ! k" and "passed t k = passed s k + {#leaf#}"
    and "f \<in> F" and "client_wants f leaf (dl_clients s ! k) = Done False"
  shows "client_inv F t k"
proof -
  have "\<not> always_wants F (dl_clients s ! k) leaf" using assms(4,5) by (auto simp: always_wants_def intro!: bexI [of _ f])
  with assms(1-3) show ?thesis
    by (auto simp: client_inv_def Let_def intro: subset_mset.order_trans)
qed

lemma client_inv_pass:
  assumes "client_inv F s k" and "dl_clients t ! k = d" and "passed t k = passed s k + {#leaf#}"
    and "Send leaf (dl_clients s ! k) = Some d" and "f \<in> F" and "client_wants f leaf (dl_clients s ! k) = Done True"
  shows "client_inv F t k"
proof -
  have some: "sometimes_wants F (dl_clients s ! k) leaf" using assms(5,6) by (auto simp: sometimes_wants_def)
  note d = Send_client [OF assms(4)]
  note w = wants_same [OF d(1), of F]
  have "filter_mset (always_wants F (dl_clients s ! k)) (passed s k + {#leaf#}) \<subseteq># received (dl_clients s ! k) + {#leaf#}"
    using assms(1)
    by (cases "always_wants F (dl_clients s ! k) leaf")
       (auto simp: client_inv_def Let_def intro: subset_mset.order_trans)
  with assms(1) some d(2,3) show ?thesis
    by (cases "always_wants F (dl_clients s ! k) leaf") (simp_all add: client_inv_def Let_def assms(2,3) w)
qed

lemma client_inv_run:
  assumes "client_inv F s k" and "dl_clients t ! k = d" and "passed t k = passed s k"
    and "run_client (dl_clients s ! k) = Some d"
  shows "client_inv F t k"
  using assms(1) wants_same [OF run_client_client(1) [OF assms(4)], of F] run_client_client(2,3) [OF assms(4)]
    run_client_client(1) [OF assms(4)]
  by (auto simp: client_inv_def Let_def assms(2,3) same_client_def)

text \<open>The calls that are in progress stay within the clients they began with.\<close>

lemma calls_update_inv:
  assumes "\<forall>(l, i, n) \<in> set xs. i \<le> n \<and> n \<le> c" and "xs ! j = (leaf, k, n)" and "j < length xs" and "k < n"
  shows "\<forall>(l, i, n) \<in> set (xs[j := (leaf, Suc k, n)]). i \<le> n \<and> n \<le> c"
proof -
  have "(leaf, k, n) \<in> set xs" using assms(2,3) by (metis nth_mem)
  with assms(1,4) show ?thesis using set_update_subset_insert [of xs j "(leaf, Suc k, n)"] by fastforce
qed

lemma delivery_inv_client: "delivery_inv F s \<Longrightarrow> k < length (dl_clients s) \<Longrightarrow> client_inv F s k"
  by (simp add: delivery_inv_def)

lemma delivery_inv_bound:
  "delivery_inv F s \<Longrightarrow> j < length (dl_calls s) \<Longrightarrow> dl_calls s ! j = (leaf, k, n) \<Longrightarrow>
   k \<le> n \<and> n \<le> length (dl_clients s)"
  using nth_mem [of j "dl_calls s"] by (auto simp: delivery_inv_def)

text \<open>A call that moves on to its next client changes what has passed that client only.\<close>

lemma passed_advance:
  assumes "j < length (dl_calls s)" and "dl_calls s ! j = (leaf, k, n)"
    and "dl_calls t = (dl_calls s)[j := (leaf, Suc k, n)]" and "dl_done t = dl_done s"
  shows "passed t m = passed s m + (if m = k then {#leaf#} else {#})"
  using filter_calls_update [OF assms(1,2), of m] by (simp add: passed_def assms(3,4))

lemma delivery_inv_advance:
  assumes inv: "delivery_inv F s" and j: "j < length (dl_calls s)" "dl_calls s ! j = (leaf, k, n)" and "k < n"
    and t: "dl_calls t = (dl_calls s)[j := (leaf, Suc k, n)]" "dl_done t = dl_done s"
      "length (dl_clients t) = length (dl_clients s)" "\<And>m. m \<noteq> k \<Longrightarrow> dl_clients t ! m = dl_clients s ! m"
    and k: "client_inv F s k \<Longrightarrow> passed t k = passed s k + {#leaf#} \<Longrightarrow> client_inv F t k"
  shows "delivery_inv F t"
proof -
  note passed = passed_advance [OF j t(1,2)]
  have "client_inv F t m" if "m < length (dl_clients t)" for m
    using inv that k t(3,4) passed [of m]
    by (cases "m = k") (auto simp: delivery_inv_def intro: client_inv_same [of F s])
  with calls_update_inv [OF _ j(2,1) assms(4)] inv t show ?thesis by (simp add: delivery_inv_def)
qed

lemma delivery_inv_return:
  assumes inv: "delivery_inv F s" and j: "j < length (dl_calls s)" "dl_calls s ! j = (leaf, n, n)"
    and t: "t = s\<lparr>dl_calls := take j (dl_calls s) @ drop (Suc j) (dl_calls s), dl_done := dl_done s @ [(leaf, n)]\<rparr>"
  shows "delivery_inv F t"
proof -
  have "client_inv F t m" if m: "m < length (dl_clients t)" for m
    by (rule client_inv_same [OF delivery_inv_client [OF inv]]) (use m t passed_return [OF j] in simp_all)
  moreover have "n \<le> length (dl_clients s)" using delivery_inv_bound [OF inv j] by simp
  moreover have "\<forall>(l, i, n) \<in> set (dl_calls s). i \<le> n \<and> n \<le> length (dl_clients s)"
    "\<forall>(l, n) \<in> set (dl_done s). n \<le> length (dl_clients s)" using inv by (simp_all add: delivery_inv_def)
  ultimately show ?thesis
    by (fastforce simp: delivery_inv_def t dest: in_set_takeD in_set_dropD)
qed

text \<open>A new client has not been passed by any call.\<close>

lemma delivery_inv_add:
  assumes inv: "delivery_inv F s" and t: "t = s\<lparr>dl_clients := AddClient config name external (dl_clients s)\<rparr>"
  shows "delivery_inv F t"
proof -
  have len: "length (dl_clients t) = Suc (length (dl_clients s))" by (simp add: t AddClient_def)
  have "client_inv F t m" if m: "m < length (dl_clients t)" for m
  proof (cases "m < length (dl_clients s)")
    case True
    then show ?thesis
      by (intro client_inv_same [OF delivery_inv_client [OF inv]])
         (simp_all add: t AddClient_def nth_append passed_def)
  next
    case False
    then have "passed t m = {#}" using passed_none [OF inv, of m] by (simp add: t passed_def)
    with False m len show ?thesis
      by (simp add: client_inv_def t AddClient_def nth_append NewCacheClient_def received_def)
  qed
  with inv len show ?thesis by (fastforce simp: delivery_inv_def t)
qed

lemma delivery_inv_step:
  assumes inv: "delivery_inv F s" and f: "f \<in> F" and "delivery_step config f s t"
  shows "delivery_inv F t"
  using assms(3)
proof (cases rule: delivery_step.cases)
  case (call leaf)
  have "client_inv F t k" if "k < length (dl_clients t)" for k
    by (rule client_inv_same [OF delivery_inv_client [OF inv]]) (use that call in \<open>simp_all add: passed_def\<close>)
  with inv call show ?thesis by (auto simp: delivery_inv_def)
next
  case (skip j leaf k n)
  show ?thesis
    by (rule delivery_inv_advance [OF inv skip(2-4)]) (use skip f in \<open>auto intro: client_inv_skip\<close>)
next
  case (pass j leaf k n cl)
  show ?thesis
    by (rule delivery_inv_advance [OF inv pass(2-4)])
       (use pass f delivery_inv_bound [OF inv pass(2,3)] in \<open>auto intro: client_inv_pass\<close>)
next
  case (return j leaf n)
  from delivery_inv_return [OF inv return(2,3,1)] show ?thesis .
next
  case (run k cl)
  have "client_inv F t m" if m: "m < length (dl_clients t)" for m
    using inv run m client_inv_run [of F s k t cl] client_inv_same [of F s m t]
    by (cases "m = k") (simp_all add: delivery_inv_def passed_def)
  with inv run show ?thesis by (simp add: delivery_inv_def)
next
  case (add name external)
  from delivery_inv_add [OF inv add] show ?thesis .
qed

lemma delivery_inv_reachable:
  assumes "delivery_reachable config F delivery_init s"
  shows "delivery_inv F s"
  using assms
proof (induction rule: delivery_reachable.induct)
  case start
  then show ?case by (simp add: delivery_inv_def delivery_init_def NewGateway_def)
next
  case (step s f t)
  from delivery_inv_step [OF step.IH step.hyps(2,3)] show ?case .
qed

text \<open>
  C10: the transition buffers neither lose nor invent updates. However the calls of the cache, the
  goroutines of the clients and the registration of new clients interleave, and whatever the
  connection manager answers, a client has received (sent on or buffered) every update that the
  calls have taken past it and that it always wants, and nothing but updates it wanted at some
  time, each at most as often as it was passed; and its buffer never exceeds its size.
\<close>

theorem transition_buffers_lossless:
  assumes "delivery_reachable config F delivery_init s" and "k < length (dl_clients s)"
  shows "filter_mset (always_wants F (dl_clients s ! k)) (passed s k) \<subseteq># received (dl_clients s ! k) \<and>
    received (dl_clients s ! k) \<subseteq># filter_mset (sometimes_wants F (dl_clients s ! k)) (passed s k) \<and>
    length (tb_buffer (dl_clients s ! k)) \<le> max 1 (tb_size (dl_clients s ! k))"
  using delivery_inv_reachable [OF assms(1)] assms(2) by (simp add: delivery_inv_def client_inv_def Let_def)

text \<open>An internal client wants every update, so it receives exactly what is passed to it.\<close>

lemma internal_client_receives_all:
  assumes "delivery_reachable config F delivery_init s" and "k < length (dl_clients s)"
    and "\<not> tb_External (dl_clients s ! k)" and "F \<noteq> {}"
  shows "received (dl_clients s ! k) = passed s k"
proof -
  have "always_wants F (dl_clients s ! k) = (\<lambda>_. True)" "sometimes_wants F (dl_clients s ! k) = (\<lambda>_. True)"
    using assms(3,4) by (auto simp: always_wants_def sometimes_wants_def client_wants_def fun_eq_iff)
  with delivery_inv_reachable [OF assms(1)] assms(2) show ?thesis
    by (auto simp: delivery_inv_def client_inv_def Let_def intro: subset_mset.antisym)
qed

text \<open>
  A client that is registered during a call gets nothing of that call; one that was there before
  has been offered every update of the calls that have returned.
\<close>

lemma passed_returned:
  "(leaf, n) \<in> set (dl_done s) \<Longrightarrow> k < n \<Longrightarrow> leaf \<in># passed s k"
  by (force simp: passed_def)

theorem transition_buffers_lossless_witness:
  "\<exists>s. delivery_reachable NewDefaultGatewayConfig {\<lambda>t. False} delivery_init s \<and>
     dl_calls s = [(OtherValue ''x'', 1, 1)] \<and> {#OtherValue ''x''#} \<subseteq># received (dl_clients s ! 0)"
proof -
  let ?leaf = "OtherValue ''x''" and ?config = NewDefaultGatewayConfig
  let ?s1 = "delivery_init\<lparr>dl_clients := AddClient ?config ''gnmi_server'' False (dl_clients delivery_init)\<rparr>"
  let ?s2 = "?s1\<lparr>dl_calls := dl_calls ?s1 @ [(?leaf, 0, length (dl_clients ?s1))]\<rparr>"
  let ?c = "(dl_clients ?s1 ! 0)\<lparr>tb_buffer := [?leaf]\<rparr>"
  let ?s3 = "?s2\<lparr>dl_calls := (dl_calls ?s2)[0 := (?leaf, Suc 0, 1)], dl_clients := (dl_clients ?s2)[0 := ?c]\<rparr>"
  have s1: "delivery_step ?config (\<lambda>t. False) delivery_init ?s1" by (rule delivery_step.add)
  have s2: "delivery_step ?config (\<lambda>t. False) ?s1 ?s2" by (rule delivery_step.call)
  have s3: "delivery_step ?config (\<lambda>t. False) ?s2 ?s3"
    by (rule delivery_step.pass)
       (simp_all add: delivery_init_def AddClient_def NewGateway_def client_wants_def NewCacheClient_def Send_def)
  have reach: "delivery_reachable ?config {\<lambda>t. False} delivery_init ?s3"
    by (rule delivery_reachable.step [OF delivery_reachable.step
          [OF delivery_reachable.step [OF delivery_reachable.start _ s1] _ s2] _ s3]) simp_all
  have "0 < length (dl_clients ?s3)" by (simp add: delivery_init_def AddClient_def NewGateway_def)
  from conjunct1 [OF transition_buffers_lossless [OF reach this]]
  have "{#?leaf#} \<subseteq># received (dl_clients ?s3 ! 0)"
    by (simp add: passed_def delivery_init_def AddClient_def NewGateway_def always_wants_def client_wants_def
        NewCacheClient_def)
  with reach show ?thesis
    by (intro exI [of _ ?s3]) (simp add: delivery_init_def AddClient_def NewGateway_def)
qed

end
