(* ===== verification/Stats.thy ===== *)
theory Stats
  imports Configuration GoFloat
begin

text \<open>
  \<open>gateway/stats/spectator.go\<close>: the start of the Spectator registry. The meters of the old
  registry and what \<open>Registry.Start\<close> answers are parameters; what is done to the meters of the
  new registry is a list of operations.
\<close>

datatype meter = CounterMeter string "float64 list" | GaugeMeter string "float64 list" | OtherMeter string

datatype meter_op = AddFloat string float64 | SetGauge string float64

text \<open>The loop of \<open>StartSpectator\<close> that carries the meters over to the new registry.\<close>

fun carry_over :: "meter list \<Rightarrow> meter_op list" where
  "carry_over [] = []"
| "carry_over (CounterMeter i ms # meters) = map (AddFloat i) ms @ carry_over meters"
| "carry_over (GaugeMeter i ms # meters) = map (SetGauge i) ms @ carry_over meters"
| "carry_over (OtherMeter i # meters) = carry_over meters"

definition DefaultSpectatorConfig :: "string \<Rightarrow> spectator_config" where
  "DefaultSpectatorConfig uri =
     \<lparr>sp_Frequency = 5 * time_Second, sp_Timeout = time_Second, sp_Uri = uri, sp_BatchSize = 10000,
      sp_CommonTags = []\<rparr>"

text \<open>The error, the configuration, and the operations on the new registry.\<close>

definition StartSpectator :: "meter list \<Rightarrow> string option \<Rightarrow> gateway_config \<Rightarrow>
    (string option \<times> gateway_config) \<times> meter_op list" where
  "StartSpectator meters startErr config =
     (if gc_StatsSpectatorConfig config = None \<and> gc_StatsSpectatorURI config = []
      then ((Some ''StatsSpectatorConfig or StatsSpectatorURI must be set to start Spectator'', config), [])
      else
        let config = (if gc_StatsSpectatorConfig config = None
              then config\<lparr>gc_StatsSpectatorConfig := Some (DefaultSpectatorConfig (gc_StatsSpectatorURI config))\<rparr>
              else config)
        in ((startErr, config), carry_over meters))"

text \<open>No meter is lost or mixed up: the operations on a counter are its measurements, in order.\<close>

lemma carry_over_counter:
  "filter (\<lambda>op. \<exists>v. op = AddFloat i v) (carry_over meters) =
     concat (map (\<lambda>m. case m of CounterMeter j ms \<Rightarrow> if j = i then map (AddFloat i) ms else [] | _ \<Rightarrow> []) meters)"
  by (induction meters rule: carry_over.induct) (auto simp: filter_map comp_def filter_empty_conv filter_id_conv)

lemma StartSpectator_only_config:
  "\<exists>sc. snd (fst (StartSpectator meters startErr config)) = config\<lparr>gc_StatsSpectatorConfig := sc\<rparr>"
  by (cases config) (auto simp: StartSpectator_def Let_def)

end
