(* ===== verification/Startup.thy ===== *)
theory Startup
  imports Gateway Clustering Stats
begin

text \<open>
  The start of the gateway: \<open>StartGateway\<close>, \<open>StartGNMIServer\<close>, the Zookeeper events and the local
  address of \<open>gateway/gateway.go\<close>. What the operating system, Zookeeper and gRPC answer is a
  parameter. A configuration field that is set during the start is set in the configuration that
  is returned.
\<close>

section \<open>The local address\<close>

datatype interface_addr = IPNet string bool bool | OtherAddr

text \<open>An \<open>IPNet\<close> has its text, whether it is a loopback address, and whether it is an IPv4 or IPv6 one.\<close>

definition getLocalIP :: "string + interface_addr list \<Rightarrow> string + string" where
  "getLocalIP addresses =
     (case addresses of
        Inl err \<Rightarrow> Inl err
      | Inr addresses \<Rightarrow>
          (let validIP = List.map_filter (\<lambda>ip. case ip of
                 OtherAddr \<Rightarrow> None
               | IPNet s loopback valid \<Rightarrow> if loopback then None else if valid then Some s else None) addresses
           in if length validIP < 1 then Inl ''no valid local IPs found''
              else Inr (sort_strings validIP ! 0)))"

lemma getLocalIP_least:
  assumes "getLocalIP (Inr addrs) = Inr a"
  shows "IPNet a False True \<in> set addrs \<and> (\<forall>b. IPNet b False True \<in> set addrs \<longrightarrow> a \<le> b)"
proof -
  let ?valid = "List.map_filter (\<lambda>ip. case ip of OtherAddr \<Rightarrow> None
    | IPNet s loopback valid \<Rightarrow> if loopback then None else if valid then Some s else None) addrs"
  have valid: "b \<in> set ?valid \<longleftrightarrow> IPNet b False True \<in> set addrs" for b
    by (force simp: List.map_filter_def split: interface_addr.splits if_splits)
  from assms have "?valid \<noteq> []" "a = sort_strings ?valid ! 0"
    by (auto simp: getLocalIP_def Let_def split: if_splits)
  with sort_strings_least [of ?valid] valid show ?thesis by auto
qed

section \<open>Starting the gateway\<close>

text \<open>
  The meters of the first registry, the error of the new one, the addresses of the interfaces,
  and the error of a connection to Zookeeper.
\<close>

record start_env =
  se_Meters :: "meter list"
  se_RegistryStart :: "string option"
  se_InterfaceAddrs :: "string + interface_addr list"
  se_zk_Connect :: "string list \<Rightarrow> duration \<Rightarrow> string option"

datatype start_error =
    SpectatorError string
  | ServerRequired
  | NoServerAddress string
  | ZookeeperError string
  | NoListenAddress
  | NoListenPort
  | NoTargetLoader string
  | NoExporter string

text \<open>The loaders the gateway starts: those it was given or that are enabled, or the cluster loader.\<close>

datatype gateway_loader = GivenLoader target_loader | ClusterLoader cluster_member

record 'r start_opts =
  op_TargetLoaders :: "gateway_loader list"
  op_Exporters :: "'r exporter list"

text \<open>\<open>st_zkConn\<close> tells whether the connection manager gets a Zookeeper connection.\<close>

record 'r started =
  st_config :: gateway_config
  st_cluster :: "cluster_member option"
  st_zkConn :: bool
  st_server :: bool
  st_loaders :: "gateway_loader list"
  st_exporters :: "'r exporter list"

section \<open>Zookeeper events\<close>

text \<open>The count of the disconnects, and the events passed on to the listeners.\<close>

definition zk_event :: "zk_state \<Rightarrow> nat \<times> zk_state list \<Rightarrow> (nat \<times> zk_state list) outcome" where
  "zk_event event_State s =
     (case s of (disconnectedCount, passed_on) \<Rightarrow>
        if event_State = StateDisconnected then
          (let disconnectedCount = disconnectedCount + 1 in
           if disconnectedCount > 50 then Panics (ExplicitPanic ''too many Zookeeper disconnects'')
           else Done (disconnectedCount, passed_on @ [event_State]))
        else if event_State = StateHasSession then Done (0, passed_on @ [event_State])
        else Done (disconnectedCount, passed_on @ [event_State]))"

definition zookeeperEventHandler :: "zk_state list \<Rightarrow> (nat \<times> zk_state list) outcome" where
  "zookeeperEventHandler events = fold_outcome zk_event events (0, [])"

text \<open>
  The session with Zookeeper: the goroutine that handles its events is what connecting leaves
  behind; when \<open>zk.Connect\<close> fails there is none.
\<close>

definition ConnectToZookeeper ::
    "start_env \<Rightarrow> gateway_config \<Rightarrow> string + (zk_state list \<Rightarrow> (nat \<times> zk_state list) outcome)" where
  "ConnectToZookeeper env config =
     (case se_zk_Connect env (gc_ZookeeperHosts config) (gc_ZookeeperTimeout config) of
        Some err \<Rightarrow> Inl err
      | None \<Rightarrow> Inr zookeeperEventHandler)"

section \<open>The start\<close>

text \<open>Whether the Spectator registry is started, and the settings of the cluster.\<close>

definition wants_spectator :: "gateway_config \<Rightarrow> bool" where
  "wants_spectator config \<longleftrightarrow>
     (case gc_StatsSpectatorConfig config of None \<Rightarrow> False | Some c \<Rightarrow> sp_Uri c \<noteq> []) \<or>
     gc_StatsSpectatorURI config \<noteq> []"

definition start_cluster :: "start_env \<Rightarrow> gateway_config \<Rightarrow>
    (start_error + cluster_member option \<times> gateway_config) " where
  "start_cluster env config =
     (if gc_ZookeeperHosts config \<noteq> [] then
        if \<not> gc_EnableGNMIServer config then Inl ServerRequired
        else
          case (if gc_ServerAddress config = [] then getLocalIP (se_InterfaceAddrs env)
                else Inr (gc_ServerAddress config)) of
            Inl err \<Rightarrow> Inl (NoServerAddress err)
          | Inr address \<Rightarrow>
              (let config = config\<lparr>gc_ServerAddress := address\<rparr>;
                   config = (if gc_ServerPort config = 0
                     then config\<lparr>gc_ServerPort := gc_ServerListenPort config\<rparr> else config);
                   clusterMember = gc_ServerAddress config @ '':'' @ Itoa (sint (gc_ServerPort config))
               in case ConnectToZookeeper env config of
                    Inl err \<Rightarrow> Inl (ZookeeperError err)
                  | Inr eventHandler \<Rightarrow> Inr (Some (NewZookeeperClusterMember (gc_ZookeeperPrefix config) clusterMember), config))
      else Inr (None, config))"

definition check_server :: "gateway_config \<Rightarrow> start_error option" where
  "check_server config =
     (if \<not> gc_EnableGNMIServer config then None
      else if gc_ServerListenAddress config = [] then Some NoListenAddress
      else if gc_ServerListenPort config = 0 then Some NoListenPort
      else None)"

text \<open>The loops over the enabled loaders and exporters.\<close>

definition start_plugins :: "target_loader plugin_registry \<Rightarrow> 'r exporter plugin_registry \<Rightarrow>
    'r start_opts \<Rightarrow> cluster_member option \<Rightarrow> gateway_config \<Rightarrow> (start_error + 'r started) outcome" where
  "start_plugins lreg xreg opts cluster config =
     (let given = op_TargetLoaders opts @ (case cluster of None \<Rightarrow> [] | Some c \<Rightarrow> [ClusterLoader c]) in
      bind_outcome (deref (gc_TargetLoaders config)) (\<lambda>tl.
      bind_outcome (resolve_enabled (\<lambda>n. map_done (map_option GivenLoader) (loaders_New lreg n config))
          (tl_Enabled tl) given) (\<lambda>loaders.
        case loaders of
          Inl name \<Rightarrow> Done (Inl (NoTargetLoader name))
        | Inr loaders \<Rightarrow>
            bind_outcome (deref (gc_Exporters config)) (\<lambda>ec.
            bind_outcome (resolve_enabled (\<lambda>n. exporters_New xreg n config) (ec_Enabled ec)
                (op_Exporters opts)) (\<lambda>exporters.
              case exporters of
                Inl name \<Rightarrow> Done (Inl (NoExporter name))
              | Inr exporters \<Rightarrow> Done (Inr
                  \<lparr>st_config = config, st_cluster = cluster, st_zkConn = (cluster \<noteq> None),
                   st_server = gc_EnableGNMIServer config,
                   st_loaders = loaders, st_exporters = exporters\<rparr>))))))"

text \<open>\<open>StartGateway\<close> up to the point where it waits for the first error of its goroutines.\<close>

definition StartGateway :: "start_env \<Rightarrow> target_loader plugin_registry \<Rightarrow> 'r exporter plugin_registry \<Rightarrow>
    'r start_opts \<Rightarrow> gateway_config \<Rightarrow> (start_error + 'r started) outcome" where
  "StartGateway env lreg xreg opts config =
     (case (if wants_spectator config
            then fst (StartSpectator (se_Meters env) (se_RegistryStart env) config) else (None, config)) of
        (Some err, _) \<Rightarrow> Done (Inl (SpectatorError err))
      | (None, config) \<Rightarrow>
          (case start_cluster env config of
             Inl err \<Rightarrow> Done (Inl err)
           | Inr (cluster, config) \<Rightarrow>
               (case check_server config of
                  Some err \<Rightarrow> Done (Inl err)
                | None \<Rightarrow> start_plugins lreg xreg opts cluster config)))"

text \<open>
  The goroutine of an exporter: its error goes to \<open>finished\<close>, and the exporter becomes a client
  of the cache in any case.
\<close>

definition exporter_goroutine :: "'m yang_lib \<Rightarrow> export_lib \<Rightarrow> gateway_config \<Rightarrow> 'r exporter \<Rightarrow>
    cache_client list \<Rightarrow> (exporter_error option \<times> 'r exporter \<times> cache_client list) outcome" where
  "exporter_goroutine ylib lib config x clients =
     bind_outcome (exporter_Start ylib lib x) (\<lambda>(err, x).
       Done (err, x, AddClient config (exporter_Name x) True clients))"

definition loader_goroutine :: "loader_lib \<Rightarrow> loader_lib list \<Rightarrow> target_loader \<Rightarrow>
    (load_error option \<times> target_control list) outcome" where
  "loader_goroutine lib libs l =
     bind_outcome (loader_Start lib l) (\<lambda>(err, l).
     bind_outcome (watch_loop loader_WatchConfiguration libs l) (\<lambda>(msgs, _). Done (err, msgs)))"

section \<open>The gNMI server\<close>

datatype serve_error = NoTLSCreds | TLSError string | ListenError string

record serve_env =
  sn_NewServerTLSFromFile :: "string \<Rightarrow> string \<Rightarrow> string + string"
  sn_Listen :: "int64 \<Rightarrow> string option"

text \<open>The result has the error, the configuration, and the clients; a server that listens blocks.\<close>

definition StartGNMIServer :: "serve_env \<Rightarrow> gateway_config \<Rightarrow> cache_client list \<Rightarrow>
    serve_error option \<times> gateway_config \<times> cache_client list" where
  "StartGNMIServer env config clients =
     (case (case gc_ServerTLSCreds config of
          Some creds \<Rightarrow> Inr creds
        | None \<Rightarrow>
            if gc_ServerTLSCert config = [] \<or> gc_ServerTLSKey config = [] then Inl NoTLSCreds
            else (case sn_NewServerTLSFromFile env (gc_ServerTLSCert config) (gc_ServerTLSKey config) of
                Inl err \<Rightarrow> Inl (TLSError err)
              | Inr creds \<Rightarrow> Inr creds)) of
        Inl err \<Rightarrow> (Some err, config, clients)
      | Inr creds \<Rightarrow>
          (let config = config\<lparr>gc_ServerTLSCreds := Some creds\<rparr>;
               clients = AddClient config ''gnmi_server'' False clients
           in (map_option ListenError (sn_Listen env (gc_ServerListenPort config)), config, clients)))"

section \<open>Properties of the start\<close>

fun disconnects_since :: "zk_state list \<Rightarrow> nat \<Rightarrow> nat" where
  "disconnects_since [] n = n"
| "disconnects_since (e # es) n =
     disconnects_since es (if e = StateDisconnected then n + 1 else if e = StateHasSession then 0 else n)"

lemma disconnects_since_append:
  "disconnects_since (xs @ ys) n = disconnects_since ys (disconnects_since xs n)"
  by (induction xs arbitrary: n) auto

lemma zk_handler_snoc:
  "zookeeperEventHandler events =
     (if list_all (\<lambda>p. disconnects_since p 0 \<le> 50) (prefixes events)
      then Done (disconnects_since events 0, events)
      else Panics (ExplicitPanic ''too many Zookeeper disconnects''))"
proof (induction events rule: rev_induct)
  case Nil
  show ?case by (simp add: zookeeperEventHandler_def)
next
  case (snoc e es)
  have step: "zookeeperEventHandler (es @ [e]) = bind_outcome (zookeeperEventHandler es) (zk_event e)"
    by (simp add: zookeeperEventHandler_def fold_outcome_snoc)
  have pre: "list_all P (prefixes (es @ [e])) \<longleftrightarrow> list_all P (prefixes es) \<and> P (es @ [e])" for P
    by (auto simp: prefixes_snoc list_all_iff)
  have last: "list_all (\<lambda>p. disconnects_since p 0 \<le> 50) (prefixes es) \<Longrightarrow> disconnects_since es 0 \<le> 50"
    by (simp add: list_all_iff)
  show ?case
    unfolding step snoc.IH pre
    using last by (auto simp: zk_event_def disconnects_since_append Let_def)
qed

text \<open>
  C34: the gateway panics on Zookeeper disconnects exactly when more than 50 of them come without a
  session in between; otherwise every event is passed on to the connection manager, in order.
\<close>

theorem zookeeperEventHandler_tolerates:
  "zookeeperEventHandler events =
     (if list_all (\<lambda>p. disconnects_since p 0 \<le> 50) (prefixes events)
      then Done (disconnects_since events 0, events)
      else Panics (ExplicitPanic ''too many Zookeeper disconnects''))"
  by (rule zk_handler_snoc)

lemma start_cluster_result:
  assumes "start_cluster env config = Inr (cluster, config')"
  shows "gc_EnableGNMIServer config' = gc_EnableGNMIServer config \<and> gc_ZookeeperHosts config' = gc_ZookeeperHosts config \<and>
    gc_ServerListenPort config' = gc_ServerListenPort config \<and> gc_ServerListenAddress config' = gc_ServerListenAddress config \<and>
    gc_TargetLoaders config' = gc_TargetLoaders config \<and> gc_Exporters config' = gc_Exporters config \<and>
    (case cluster of
       None \<Rightarrow> gc_ZookeeperHosts config = [] \<and> config' = config
     | Some c \<Rightarrow> gc_ZookeeperHosts config \<noteq> [] \<and> gc_EnableGNMIServer config \<and>
         (gc_ServerPort config' = 0 \<longrightarrow> gc_ServerListenPort config = 0) \<and>
         c = NewZookeeperClusterMember (gc_ZookeeperPrefix config')
               (gc_ServerAddress config' @ '':'' @ Itoa (sint (gc_ServerPort config'))))"
  using assms by (auto simp: start_cluster_def Let_def split: if_splits sum.splits option.splits)

lemma sum_case_Done_Inr:
  "(case x of Inl n \<Rightarrow> Done (Inl (f n)) | Inr y \<Rightarrow> g y) = Done (Inr z) \<longleftrightarrow> (\<exists>y. x = Inr y \<and> g y = Done (Inr z))"
  by (cases x) auto

lemma start_plugins_resolves:
  assumes "start_plugins lreg xreg opts cluster config = Done (Inr st)"
  obtains tl ec where "gc_TargetLoaders config = Some tl" "gc_Exporters config = Some ec"
    "resolve_enabled (\<lambda>n. map_done (map_option GivenLoader) (loaders_New lreg n config)) (tl_Enabled tl)
       (op_TargetLoaders opts @ (case cluster of None \<Rightarrow> [] | Some c \<Rightarrow> [ClusterLoader c])) = Done (Inr (st_loaders st))"
    "resolve_enabled (\<lambda>n. exporters_New xreg n config) (ec_Enabled ec) (op_Exporters opts) = Done (Inr (st_exporters st))"
    "st_config st = config" "st_cluster st = cluster" "st_server st = gc_EnableGNMIServer config"
  using assms by (auto simp: start_plugins_def Let_def go_simps sum_case_Done_Inr)

lemma resolve_enabled_keeps:
  "resolve_enabled new ns ps = Done (Inr qs) \<Longrightarrow> set ps \<subseteq> set qs"
proof (induction ns arbitrary: ps)
  case (Cons n ns)
  from Cons.prems obtain p where "resolve_enabled new ns (ps @ [p]) = Done (Inr qs)"
    by (auto simp: go_simps split: option.splits)
  from Cons.IH [OF this] show ?case by simp
qed simp

lemma start_plugins_cluster_loader:
  assumes "start_plugins lreg xreg opts (Some c) config = Done (Inr st)"
  shows "ClusterLoader c \<in> set (st_loaders st)"
  using assms by (rule start_plugins_resolves) (auto dest!: resolve_enabled_keeps)

text \<open>
  C21: a gateway that starts as a member of a cluster serves gNMI, listens on a port, is known to
  the cluster by its address and a port that is not zero, and loads the other members as targets;
  a gateway that starts without a cluster has no Zookeeper hosts.
\<close>

theorem StartGateway_cluster:
  assumes "StartGateway env lreg xreg opts config = Done (Inr st)"
  shows "case st_cluster st of
      None \<Rightarrow> gc_ZookeeperHosts (st_config st) = []
    | Some c \<Rightarrow> gc_ZookeeperHosts (st_config st) \<noteq> [] \<and> st_server st \<and>
        gc_ServerListenAddress (st_config st) \<noteq> [] \<and> gc_ServerListenPort (st_config st) \<noteq> 0 \<and>
        gc_ServerPort (st_config st) \<noteq> 0 \<and>
        cm_member c = MemberID (gc_ServerAddress (st_config st) @ '':'' @ Itoa (sint (gc_ServerPort (st_config st)))) \<and>
        ClusterLoader c \<in> set (st_loaders st)"
proof -
  let ?spectator = "if wants_spectator config
    then fst (StartSpectator (se_Meters env) (se_RegistryStart env) config) else (None, config)"
  obtain err config1 where c1: "?spectator = (err, config1)" by (cases ?spectator)
  with assms have "err = None" by (cases err) (simp_all add: StartGateway_def)
  with assms c1 obtain cluster config2 where c2: "start_cluster env config1 = Inr (cluster, config2)"
    by (cases "start_cluster env config1") (auto simp: StartGateway_def)
  with assms c1 \<open>err = None\<close> have ok: "check_server config2 = None"
      "start_plugins lreg xreg opts cluster config2 = Done (Inr st)"
    by (cases "check_server config2"; simp add: StartGateway_def)+
  have st: "st_config st = config2" "st_cluster st = cluster" "st_server st = gc_EnableGNMIServer config2"
    using start_plugins_resolves [OF ok(2)] by blast+
  show ?thesis
  proof (cases cluster)
    case None
    with st start_cluster_result [OF c2] show ?thesis by simp
  next
    case (Some c)
    with st start_cluster_result [OF c2] ok(1) start_plugins_cluster_loader [of lreg xreg opts c config2 st] ok(2)
    show ?thesis
      by (auto simp: check_server_def NewZookeeperClusterMember_def split: if_splits)
  qed
qed

definition example_env :: start_env where
  "example_env = \<lparr>se_Meters = [], se_RegistryStart = None, se_InterfaceAddrs = Inr [IPNet ''10.0.0.1'' False True],
     se_zk_Connect = \<lambda>hosts timeout. None\<rparr>"

definition cluster_config :: gateway_config where
  "cluster_config = NewDefaultGatewayConfig\<lparr>gc_EnableGNMIServer := True, gc_ServerListenAddress := ''0.0.0.0'',
     gc_ServerListenPort := 9339, gc_ZookeeperHosts := [''zk:2181'']\<rparr>"

lemma example_local_ip: "getLocalIP (Inr [IPNet a False True]) = Inr a"
  by (simp add: getLocalIP_def map_filter_simps sort_strings_def)

lemma cluster_config_starts:
  "\<exists>st :: nat started. StartGateway example_env [] [] \<lparr>op_TargetLoaders = [], op_Exporters = []\<rparr> cluster_config =
     Done (Inr st) \<and> st_cluster st \<noteq> None"
  by (simp add: StartGateway_def wants_spectator_def cluster_config_def NewDefaultGatewayConfig_def
      zero_gateway_config_def zero_target_loaders_config_def zero_exporters_config_def start_cluster_def
      ConnectToZookeeper_def example_env_def example_local_ip check_server_def start_plugins_def)

theorem StartGateway_cluster_witness:
  "\<exists>(st :: nat started) c. StartGateway example_env [] [] \<lparr>op_TargetLoaders = [], op_Exporters = []\<rparr> cluster_config =
     Done (Inr st) \<and> st_cluster st = Some c \<and> gc_ServerPort (st_config st) \<noteq> 0 \<and> ClusterLoader c \<in> set (st_loaders st)"
proof -
  obtain st :: "nat started" and c where st: "StartGateway example_env [] []
      \<lparr>op_TargetLoaders = [], op_Exporters = []\<rparr> cluster_config = Done (Inr st)" "st_cluster st = Some c"
    using cluster_config_starts by auto
  from StartGateway_cluster [OF st(1)] st show ?thesis by auto
qed

section \<open>The enabled plugins\<close>

lemma resolve_enabled_find:
  assumes "\<And>n. known n \<Longrightarrow> new n = Done (Some (g n))" and "\<And>n. \<not> known n \<Longrightarrow> new n = Done None"
  shows "resolve_enabled new ns ps =
    (case find (\<lambda>n. \<not> known n) ns of None \<Rightarrow> Done (Inr (ps @ map g ns)) | Some n \<Rightarrow> Done (Inl n))"
proof (induction ns arbitrary: ps)
  case (Cons n ns)
  show ?case
    by (cases "known n") (simp_all add: assms Cons.IH split: option.split)
qed simp

lemma loaders_New_init:
  "loaders_New loader_registry_init n config =
     (case map_of loader_constructors n of None \<Rightarrow> Done None | Some f \<Rightarrow> map_done Some (f config))"
proof (cases "map_of loader_constructors n")
  case None
  then have "n \<notin> fst ` set loader_constructors" by (simp add: map_of_eq_None_iff)
  with None loader_registry.new_unknown show ?thesis by (simp add: loader_registry_init_def)
next
  case (Some f)
  have "distinct (map fst loader_constructors)" by (simp add: loader_constructors_def)
  with Some loader_registry.new_known [OF _ map_of_SomeD [OF Some]] show ?thesis
    by (simp add: loader_registry_init_def)
qed

lemma exporters_New_init:
  "exporters_New (exporter_registry_init r) n config =
     (case map_of (exporter_constructors r) n of None \<Rightarrow> Done None | Some f \<Rightarrow> map_done Some (f config))"
proof (cases "map_of (exporter_constructors r) n")
  case None
  then have "n \<notin> fst ` set (exporter_constructors r)" by (simp add: map_of_eq_None_iff)
  with None exporter_registry.new_unknown show ?thesis by (simp add: exporter_registry_init_def)
next
  case (Some f)
  have "distinct (map fst (exporter_constructors r))" by (simp add: exporter_constructors_def)
  with Some exporter_registry.new_known [OF _ map_of_SomeD [OF Some]] show ?thesis
    by (simp add: exporter_registry_init_def)
qed

fun loader_name :: "gateway_loader \<Rightarrow> string" where
  "loader_name (GivenLoader (JSONFileTargetLoader l)) = ''json''"
| "loader_name (GivenLoader (SimpleTargetLoader l)) = ''simple''"
| "loader_name (GivenLoader (NetBoxTargetLoader l)) = ''netbox''"
| "loader_name (ClusterLoader c) = ''cluster''"

definition known_loader :: "string \<Rightarrow> bool" where
  "known_loader n \<longleftrightarrow> n \<in> {''json'', ''netbox'', ''simple''}"

definition known_exporter :: "string \<Rightarrow> bool" where
  "known_exporter n \<longleftrightarrow> n \<in> {''debug'', ''influxdb'', ''kafka'', ''prometheus''}"

lemma known_loader_new:
  assumes "known_loader n" and "gc_TargetLoaders config = Some lc"
  shows "\<exists>l. loaders_New loader_registry_init n config = Done (Some l) \<and> loader_name (GivenLoader l) = n"
  using assms
  by (auto simp: known_loader_def loaders_New_init loader_constructors_def NewJSONFileTargetLoader_def
      NewSimpleTargetLoader_def NewNetBoxTargetLoader_def)

lemma known_exporter_new:
  assumes "known_exporter n"
  shows "\<exists>x. exporters_New (exporter_registry_init r) n config = Done (Some x) \<and> exporter_Name x = n"
  using assms
  by (auto simp: known_exporter_def exporters_New_init exporter_constructors_def NewPrometheusExporter_def)

lemma unknown_new:
  "\<not> known_loader n \<Longrightarrow> loaders_New loader_registry_init n config = Done None"
  "\<not> known_exporter n \<Longrightarrow> exporters_New (exporter_registry_init r) n config = Done None"
  by (auto simp: known_loader_def loaders_New_init loader_constructors_def
      known_exporter_def exporters_New_init exporter_constructors_def)

lemma resolve_names:
  assumes "\<And>n. known n \<Longrightarrow> \<exists>p. new n = Done (Some p) \<and> name_of p = n" and "\<And>n. \<not> known n \<Longrightarrow> new n = Done None"
  shows "case find (\<lambda>n. \<not> known n) ns of
      None \<Rightarrow> \<exists>qs. resolve_enabled new ns ps = Done (Inr (ps @ qs)) \<and> map name_of qs = ns
    | Some n \<Rightarrow> resolve_enabled new ns ps = Done (Inl n)"
proof -
  obtain g where g: "\<And>n. known n \<Longrightarrow> new n = Done (Some (g n)) \<and> name_of (g n) = n"
    using assms(1) by metis
  have "map (\<lambda>n. name_of (g n)) ns = ns" if "find (\<lambda>n. \<not> known n) ns = None"
    using that g by (auto simp: find_None_iff intro: map_idI)
  with resolve_enabled_find [of known new g ns ps] g assms(2) show ?thesis
    by (auto simp: comp_def split: option.split)
qed

text \<open>
  C22: the enabled plugins. The gateway starts exactly when every enabled target loader and
  every enabled exporter has one of the documented names, and then it runs the ones it was given,
  the cluster loader of a cluster member, and the enabled ones in their order; otherwise its error
  names the first loader, or else the first exporter, that is not known.
\<close>

theorem enabled_plugins_start:
  assumes "gc_TargetLoaders config = Some lc" and "gc_Exporters config = Some ec"
  shows "case find (\<lambda>n. \<not> known_loader n) (tl_Enabled lc) of
      Some n \<Rightarrow> start_plugins loader_registry_init (exporter_registry_init r) opts cluster config =
        Done (Inl (NoTargetLoader n))
    | None \<Rightarrow> (case find (\<lambda>n. \<not> known_exporter n) (ec_Enabled ec) of
        Some n \<Rightarrow> start_plugins loader_registry_init (exporter_registry_init r) opts cluster config =
          Done (Inl (NoExporter n))
      | None \<Rightarrow> \<exists>st. start_plugins loader_registry_init (exporter_registry_init r) opts cluster config =
            Done (Inr st) \<and>
          map loader_name (st_loaders st) = map loader_name (op_TargetLoaders opts) @
            (case cluster of None \<Rightarrow> [] | Some c \<Rightarrow> [''cluster'']) @ tl_Enabled lc \<and>
          map exporter_Name (st_exporters st) = map exporter_Name (op_Exporters opts) @ ec_Enabled ec)"
proof -
  let ?given = "op_TargetLoaders opts @ (case cluster of None \<Rightarrow> [] | Some c \<Rightarrow> [ClusterLoader c])"
  let ?newl = "\<lambda>n. map_done (map_option GivenLoader) (loaders_New loader_registry_init n config)"
  have l: "\<exists>p. ?newl n = Done (Some p) \<and> loader_name p = n" if "known_loader n" for n
    using known_loader_new [OF that assms(1)] by fastforce
  note rl = resolve_names [of known_loader ?newl loader_name "tl_Enabled lc" ?given, OF l]
  note rx = resolve_names [of known_exporter "\<lambda>n. exporters_New (exporter_registry_init r) n config" exporter_Name
      "ec_Enabled ec" "op_Exporters opts", OF known_exporter_new unknown_new(2)]
  from rl rx assms show ?thesis
    by (auto simp: start_plugins_def unknown_new(1) split: option.splits)
qed

definition plugin_config :: gateway_config where
  "plugin_config = NewDefaultGatewayConfig
     \<lparr>gc_TargetLoaders := Some ((the (gc_TargetLoaders NewDefaultGatewayConfig))\<lparr>tl_Enabled := [''simple'']\<rparr>),
      gc_Exporters := Some ((the (gc_Exporters NewDefaultGatewayConfig))\<lparr>ec_Enabled := [''kafka'', ''prometheus'']\<rparr>)\<rparr>"

theorem enabled_plugins_start_witness:
  "\<exists>st. start_plugins loader_registry_init (exporter_registry_init ()) \<lparr>op_TargetLoaders = [], op_Exporters = []\<rparr>
       (Some (NewZookeeperClusterMember ''/gnmi'' ''a:1'')) plugin_config = Done (Inr st) \<and>
     map loader_name (st_loaders st) = [''cluster'', ''simple''] \<and>
     map exporter_Name (st_exporters st) = [''kafka'', ''prometheus'']"
proof -
  have "gc_TargetLoaders plugin_config = Some (the (gc_TargetLoaders plugin_config))"
      "gc_Exporters plugin_config = Some (the (gc_Exporters plugin_config))"
    by (simp_all add: plugin_config_def NewDefaultGatewayConfig_def)
  from enabled_plugins_start [OF this, of "()" "\<lparr>op_TargetLoaders = [], op_Exporters = []\<rparr>"
      "Some (NewZookeeperClusterMember ''/gnmi'' ''a:1'')"]
  show ?thesis by (simp add: plugin_config_def known_loader_def known_exporter_def)
qed

end
