(* ===== verification/Cmdline.thy ===== *)
theory Cmdline
  imports Startup
begin

text \<open>
  \<open>gateway/main.go\<close>: the command line, the debugging set-up and \<open>Main\<close>. The \<open>flag\<close> package
  is a record of the values given on the command line (a flag that is not given keeps its
  default); the configuration file and the environment are functions on the configuration.
\<close>

section \<open>The command line\<close>

record flag_values =
  fv_String :: "string \<Rightarrow> string option"
  fv_Bool :: "string \<Rightarrow> bool option"
  fv_Int :: "string \<Rightarrow> int64 option"
  fv_Duration :: "string \<Rightarrow> duration option"

definition flag :: "(string \<Rightarrow> 'a option) \<Rightarrow> string \<Rightarrow> 'a \<Rightarrow> 'a" where
  "flag vals name dflt = (case vals name of None \<Rightarrow> dflt | Some v \<Rightarrow> v)"

definition cleanSplit :: "string \<Rightarrow> string list" where
  "cleanSplit s = filter (\<lambda>t. t \<noteq> []) (map TrimSpace (split_on CHR '','' s))"

definition exporter_flags :: "flag_values \<Rightarrow> exporters_config \<Rightarrow> exporters_config" where
  "exporter_flags fv c =
     c\<lparr>ec_KafkaBatchBytes := flag (fv_Int fv) ''ExporterKafkaBatchBytes'' 1048576,
       ec_KafkaBatchSize := flag (fv_Int fv) ''ExporterKafkaBatchSize'' 10000,
       ec_KafkaBatchTimeout := flag (fv_Duration fv) ''ExporterKafkaBatchTimeout'' time_Second,
       ec_KafkaLogging := flag (fv_Bool fv) ''ExporterKafkaLogging'' False,
       ec_KafkaTopic := flag (fv_String fv) ''ExporterKafkaTopic'' [],
       ec_InfluxDBTarget := flag (fv_String fv) ''ExportersInfluxDBTarget'' ''http://localhost:8086'',
       ec_InfluxDBToken := flag (fv_String fv) ''ExportersInfluxDBToken'' [],
       ec_InfluxDBOrg := flag (fv_String fv) ''ExportersInfluxDBOrg'' [],
       ec_InfluxDBBucket := flag (fv_String fv) ''ExportersInfluxDBBucket'' [],
       ec_InfluxDBBatchSize := flag (fv_Int fv) ''ExportersInfluxDBBatchSize'' 20,
       ec_Enabled := cleanSplit (flag (fv_String fv) ''Exporters'' []),
       ec_KafkaBrokers := cleanSplit (flag (fv_String fv) ''ExporterKafkaBrokers'' [])\<rparr>"

definition loader_flags :: "flag_values \<Rightarrow> target_loaders_config \<Rightarrow> target_loaders_config" where
  "loader_flags fv c =
     c\<lparr>tl_SimpleFile := flag (fv_String fv) ''SimpleFile'' [],
       tl_SimpleFileReloadInterval := flag (fv_Duration fv) ''SimpleFileReloadInterval'' (30 * time_Second),
       tl_JSONFile := flag (fv_String fv) ''TargetJSONFile'' [],
       tl_JSONFileReloadInterval := flag (fv_Duration fv) ''TargetJSONFileReloadInterval'' (30 * time_Second),
       tl_NetBoxAPIKey := flag (fv_String fv) ''TargetNetBoxAPIKey'' [],
       tl_NetBoxDeviceGNMIPort := flag (fv_Int fv) ''TargetNetBoxDeviceGNMIPort'' 0,
       tl_NetBoxDeviceUsername := flag (fv_String fv) ''TargetNetBoxDeviceUsername'' [],
       tl_NetBoxDevicePassword := flag (fv_String fv) ''TargetNetBoxDevicePassword'' [],
       tl_NetBoxHost := flag (fv_String fv) ''TargetNetBoxHost'' [],
       tl_NetBoxIncludeTag := flag (fv_String fv) ''TargetNetBoxIncludeTag'' [],
       tl_NetBoxReloadInterval := flag (fv_Duration fv) ''TargetNetBoxReloadInterval'' (180 * time_Second),
       tl_Enabled := cleanSplit (flag (fv_String fv) ''TargetLoaders'' []),
       tl_NetBoxSubscribePaths := cleanSplit (flag (fv_String fv) ''TargetNetBoxSubscribePaths'' [])\<rparr>"

definition gateway_flags :: "flag_values \<Rightarrow> gateway_config \<Rightarrow> gateway_config" where
  "gateway_flags fv config =
     config\<lparr>gc_EnableGNMIServer := flag (fv_Bool fv) ''EnableGNMIServer'' False,
       gc_GatewayTransitionBufferSize := flag (fv_Int fv) ''GatewayTransitionBufferSize'' 100000,
       gc_LogCaller := flag (fv_Bool fv) ''LogCaller'' False,
       gc_OpenConfigDirectory := flag (fv_String fv) ''OpenConfigDirectory'' [],
       gc_ServerAddress := flag (fv_String fv) ''ServerAddress'' [],
       gc_ServerPort := flag (fv_Int fv) ''ServerPort'' 0,
       gc_ServerListenAddress := flag (fv_String fv) ''ServerListenAddress'' ''0.0.0.0'',
       gc_ServerListenPort := flag (fv_Int fv) ''ServerListenPort'' 9339,
       gc_ServerTLSCert := flag (fv_String fv) ''ServerTLSCert'' [],
       gc_ServerTLSKey := flag (fv_String fv) ''ServerTLSKey'' [],
       gc_StatsSpectatorURI := flag (fv_String fv) ''StatsSpectatorURI'' [],
       gc_TargetDialTimeout := flag (fv_Duration fv) ''TargetDialTimeout'' (10 * time_Second),
       gc_TargetLimit := flag (fv_Int fv) ''TargetLimit'' 100,
       gc_ZookeeperHosts := cleanSplit (flag (fv_String fv) ''ZookeeperHosts'' []),
       gc_ZookeeperPrefix := flag (fv_String fv) ''ZookeeperPrefix'' ''/gnmi/gateway/'',
       gc_ZookeeperTimeout := flag (fv_Duration fv) ''ZookeeperTimeout'' time_Second\<rparr>"

datatype args_error = PopulateError config_error | EnvironmentError string

text \<open>
  \<open>ParseArgs\<close>: the flags, then the configuration file, then the environment. Taking the address
  of a field of a nil \<open>Exporters\<close> or \<open>TargetLoaders\<close> panics.
\<close>

definition ParseArgs :: "flag_values \<Rightarrow> (gateway_config \<Rightarrow> string \<Rightarrow> (config_error option \<times> gateway_config) outcome) \<Rightarrow>
    (gateway_config \<Rightarrow> string option \<times> gateway_config) \<Rightarrow> gateway_config \<Rightarrow>
    (args_error option \<times> gateway_config) outcome" where
  "ParseArgs fv populate envconfig config =
     bind_outcome (deref (gc_Exporters config)) (\<lambda>ec.
     bind_outcome (deref (gc_TargetLoaders config)) (\<lambda>tl.
       let config = (gateway_flags fv config)\<lparr>gc_Exporters := Some (exporter_flags fv ec),
             gc_TargetLoaders := Some (loader_flags fv tl)\<rparr>;
           configFile = flag (fv_String fv) ''ConfigFile'' []
       in bind_outcome (if configFile \<noteq> [] then populate config configFile else Done (None, config))
            (\<lambda>(err, config). Done (
              case err of
                Some e \<Rightarrow> (Some (PopulateError e), config)
              | None \<Rightarrow> (case envconfig config of (err, config) \<Rightarrow> (map_option EnvironmentError err, config))))))"

section \<open>Debugging and Main\<close>

text \<open>
  \<open>SetupDebugging\<close>: the number of functions to run at the end, or an error of the profiler.
\<close>

definition SetupDebugging :: "string \<Rightarrow> (string \<Rightarrow> string option) \<Rightarrow> string option \<Rightarrow> string + nat" where
  "SetupDebugging CPUProfile create startProfile =
     (if CPUProfile \<noteq> [] then
        (case create CPUProfile of
           Some err \<Rightarrow> Inl err
         | None \<Rightarrow> (case startProfile of Some err \<Rightarrow> Inl err | None \<Rightarrow> Inr 1))
      else Inr 0)"

datatype main_end = Exit int | Finished

text \<open>
  \<open>Main\<close>: \<open>create\<close> and \<open>profile\<close> are the answers of the file system and the profiler, \<open>start\<close> is
  \<open>StartGateway\<close> of a new gateway without options, which returns only with an error or nil.
\<close>

definition Main_run :: "flag_values \<Rightarrow> (gateway_config \<Rightarrow> string \<Rightarrow> (config_error option \<times> gateway_config) outcome) \<Rightarrow>
    (gateway_config \<Rightarrow> string option \<times> gateway_config) \<Rightarrow> (string \<Rightarrow> string option) \<Rightarrow> string option \<Rightarrow>
    (gateway_config \<Rightarrow> string option outcome) \<Rightarrow> main_end outcome" where
  "Main_run fv populate envconfig create profile start =
     bind_outcome (ParseArgs fv populate envconfig NewDefaultGatewayConfig) (\<lambda>(err, config).
       if err \<noteq> None then Done (Exit 1)
       else if flag (fv_Bool fv) ''version'' False then Done (Exit 0)
       else case SetupDebugging (flag (fv_String fv) ''CPUProfile'' []) create profile of
           Inl err \<Rightarrow> Done (Exit 1)
         | Inr deferred \<Rightarrow>
             map_done (\<lambda>err. if err \<noteq> None then Exit 1 else Finished) (start config))"

section \<open>Properties of the command line\<close>

text \<open>The parts a list argument can have.\<close>

definition argument_part :: "string \<Rightarrow> bool" where
  "argument_part t \<longleftrightarrow> t \<noteq> [] \<and> TrimSpace t = t \<and> CHR '','' \<notin> set t"

lemma cleanSplit_clean: "t \<in> set (cleanSplit s) \<Longrightarrow> argument_part t"
  unfolding argument_part_def
  using TrimSpace_subset split_on_parts by (fastforce simp: cleanSplit_def TrimSpace_idem)

lemma cleanSplit_join:
  assumes "list_all argument_part ts"
  shows "cleanSplit (join_with '','' ts) = ts"
proof (cases ts)
  case Nil
  have "TrimSpace [] = []" by code_simp
  with Nil show ?thesis by (simp add: cleanSplit_def)
next
  case (Cons t ts')
  then have "split_on CHR '','' (join_with '','' ts) = ts"
    using assms by (intro split_on_join) (auto simp: argument_part_def list_all_iff)
  moreover have "map TrimSpace ts = ts" using assms by (simp add: map_idI argument_part_def list_all_iff)
  ultimately show ?thesis using assms by (simp add: cleanSplit_def filter_eq_self argument_part_def list_all_iff)
qed

text \<open>
  C40: splitting a list argument is the inverse of joining it with commas. Its parts are not empty,
  have no comma and no space around them, and exactly the lists of such parts are what a joined
  argument gives back; splitting the join of a split changes nothing.
\<close>

theorem cleanSplit_roundtrip:
  "(cleanSplit (join_with '','' ts) = ts \<longleftrightarrow> list_all argument_part ts) \<and>
   list_all argument_part (cleanSplit s) \<and> cleanSplit (join_with '','' (cleanSplit s)) = cleanSplit s"
  using cleanSplit_join cleanSplit_clean by (metis list_all_iff)

text \<open>Without flags, file and environment the configuration has the documented defaults.\<close>

lemma ParseArgs_defaults:
  assumes "ParseArgs \<lparr>fv_String = \<lambda>_. None, fv_Bool = \<lambda>_. None, fv_Int = \<lambda>_. None, fv_Duration = \<lambda>_. None\<rparr>
      populate (\<lambda>c. (None, c)) NewDefaultGatewayConfig = Done (err, config)"
  shows "err = None \<and> gc_ServerListenPort config = 9339 \<and> gc_TargetLimit config = 100 \<and>
    gc_EnableGNMIServer config = False"
  using assms
  by (auto simp: ParseArgs_def NewDefaultGatewayConfig_def flag_def gateway_flags_def Let_def)

end
