(* ===== verification/GatewayCluster.thy ===== *)
theory GatewayCluster
  imports ConnManager
begin

text \<open>
  A cluster: several gateway processes, each with its connection manager and its goroutines
  (\<open>connections/zookeeper.go\<close>, \<open>state.go\<close>), over one Zookeeper ensemble. The statements of a
  goroutine that use the lock (\<open>locking/zookeeper.go\<close>) are not atomic here: \<open>Try\<close> and \<open>Unlock\<close>
  are programs that make one Zookeeper call at a time, and between two calls any other gateway,
  any other goroutine of the same gateway, and the ensemble itself can move.
\<close>

section \<open>Who forwards the updates of a target\<close>

text \<open>
  The connections of the process that may forward a target: their goroutine is past a
  successful attempt to take the lock and has not given it back.
\<close>

definition owns_target :: "('h, zk_lock) conn_run \<Rightarrow> string \<Rightarrow> bool" where
  "owns_target r tgt \<longleftrightarrow> \<not> cn_stopped (rn_conn r) \<and> \<not> cn_clusterMember (rn_conn r) \<and>
     (cn_queryTarget (rn_conn r) = tgt \<or> Seen (rn_conn r) tgt) \<and>
     (cn_useLock (rn_conn r) \<longrightarrow>
        rn_slot r \<and> rn_at r \<in> {LoopLocked, LoopConnect, LoopSubscribed, LoopRelease})"

lemma forwardable_owned:
  fixes c :: 'c and w :: 'w
  assumes "gateway_reachable ops cops config sem lk
      (NewZookeeperConnectionManagerDefault c zk :: ('h, 'c) manager) (conn_system_init x w) m s"
    and "slot_semaphore sem held limit" and "held x = 0"
    and f: "Forwardable (m\<lparr>mg_runs := sy_runs s\<rparr>) tgt" and t: "tgt \<notin> {''*'', []}"
  shows "\<exists>r \<in> set (sy_runs s). owns_target r tgt"
proof -
  let ?m = "m\<lparr>mg_runs := sy_runs s\<rparr>"
  note inv = gateway_reachable_inv [OF assms(1)]
  have loops: "list_all loop_inv (sy_runs s)"
    using conn_system_inv_reachable [OF conjunct2 [OF inv] assms(2,3)] by (simp add: conn_system_inv_def)
  from f t obtain n a where a: "(n, a) \<in> set (mg_connections m)" "serves_target (conn_at ?m a) tgt"
    by (auto simp: Forwardable_iff)
  have "gomap_ok (mg_connections ?m)" using inv by (simp add: manager_inv_def)
  with a(1) have "map_of (mg_connections ?m) n = Some a" by (simp add: gomap_ok_def)
  from manager_inv_at [OF conjunct1 [OF inv] this]
  have at: "a < length (sy_runs s)" "\<not> cn_stopped (rn_conn (sy_runs s ! a))" by (simp_all add: conn_at_def)
  with loops have "loop_inv (sy_runs s ! a)" by (simp add: list_all_length)
  then have "owns_target (sy_runs s ! a) tgt"
    using a(2) at(2)
    by (cases "rn_at (sy_runs s ! a)")
       (auto simp: owns_target_def serves_target_def conn_at_def loop_inv_def holds_slot_at_def holds_lock_at_def)
  with at(1) show ?thesis by (blast intro: nth_mem)
qed

section \<open>A gateway whose lock calls are pending\<close>

text \<open>
  The loops of \<open>ConnLoop\<close> take a locker. Here its answer is what the pending call has
  returned: \<open>answered_ops\<close> reads it from the world of the loop.
\<close>

datatype lock_answer =
    NoAnswer
  | TryAnswer try_result
  | UnlockAnswer "lock_error option \<times> zk_lock"

definition answered_ops :: "(zk_lock, lock_answer, lock_error) locker_ops" where
  "answered_ops =
     \<lparr>lk_LockAcquired = zl_acquired,
      lk_Try = (\<lambda>w l. case w of TryAnswer (b, e, l') \<Rightarrow> ((b, e), l', NoAnswer)
                 | _ \<Rightarrow> ((False, Some NotConnected), l, w)),
      lk_Unlock = (\<lambda>w l. case w of UnlockAnswer (e, l') \<Rightarrow> (e, l', NoAnswer)
                    | _ \<Rightarrow> (Some NotConnected, l, w))\<rparr>"

datatype lock_call =
    TryCall "try_result zkprog"
  | ReleaseCall "(lock_error option \<times> zk_lock) zkprog"
  | WatchCall "(lock_error option \<times> zk_lock) zkprog"

fun call_step :: "'z zk_service \<Rightarrow> lock_call \<Rightarrow> 'z \<Rightarrow> lock_call \<times> 'z" where
  "call_step svc (TryCall p) z = (case zk_step svc p z of (p', z') \<Rightarrow> (TryCall p', z'))"
| "call_step svc (ReleaseCall p) z = (case zk_step svc p z of (p', z') \<Rightarrow> (ReleaseCall p', z'))"
| "call_step svc (WatchCall p) z = (case zk_step svc p z of (p', z') \<Rightarrow> (WatchCall p', z'))"

fun call_answer :: "lock_call \<Rightarrow> lock_answer option" where
  "call_answer (TryCall (ZkReturn r)) = Some (TryAnswer r)"
| "call_answer (ReleaseCall (ZkReturn r)) = Some (UnlockAnswer r)"
| "call_answer _ = None"

text \<open>The call that the next statement of a goroutine makes, if that statement uses the lock.\<close>

definition due_call :: "('h, zk_lock) conn_run \<Rightarrow> lock_call option" where
  "due_call r =
     (case cn_lock (rn_conn r) of
        None \<Rightarrow> None
      | Some l \<Rightarrow>
          if \<not> cn_useLock (rn_conn r) then None
          else if rn_at r = LoopLock \<and> \<not> cn_lockAcquired (rn_conn r) then Some (TryCall (Try l))
          else if rn_at r = LoopRelease \<and> zl_acquired l then Some (ReleaseCall (Unlock l))
          else None)"

record ('h, 'c, 'm) gateway_node =
  gn_manager :: "('h, 'c) manager"
  gn_system :: "('h, zk_lock, 'm, lock_answer) conn_system"
  gn_calls :: "nat \<Rightarrow> lock_call option"

abbreviation gn_runs :: "('h, 'c, 'm) gateway_node \<Rightarrow> ('h, zk_lock) conn_run list" where
  "gn_runs g \<equiv> sy_runs (gn_system g)"

definition set_call :: "nat \<Rightarrow> lock_call option \<Rightarrow> ('h, 'c, 'm) gateway_node \<Rightarrow> ('h, 'c, 'm) gateway_node" where
  "set_call i c g = g\<lparr>gn_calls := (gn_calls g)(i := c)\<rparr>"

definition set_run :: "nat \<Rightarrow> ('h, zk_lock) conn \<Rightarrow> ('h, 'c, 'm) gateway_node \<Rightarrow> ('h, 'c, 'm) gateway_node" where
  "set_run i t g = g\<lparr>gn_system := (gn_system g)
     \<lparr>sy_runs := (gn_runs g)[i := (gn_runs g ! i)\<lparr>rn_conn := t\<rparr>]\<rparr>\<rparr>"

text \<open>
  The steps of one gateway, over the Zookeeper state: a control message, a statement of a
  goroutine that does not use the lock, a change of a connection by its client, the start of a
  lock call by the loop or by the watch goroutine, one Zookeeper call, and its return.
\<close>

inductive node_step ::
    "client_ops \<Rightarrow> ('h, 'c) cache_ops \<Rightarrow> gateway_config \<Rightarrow> 'm semaphore \<Rightarrow> 'z zk_service \<Rightarrow>
     'z \<Rightarrow> ('h, 'c, 'm) gateway_node \<Rightarrow> 'z \<Rightarrow> ('h, 'c, 'm) gateway_node \<Rightarrow> bool"
  for ops cops config sem svc where
  message: "handleTargetControlMsg ops cops config msg ((gn_manager g)\<lparr>mg_runs := gn_runs g\<rparr>) = Done m' \<Longrightarrow>
    node_step ops cops config sem svc z g z
      (g\<lparr>gn_manager := m', gn_system := (gn_system g)\<lparr>sy_runs := mg_runs m'\<rparr>\<rparr>)"
| run: "i < length (gn_runs g) \<Longrightarrow> due_call (gn_runs g ! i) = None \<Longrightarrow>
    run_step ops config sem answered_ops i (gn_system g) = Done s' \<Longrightarrow>
    node_step ops cops config sem svc z g z (g\<lparr>gn_system := s'\<rparr>)"
| touch: "i < length (gn_runs g) \<Longrightarrow> conn_touched (rn_conn (gn_runs g ! i)) t \<Longrightarrow>
    cn_name t = cn_name (rn_conn (gn_runs g ! i)) \<Longrightarrow> cn_stopped t = cn_stopped (rn_conn (gn_runs g ! i)) \<Longrightarrow>
    node_step ops cops config sem svc z g z (set_run i t g)"
| begin_call: "i < length (gn_runs g) \<Longrightarrow> gn_calls g i = None \<Longrightarrow> due_call (gn_runs g ! i) = Some call \<Longrightarrow>
    node_step ops cops config sem svc z g z (set_call i (Some call) g)"
| begin_watch: "i < length (gn_runs g) \<Longrightarrow> gn_calls g i = None \<Longrightarrow> cn_lock (rn_conn (gn_runs g ! i)) = Some l \<Longrightarrow>
    node_step ops cops config sem svc z g z (set_call i (Some (WatchCall (Unlock l))) g)"
| zookeeper: "i < length (gn_runs g) \<Longrightarrow> gn_calls g i = Some call \<Longrightarrow> call_step svc call z = (call', z') \<Longrightarrow>
    node_step ops cops config sem svc z g z' (set_call i (Some call') g)"
| return_call: "i < length (gn_runs g) \<Longrightarrow> gn_calls g i = Some call \<Longrightarrow> call_answer call = Some w \<Longrightarrow>
    run_step ops config sem answered_ops i ((gn_system g)\<lparr>sy_world := w\<rparr>) = Done s' \<Longrightarrow>
    node_step ops cops config sem svc z g z (set_call i None (g\<lparr>gn_system := s'\<lparr>sy_world := NoAnswer\<rparr>\<rparr>))"
| return_watch: "i < length (gn_runs g) \<Longrightarrow> gn_calls g i = Some (WatchCall (ZkReturn (e, l))) \<Longrightarrow>
    cn_lock (rn_conn (gn_runs g ! i)) \<noteq> None \<Longrightarrow>
    node_step ops cops config sem svc z g z
      (set_call i None (set_run i ((rn_conn (gn_runs g ! i))\<lparr>cn_lock := Some l\<rparr>) g))"

text \<open>The cluster: gateway \<open>k\<close> is client \<open>k\<close> of the ensemble.\<close>

record ('h, 'c, 'm, 'z) cluster =
  cl_zk :: 'z
  cl_nodes :: "nat \<Rightarrow> ('h, 'c, 'm) gateway_node"

definition cluster_init :: "'z \<Rightarrow> 'c \<Rightarrow> 'm \<Rightarrow> ('h, 'c, 'm, 'z) cluster" where
  "cluster_init z c x =
     \<lparr>cl_zk = z, cl_nodes = (\<lambda>_. \<lparr>gn_manager = NewZookeeperConnectionManagerDefault c True,
        gn_system = conn_system_init x NoAnswer, gn_calls = (\<lambda>_. None)\<rparr>)\<rparr>"

inductive cluster_step ::
    "client_ops \<Rightarrow> ('h, 'c) cache_ops \<Rightarrow> (nat \<Rightarrow> gateway_config) \<Rightarrow> 'm semaphore \<Rightarrow> (nat \<Rightarrow> 'z zk_service) \<Rightarrow>
     ('z \<Rightarrow> 'z \<Rightarrow> bool) \<Rightarrow> ('h, 'c, 'm, 'z) cluster \<Rightarrow> ('h, 'c, 'm, 'z) cluster \<Rightarrow> bool"
  for ops cops config sem svc env where
  gateway: "node_step ops cops (config k) sem (svc k) (cl_zk c) (cl_nodes c k) z' g' \<Longrightarrow>
    cluster_step ops cops config sem svc env c (c\<lparr>cl_zk := z', cl_nodes := (cl_nodes c)(k := g')\<rparr>)"
| ensemble: "env (cl_zk c) z' \<Longrightarrow> cluster_step ops cops config sem svc env c (c\<lparr>cl_zk := z'\<rparr>)"

inductive cluster_reachable ::
    "client_ops \<Rightarrow> ('h, 'c) cache_ops \<Rightarrow> (nat \<Rightarrow> gateway_config) \<Rightarrow> 'm semaphore \<Rightarrow> (nat \<Rightarrow> 'z zk_service) \<Rightarrow>
     ('z \<Rightarrow> 'z \<Rightarrow> bool) \<Rightarrow> ('h, 'c, 'm, 'z) cluster \<Rightarrow> ('h, 'c, 'm, 'z) cluster \<Rightarrow> bool"
  for ops cops config sem svc env c0 where
  start: "cluster_reachable ops cops config sem svc env c0 c0"
| step: "cluster_reachable ops cops config sem svc env c0 c \<Longrightarrow>
    cluster_step ops cops config sem svc env c c' \<Longrightarrow>
    cluster_reachable ops cops config sem svc env c0 c'"

section \<open>Each gateway of a cluster is a gateway\<close>

text \<open>
  Whatever the others do, a gateway of the cluster moves as the single gateway of
  \<open>ConnManager\<close> does, so that all its theorems hold for it.
\<close>

definition node_runs :: "client_ops \<Rightarrow> ('h, 'c) cache_ops \<Rightarrow> gateway_config \<Rightarrow> 'm semaphore \<Rightarrow> 'c \<Rightarrow> 'm \<Rightarrow>
    ('h, 'c, 'm) gateway_node \<Rightarrow> bool" where
  "node_runs ops cops config sem c x g \<longleftrightarrow>
     gateway_reachable ops cops config sem answered_ops (NewZookeeperConnectionManagerDefault c True)
       (conn_system_init x NoAnswer) (gn_manager g) (gn_system g)"

lemma gateway_touch:
  assumes "gateway_reachable ops cops config sem lk m0 s0 m s" and "i < length (sy_runs s)"
    and "conn_touched (rn_conn (sy_runs s ! i)) t" and "cn_name t = cn_name (rn_conn (sy_runs s ! i))"
    and "cn_stopped t = cn_stopped (rn_conn (sy_runs s ! i))"
  shows "gateway_reachable ops cops config sem lk m0 s0 m
    (s\<lparr>sy_runs := (sy_runs s)[i := (sy_runs s ! i)\<lparr>rn_conn := t\<rparr>]\<rparr>)"
  using assms(1) conn_system_step.touch [OF assms(2,3)]
  by (rule gateway_reachable.process) (use assms in \<open>simp add: keeps_targets_update\<close>)

lemma gateway_world:
  assumes "gateway_reachable ops cops config sem lk m0 s0 m s"
  shows "gateway_reachable ops cops config sem lk m0 s0 m (s\<lparr>sy_world := w\<rparr>)"
  using assms conn_system_step.world
  by (rule gateway_reachable.process) (simp add: keeps_targets_def list_all2_refl)

lemma gateway_run:
  assumes "gateway_reachable ops cops config sem lk m0 s0 m s" and "i < length (sy_runs s)"
    and "run_step ops config sem lk i s = Done s'"
  shows "gateway_reachable ops cops config sem lk m0 s0 m s'"
  using assms(1) conn_system_step.run [OF assms(2,3)] run_step_keeps [OF assms(2,3)]
  by (rule gateway_reachable.process)


lemma gateway_watch:
  assumes "gateway_reachable ops cops config sem answered_ops m0 s0 m s" and i: "i < length (sy_runs s)"
    and l: "cn_lock (rn_conn (sy_runs s ! i)) = Some l"
  shows "gateway_reachable ops cops config sem answered_ops m0 s0 m
    (s\<lparr>sy_runs := (sy_runs s)[i := (sy_runs s ! i)\<lparr>rn_conn := (rn_conn (sy_runs s ! i))\<lparr>cn_lock := Some l'\<rparr>\<rparr>]\<rparr>)"
proof -
  let ?s = "s\<lparr>sy_world := UnlockAnswer (None, l')\<rparr>"
  have "lk_Unlock answered_ops (sy_world ?s) l = (None, l', NoAnswer)" by (simp add: answered_ops_def)
  from conn_system_step.watch [OF _ _ this, of i] i l
  have "conn_system_step ops config sem answered_ops ?s (?s\<lparr>sy_runs := (sy_runs ?s)[i := (sy_runs ?s ! i)
      \<lparr>rn_conn := (rn_conn (sy_runs ?s ! i))\<lparr>cn_lock := Some l'\<rparr>\<rparr>], sy_world := NoAnswer\<rparr>)"
    by simp
  from gateway_world [OF gateway_reachable.process [OF gateway_world [OF assms(1)] this], of "sy_world s"] i
  show ?thesis by (simp add: keeps_targets_update)
qed

lemma node_runs_step:
  assumes "node_step ops cops config sem svc z g z' g'" and "node_runs ops cops config sem c x g"
  shows "node_runs ops cops config sem c x g'"
  using assms
proof (cases rule: node_step.cases)
  case (message msg m')
  with assms(2) show ?thesis by (auto simp: node_runs_def intro: gateway_reachable.message)
next
  case (run i s')
  with assms(2) show ?thesis by (auto simp: node_runs_def intro: gateway_run)
next
  case (touch i t)
  with assms(2) gateway_touch show ?thesis by (fastforce simp: node_runs_def set_run_def)
next
  case (return_call i call w s')
  have "gateway_reachable ops cops config sem answered_ops (NewZookeeperConnectionManagerDefault c True)
      (conn_system_init x NoAnswer) (gn_manager g) ((gn_system g)\<lparr>sy_world := w\<rparr>)"
    using assms(2) by (auto simp: node_runs_def intro: gateway_world)
  from gateway_world [OF gateway_run [OF this _ return_call(6)]] return_call show ?thesis
    by (simp add: node_runs_def set_call_def)
next
  case (return_watch i e l)
  obtain l0 where "cn_lock (rn_conn (gn_runs g ! i)) = Some l0" using return_watch(5) by auto
  from gateway_watch [OF assms(2) [unfolded node_runs_def] return_watch(3) this]
  show ?thesis using return_watch(2) by (simp add: node_runs_def set_call_def set_run_def)
qed (auto simp: node_runs_def set_call_def)

section \<open>What every gateway keeps true of its lock nodes\<close>

definition fresh_lock :: "string \<Rightarrow> ('h, zk_lock) conn_run \<Rightarrow> bool" where
  "fresh_lock zkprefix r \<longleftrightarrow> (cn_useLock (rn_conn r) \<longrightarrow>
     (\<exists>addr. cn_lock (rn_conn r) =
        Some (NewZookeeperNonBlockingLock (MakeTargetLockPath zkprefix (cn_name (rn_conn r))) addr)))"

definition same_lock :: "('h, zk_lock) conn_run \<Rightarrow> ('h, zk_lock) conn_run \<Rightarrow> bool" where
  "same_lock r r' \<longleftrightarrow> cn_useLock (rn_conn r') = cn_useLock (rn_conn r) \<and>
     cn_name (rn_conn r') = cn_name (rn_conn r) \<and> cn_lock (rn_conn r') = cn_lock (rn_conn r)"

text \<open>What a control message does to the locks: old connections keep theirs, new ones are unlocked.\<close>

definition locks_grow :: "string \<Rightarrow> ('h, zk_lock) conn_run list \<Rightarrow> ('h, zk_lock) conn_run list \<Rightarrow> bool" where
  "locks_grow zkprefix rs rs' \<longleftrightarrow> length rs \<le> length rs' \<and>
     (\<forall>i < length rs'. if i < length rs then same_lock (rs ! i) (rs' ! i) else fresh_lock zkprefix (rs' ! i))"

lemma locks_grow_refl [simp]: "locks_grow p rs rs"
  by (simp add: locks_grow_def same_lock_def)

lemma locks_grow_trans:
  assumes "locks_grow p rs ts" and "locks_grow p ts us"
  shows "locks_grow p rs us"
proof -
  have "if i < length rs then same_lock (rs ! i) (us ! i) else fresh_lock p (us ! i)"
    if "i < length us" for i
  proof (cases "i < length ts")
    case True
    then have "if i < length rs then same_lock (rs ! i) (ts ! i) else fresh_lock p (ts ! i)"
      and "same_lock (ts ! i) (us ! i)"
      using assms that by (simp_all add: locks_grow_def)
    then show ?thesis by (auto simp: same_lock_def fresh_lock_def split: if_splits)
  next
    case False
    with assms that show ?thesis by (simp add: locks_grow_def)
  qed
  with assms show ?thesis unfolding locks_grow_def by (meson le_trans)
qed

lemma locks_grow_set:
  "cn_useLock t = cn_useLock (conn_at m a) \<Longrightarrow> cn_name t = cn_name (conn_at m a) \<Longrightarrow>
   cn_lock t = cn_lock (conn_at m a) \<Longrightarrow> locks_grow p (mg_runs m) (mg_runs (set_conn a t m))"
  by (cases "a < length (mg_runs m)")
     (auto simp: locks_grow_def same_lock_def set_conn_def conn_at_def nth_list_update)

lemma remove_target_locks:
  assumes "remove_target ops name m = Done m'"
  shows "locks_grow p (mg_runs m) (mg_runs m')"
proof (cases "map_of (mg_connections m) name")
  case None
  with assms show ?thesis by (simp add: remove_target_def)
next
  case (Some a)
  then have "mg_runs m' = mg_runs (set_conn a ((conn_at m a)\<lparr>cn_stopped := True\<rparr>) m)"
    using assms by (auto simp: remove_target_def disconnect_def Let_def go_simps)
  then show ?thesis by (simp add: locks_grow_set)
qed

lemma insert_target_locks:
  assumes "insert_target ops cops config ins name cfg m = Done m'"
  shows "locks_grow (gc_ZookeeperPrefix config) (mg_runs m) (mg_runs m')"
proof (cases "map_of (mg_connections m) name")
  case (Some a)
  with assms show ?thesis
    by (auto simp: insert_target_def update_target_def Let_def go_simps locks_grow_set split: if_splits)
next
  case None
  obtain h c where hc: "co_Add cops name (mg_cache m) = (h, c)" by (cases "co_Add cops name (mg_cache m)")
  have "fresh_lock (gc_ZookeeperPrefix config)
      (loop_started (new_conn config zk name req cfg h))" for zk req
    by (auto simp: fresh_lock_def loop_started_def new_conn_def Let_def)
  with assms None hc show ?thesis
    by (auto simp: insert_target_def locks_grow_def nth_append same_lock_def)
qed

lemma handleTargetControlMsg_locks:
  assumes "handleTargetControlMsg ops cops config msg m = Done m'"
  shows "locks_grow (gc_ZookeeperPrefix config) (mg_runs m) (mg_runs m')"
proof -
  let ?I = "\<lambda>u. locks_grow (gc_ZookeeperPrefix config) (mg_runs m) (mg_runs u)"
  obtain m1 where m1: "fold_outcome (remove_target ops) (tc_Remove msg) m = Done m1"
    using assms by (auto simp: handleTargetControlMsg_def go_simps)
  have I1: "?I m1"
    by (rule fold_outcome_invariant [where I = ?I, OF m1])
       (auto intro: locks_grow_trans remove_target_locks)
  show ?thesis
  proof (cases "tc_Insert msg")
    case None
    with assms m1 I1 show ?thesis by (simp add: handleTargetControlMsg_def)
  next
    case (Some ins)
    have m2: "fold_outcome (\<lambda>(name, cfg). insert_target ops cops config ins name cfg) (cf_Target ins) m1 = Done m'"
      using assms m1 Some by (simp add: handleTargetControlMsg_def)
    show ?thesis
      by (rule fold_outcome_invariant [where I = ?I, OF m2 I1])
         (auto intro: locks_grow_trans insert_target_locks)
  qed
qed

text \<open>
  What a statement of a goroutine does to the lock of its connection: nothing, or it stores
  the instance that came back from the call.
\<close>

lemma same_lock_refl [simp]: "same_lock r r"
  by (simp add: same_lock_def)

lemma doConnect_lock:
  "cn_useLock (snd (doConnect ops config k t)) = cn_useLock t"
  "cn_lock (snd (doConnect ops config k t)) = cn_lock t"
  by (simp_all add: doConnect_def Let_def warn_no_tls_def split: sum.split option.split)

lemma attempt_step_lock: "same_lock r (attempt_step ops config k a r)"
proof (cases "doConnect ops config k (rn_conn r)")
  case (Pair res t)
  with doConnect_lock [of ops config k "rn_conn r"] doConnect_keeps(1) [of ops config k "rn_conn r"] show ?thesis
    by (cases res) (simp_all add: attempt_step_def same_lock_def)
qed

lemma connect_step_lock: "connect_step ops config k sem r m = (r', m') \<Longrightarrow> same_lock r r'"
  using attempt_step_lock [of r ops config k]
  by (cases "rn_at r")
     (auto simp: connect_step_def head_step_def slot_step_def exit_step_def same_lock_def Let_def
       split: prod.splits if_splits)

fun answer_lock :: "lock_answer \<Rightarrow> zk_lock option" where
  "answer_lock NoAnswer = None"
| "answer_lock (TryAnswer (_, _, l)) = Some l"
| "answer_lock (UnlockAnswer (_, l)) = Some l"

definition lock_from :: "lock_answer \<Rightarrow> ('h, zk_lock) conn_run \<Rightarrow> ('h, zk_lock) conn_run \<Rightarrow> bool" where
  "lock_from w r r' \<longleftrightarrow> cn_useLock (rn_conn r') = cn_useLock (rn_conn r) \<and>
     cn_name (rn_conn r') = cn_name (rn_conn r) \<and>
     (cn_lock (rn_conn r') = cn_lock (rn_conn r) \<or>
      answer_lock w \<noteq> None \<and> cn_lock (rn_conn r') = answer_lock w)"

lemma lock_step_from:
  "lock_step answered_ops r w = Done (r', w') \<Longrightarrow> lock_from w r r' \<and> w' \<in> {w, NoAnswer}"
  by (cases "cn_lock (rn_conn r)")
     (auto simp: lock_step_def answered_ops_def lock_from_def split: lock_answer.splits prod.splits if_splits)

lemma release_step_from:
  "release_step answered_ops r w = Done (r', w') \<Longrightarrow> lock_from w r r' \<and> w' \<in> {w, NoAnswer}"
  by (cases "cn_lock (rn_conn r)")
     (auto simp: release_step_def answered_ops_def lock_from_def Let_def split: lock_answer.splits prod.splits if_splits)

lemma same_lock_from: "same_lock r r' \<Longrightarrow> lock_from w r r'"
  by (simp add: same_lock_def lock_from_def)

lemma connectWithLock_step_from:
  assumes "connectWithLock_step ops config k sem answered_ops r m w = Done (r', m', w')"
  shows "lock_from w r r' \<and> w' \<in> {w, NoAnswer}"
proof (cases "rn_at r")
  case LoopLock
  with assms lock_step_from show ?thesis
    by (cases "lock_step answered_ops r w") (fastforce simp: connectWithLock_step_def)+
next
  case LoopRelease
  with assms release_step_from show ?thesis
    by (cases "release_step answered_ops r w") (fastforce simp: connectWithLock_step_def)+
next
  case LoopConnect
  with assms same_lock_from [OF attempt_step_lock] show ?thesis
    by (auto simp: connectWithLock_step_def)
qed (use assms in \<open>auto simp: connectWithLock_step_def head_step_def slot_step_def exit_step_def
      lock_from_def Let_def split: prod.splits if_splits\<close>)

lemma run_step_from:
  assumes "run_step ops config sem answered_ops i s = Done s'"
  shows "\<exists>r. sy_runs s' = (sy_runs s)[i := r] \<and> lock_from (sy_world s) (sy_runs s ! i) r \<and>
    sy_world s' \<in> {sy_world s, NoAnswer}"
proof (cases "cn_useLock (rn_conn (sy_runs s ! i))")
  case True
  then obtain r m w where "connectWithLock_step ops config (sy_fresh s) sem answered_ops (sy_runs s ! i)
      (sy_sem s) (sy_world s) = Done (r, m, w)" "sy_runs s' = (sy_runs s)[i := r]" "sy_world s' = w"
    using assms
    by (cases "connectWithLock_step ops config (sy_fresh s) sem answered_ops (sy_runs s ! i) (sy_sem s) (sy_world s)")
       (auto simp: run_step_def Let_def)
  from this(2,3) connectWithLock_step_from [OF this(1)] show ?thesis by blast
next
  case False
  obtain r m where "connect_step ops config (sy_fresh s) sem (sy_runs s ! i) (sy_sem s) = (r, m)"
    by fastforce
  with assms False connect_step_lock show ?thesis
    by (fastforce simp: run_step_def Let_def intro: same_lock_from)
qed


fun call_wp :: "'z lock_dir \<Rightarrow> string \<Rightarrow> 'z zk_service \<Rightarrow> nat \<Rightarrow> lock_call \<Rightarrow> 'z \<Rightarrow> bool" where
  "call_wp D lid sv k (TryCall p) z = try_wp D lid sv k p z"
| "call_wp D lid sv k (ReleaseCall p) z = unlock_wp D lid sv k p z"
| "call_wp D lid sv k (WatchCall p) z = unlock_wp D lid sv k p z"

lemma call_wp_stable:
  assumes "call_wp D lid sv k call z" and "dir_moves D z y"
  shows "call_wp D lid sv k call y"
  using assms by (cases call) (auto intro: zk_wp_stable [OF transp_dir_moves])

lemma call_wp_step:
  assumes "call_wp D lid sv k call z" and "call_step sv call z = (call', z')"
  shows "call_wp D lid sv k call' z'"
  using assms by (cases call) (auto intro: zk_wp_after split: prod.splits)

lemma call_step_moves:
  "zk_moves sv (dir_moves D) \<Longrightarrow> call_step sv call z = (call', z') \<Longrightarrow> dir_moves D z z'"
  by (cases call) (auto intro: zk_step_dir_moves split: prod.splits)

lemma call_wp_answer:
  assumes "call_wp D lid sv k call z" and "call_answer call = Some w"
  shows "\<exists>l. answer_lock w = Some l \<and> lock_claim D lid k l z"
  using assms reflpD [OF reflp_dir_moves, of D z]
  by (cases call rule: call_answer.cases) auto

lemma due_call_wp:
  assumes "sequential_service D lid svc env" and "due_call r = Some call"
    and "cn_lock (rn_conn r) = Some l" and "lock_claim D lid k l z"
  shows "call_wp D lid (svc k) k call z"
  using assms(2,3) Try_wp [OF assms(1,4)] Unlock_wp [OF assms(1,4)]
  by (auto simp: due_call_def split: if_splits)

text \<open>
  A connection whose lock is the one at \<open>lid\<close> has an instance with a true claim, and its
  pending call can only return one.
\<close>

definition uses_lock :: "string \<Rightarrow> string \<Rightarrow> ('h, zk_lock) conn_run \<Rightarrow> bool" where
  "uses_lock zkprefix lid r \<longleftrightarrow>
     cn_useLock (rn_conn r) \<and> target_lock_id zkprefix (cn_name (rn_conn r)) = lid"

definition run_claim :: "'z lock_dir \<Rightarrow> string \<Rightarrow> 'z zk_service \<Rightarrow> nat \<Rightarrow> 'z \<Rightarrow> ('h, zk_lock) conn_run \<Rightarrow>
    lock_call option \<Rightarrow> bool" where
  "run_claim D lid sv k z r c \<longleftrightarrow>
     (\<exists>l. cn_lock (rn_conn r) = Some l \<and> lock_claim D lid k l z) \<and>
     (\<forall>call. c = Some call \<longrightarrow> call_wp D lid sv k call z)"

definition node_claims :: "'z lock_dir \<Rightarrow> string \<Rightarrow> 'z zk_service \<Rightarrow> nat \<Rightarrow> string \<Rightarrow> 'z \<Rightarrow>
    ('h, 'c, 'm) gateway_node \<Rightarrow> bool" where
  "node_claims D lid sv k zkprefix z g \<longleftrightarrow>
     sy_world (gn_system g) = NoAnswer \<and>
     (\<forall>i. length (gn_runs g) \<le> i \<longrightarrow> gn_calls g i = None) \<and>
     (\<forall>i < length (gn_runs g). uses_lock zkprefix lid (gn_runs g ! i) \<longrightarrow>
        run_claim D lid sv k z (gn_runs g ! i) (gn_calls g i))"

lemma run_claim_stable:
  "run_claim D lid sv k z r c \<Longrightarrow> dir_moves D z y \<Longrightarrow> run_claim D lid sv k y r c"
  unfolding run_claim_def by (blast intro: lock_claim_stable call_wp_stable)

lemma node_claims_stable:
  "node_claims D lid sv k p z g \<Longrightarrow> dir_moves D z y \<Longrightarrow> node_claims D lid sv k p y g"
  unfolding node_claims_def by (blast intro: run_claim_stable)

lemma fresh_claim:
  "fresh_lock p r \<Longrightarrow> uses_lock p lid r \<Longrightarrow> run_claim D lid sv k z r None"
  by (auto simp: fresh_lock_def uses_lock_def run_claim_def target_lock_id_def
      NewZookeeperNonBlockingLock_def intro!: lock_claim_free)

lemma same_lock_uses: "same_lock r r' \<Longrightarrow> uses_lock p lid r' = uses_lock p lid r"
  by (simp add: same_lock_def uses_lock_def)

lemma same_lock_claim: "same_lock r r' \<Longrightarrow> run_claim D lid sv k z r' c = run_claim D lid sv k z r c"
  by (simp add: same_lock_def run_claim_def)

text \<open>One connection changes: the claims of the others are not touched.\<close>

lemma node_claims_update:
  assumes "node_claims D lid sv k p z g" and "dir_moves D z y" and "i < length (gn_runs g)"
    and "sy_runs s' = (gn_runs g)[i := r]" and "sy_world s' = NoAnswer"
    and "uses_lock p lid r \<Longrightarrow> uses_lock p lid (gn_runs g ! i) \<and>
      (run_claim D lid sv k z (gn_runs g ! i) (gn_calls g i) \<longrightarrow> run_claim D lid sv k y r c)"
  shows "node_claims D lid sv k p y (set_call i c (g\<lparr>gn_system := s'\<rparr>))"
  using assms unfolding node_claims_def set_call_def
  by (auto simp: nth_list_update intro: run_claim_stable)


lemma node_claims_message:
  assumes "node_claims D lid sv k (gc_ZookeeperPrefix config) z g"
    and "handleTargetControlMsg ops cops config msg ((gn_manager g)\<lparr>mg_runs := gn_runs g\<rparr>) = Done m'"
  shows "node_claims D lid sv k (gc_ZookeeperPrefix config) z
    (g\<lparr>gn_manager := m', gn_system := (gn_system g)\<lparr>sy_runs := mg_runs m'\<rparr>\<rparr>)"
proof -
  let ?p = "gc_ZookeeperPrefix config"
  have g: "locks_grow ?p (gn_runs g) (mg_runs m')"
    using handleTargetControlMsg_locks [OF assms(2)] by simp
  have "run_claim D lid sv k z (mg_runs m' ! i) (gn_calls g i)"
    if "i < length (mg_runs m')" "uses_lock ?p lid (mg_runs m' ! i)" for i
  proof (cases "i < length (gn_runs g)")
    case True
    with g that(1) have "same_lock (gn_runs g ! i) (mg_runs m' ! i)" by (simp add: locks_grow_def)
    from same_lock_uses [OF this] same_lock_claim [OF this, of D] True that(2) assms(1)
    show ?thesis by (simp add: node_claims_def)
  next
    case False
    with g that(1) have "fresh_lock ?p (mg_runs m' ! i)" by (simp add: locks_grow_def)
    from fresh_claim [OF this that(2)] False assms(1) show ?thesis by (simp add: node_claims_def)
  qed
  with assms(1) g show ?thesis by (auto simp: node_claims_def locks_grow_def)
qed

text \<open>A statement of a goroutine, given what the locker has answered.\<close>

lemma node_claims_run:
  assumes inv: "node_claims D lid sv k p z g" and i: "i < length (gn_runs g)"
    and "run_step ops config sem answered_ops i ((gn_system g)\<lparr>sy_world := w\<rparr>) = Done s'"
    and w: "\<And>l. answer_lock w = Some l \<Longrightarrow> run_claim D lid sv k z (gn_runs g ! i) (gn_calls g i) \<Longrightarrow> lock_claim D lid k l z"
    and c: "c \<in> {gn_calls g i, None}"
  shows "node_claims D lid sv k p z (set_call i c (g\<lparr>gn_system := s'\<lparr>sy_world := NoAnswer\<rparr>\<rparr>))"
proof -
  from run_step_from [OF assms(3)] obtain r where
    r: "sy_runs s' = (gn_runs g)[i := r]" "lock_from w (gn_runs g ! i) r" by auto
  show ?thesis
  proof (rule node_claims_update [OF inv dir_moves_refl i])
    show "uses_lock p lid (gn_runs g ! i) \<and>
      (run_claim D lid sv k z (gn_runs g ! i) (gn_calls g i) \<longrightarrow> run_claim D lid sv k z r c)"
      if "uses_lock p lid r"
      using that r(2) c w by (auto simp: uses_lock_def lock_from_def run_claim_def)
  qed (simp_all add: r(1))
qed

lemma node_claims_call:
  assumes inv: "node_claims D lid sv k p z g" and mv: "dir_moves D z y" and i: "i < length (gn_runs g)"
    and "run_claim D lid sv k z (gn_runs g ! i) (gn_calls g i) \<Longrightarrow> run_claim D lid sv k y (gn_runs g ! i) c"
  shows "node_claims D lid sv k p y (set_call i c g)"
proof -
  have "node_claims D lid sv k p y (set_call i c (g\<lparr>gn_system := gn_system g\<rparr>))"
    by (rule node_claims_update [OF inv mv i, where r = "gn_runs g ! i"])
       (use inv assms(4) in \<open>simp_all add: node_claims_def\<close>)
  then show ?thesis by simp
qed

lemma node_claims_set_run:
  assumes inv: "node_claims D lid sv k p z g" and i: "i < length (gn_runs g)"
    and "cn_useLock t = cn_useLock (rn_conn (gn_runs g ! i))" "cn_name t = cn_name (rn_conn (gn_runs g ! i))"
    and "run_claim D lid sv k z (gn_runs g ! i) (gn_calls g i) \<Longrightarrow> \<exists>l. cn_lock t = Some l \<and> lock_claim D lid k l z"
    and "c \<in> {gn_calls g i, None}"
  shows "node_claims D lid sv k p z (set_call i c (set_run i t g))"
  unfolding set_run_def
  by (rule node_claims_update [OF inv dir_moves_refl i, where r = "(gn_runs g ! i)\<lparr>rn_conn := t\<rparr>"])
     (use inv assms(3-6) in \<open>auto simp: node_claims_def uses_lock_def run_claim_def\<close>)

lemma node_claims_step:
  assumes svc: "sequential_service D lid svc env"
    and "node_step ops cops config sem (svc k) z g z' g'"
    and inv: "node_claims D lid (svc k) k (gc_ZookeeperPrefix config) z g"
  shows "node_claims D lid (svc k) k (gc_ZookeeperPrefix config) z' g' \<and> dir_moves D z z'"
  using assms(2)
proof (cases rule: node_step.cases)
  case (message msg m')
  from node_claims_message [OF inv message(3)] message(1,2) show ?thesis
    by simp
next
  case (run i s')
  have w: "(gn_system g)\<lparr>sy_world := NoAnswer\<rparr> = gn_system g" using inv by (simp add: node_claims_def)
  have "s'\<lparr>sy_world := NoAnswer\<rparr> = s'"
    using run_step_from [OF run(5)] inv by (auto simp: node_claims_def)
  with node_claims_run [OF inv run(3), of _ _ _ NoAnswer s' "gn_calls g i"] run(1,2,5) w show ?thesis
    by (simp add: reflpD [OF reflp_dir_moves] set_call_def)
next
  case (touch i t)
  have "node_claims D lid (svc k) k (gc_ZookeeperPrefix config) z (set_call i (gn_calls g i) (set_run i t g))"
    by (rule node_claims_set_run [OF inv touch(3)]) (use touch in \<open>auto simp: run_claim_def conn_touched_def\<close>)
  with touch(1,2) show ?thesis by (simp add: set_call_def set_run_def)
next
  case (begin_call i call)
  have "run_claim D lid (svc k) k z (gn_runs g ! i) (Some call)"
    if "run_claim D lid (svc k) k z (gn_runs g ! i) (gn_calls g i)"
    using that due_call_wp [OF svc begin_call(5)] by (auto simp: run_claim_def)
  from node_claims_call [OF inv dir_moves_refl begin_call(3) this] begin_call(1,2) show ?thesis by simp
next
  case (begin_watch i l)
  have "run_claim D lid (svc k) k z (gn_runs g ! i) (Some (WatchCall (Unlock l)))"
    if "run_claim D lid (svc k) k z (gn_runs g ! i) (gn_calls g i)"
    using that Unlock_wp [OF svc] begin_watch(5) by (auto simp: run_claim_def)
  from node_claims_call [OF inv dir_moves_refl begin_watch(3) this] begin_watch(1,2) show ?thesis by simp
next
  case (zookeeper i call call')
  have "zk_moves (svc k) (dir_moves D)" using svc by (simp add: sequential_service_def)
  from call_step_moves [OF this zookeeper(4)] have mv: "dir_moves D z z'" .
  have "run_claim D lid (svc k) k z' (gn_runs g ! i) (Some call')"
    if "run_claim D lid (svc k) k z (gn_runs g ! i) (gn_calls g i)"
    using run_claim_stable [OF that mv] that call_wp_step [OF _ zookeeper(4)] zookeeper(3)
    by (auto simp: run_claim_def)
  from node_claims_call [OF inv mv zookeeper(2) this] zookeeper(1) mv show ?thesis by simp
next
  case (return_call i call w s')
  from node_claims_run [OF inv return_call(3,6)] call_wp_answer [OF _ return_call(5)] return_call(1,2,4)
  show ?thesis by (fastforce simp: run_claim_def)
next
  case (return_watch i e l)
  have "node_claims D lid (svc k) k (gc_ZookeeperPrefix config) z
      (set_call i None (set_run i ((rn_conn (gn_runs g ! i))\<lparr>cn_lock := Some l\<rparr>) g))"
    by (rule node_claims_set_run [OF inv return_watch(3)]) (use return_watch(4) in \<open>auto simp: run_claim_def\<close>)
  with return_watch(1,2) show ?thesis by simp
qed


section \<open>The cluster\<close>

definition cluster_inv :: "client_ops \<Rightarrow> ('h, 'c) cache_ops \<Rightarrow> (nat \<Rightarrow> gateway_config) \<Rightarrow> 'm semaphore \<Rightarrow>
    'c \<Rightarrow> 'm \<Rightarrow> 'z lock_dir \<Rightarrow> string \<Rightarrow> (nat \<Rightarrow> 'z zk_service) \<Rightarrow> ('h, 'c, 'm, 'z) cluster \<Rightarrow> bool" where
  "cluster_inv ops cops config sem c x D lid svc cl \<longleftrightarrow>
     (\<forall>k. node_runs ops cops (config k) sem c x (cl_nodes cl k) \<and>
       node_claims D lid (svc k) k (gc_ZookeeperPrefix (config k)) (cl_zk cl) (cl_nodes cl k))"

lemma cluster_inv_init: "cluster_inv ops cops config sem c x D lid svc (cluster_init z c x)"
  by (simp add: cluster_inv_def cluster_init_def node_runs_def node_claims_def conn_system_init_def
      gateway_reachable.start)

lemma cluster_inv_step:
  assumes svc: "sequential_service D lid svc env"
    and "cluster_step ops cops config sem svc env cl cl'"
    and inv: "cluster_inv ops cops config sem c x D lid svc cl"
  shows "cluster_inv ops cops config sem c x D lid svc cl'"
  using assms(2)
proof (cases rule: cluster_step.cases)
  case (gateway k z' g')
  have k: "node_runs ops cops (config k) sem c x (cl_nodes cl k)"
    "node_claims D lid (svc k) k (gc_ZookeeperPrefix (config k)) (cl_zk cl) (cl_nodes cl k)"
    using inv by (simp_all add: cluster_inv_def)
  from node_claims_step [OF svc gateway(2) k(2)] node_runs_step [OF gateway(2) k(1)] inv gateway(1)
  show ?thesis by (auto simp: cluster_inv_def intro: node_claims_stable)
next
  case (ensemble z')
  have "dir_moves D (cl_zk cl) z'" using svc ensemble(2) by (simp add: sequential_service_def)
  with inv ensemble(1) show ?thesis by (auto simp: cluster_inv_def intro: node_claims_stable)
qed

lemma cluster_inv_reachable:
  assumes "sequential_service D lid svc env"
    and "cluster_reachable ops cops config sem svc env (cluster_init z c x) cl"
  shows "cluster_inv ops cops config sem c x D lid svc cl"
  using assms(2)
proof (induction rule: cluster_reachable.induct)
  case start
  show ?case by (rule cluster_inv_init)
next
  case (step cl cl')
  show ?case by (rule cluster_inv_step [OF assms(1) step.hyps(2) step.IH])
qed

text \<open>A connection whose lock instance has a node that still exists.\<close>

definition lock_live :: "'z lock_dir \<Rightarrow> string \<Rightarrow> 'z \<Rightarrow> ('h, zk_lock) conn_run \<Rightarrow> bool" where
  "lock_live D lid z r \<longleftrightarrow>
     (case cn_lock (rn_conn r) of
        None \<Rightarrow> False
      | Some l \<Rightarrow> zl_lockPath l \<noteq> [] \<and> ld_nodes D z (drop (Suc (length lid)) (zl_lockPath l)) \<noteq> None)"

lemma lock_live_node:
  assumes "run_claim D lid sv k z r c" and "lock_live D lid z r"
  shows "\<exists>l n. lock_claim D lid k l z \<and> zl_lockPath l = lid @ ''/'' @ n \<and> ld_nodes D z n \<noteq> None"
proof -
  from assms(1) obtain l where l: "cn_lock (rn_conn r) = Some l" "lock_claim D lid k l z"
    by (auto simp: run_claim_def)
  with assms(2) obtain n where n: "zl_lockPath l = lid @ ''/'' @ n"
    by (auto simp: lock_live_def lock_claim_def)
  with assms(2) l have "ld_nodes D z n \<noteq> None" by (simp add: lock_live_def)
  with l(2) n show ?thesis by blast
qed

text \<open>
  One live lock. In a cluster, the connections to one target whose lock nodes exist belong to
  one gateway.
\<close>

lemma cluster_live_lock_unique:
  assumes svc: "sequential_service D lid svc env" and inv: "cluster_inv ops cops config sem c x D lid svc cl"
    and "r \<in> set (gn_runs (cl_nodes cl j))" "uses_lock (gc_ZookeeperPrefix (config j)) lid r"
      "lock_live D lid (cl_zk cl) r"
    and "r' \<in> set (gn_runs (cl_nodes cl k))" "uses_lock (gc_ZookeeperPrefix (config k)) lid r'"
      "lock_live D lid (cl_zk cl) r'"
  shows "j = k"
proof -
  have "\<exists>c. run_claim D lid (svc i) i (cl_zk cl) q c"
    if "q \<in> set (gn_runs (cl_nodes cl i))" "uses_lock (gc_ZookeeperPrefix (config i)) lid q" for q i
    using that inv unfolding cluster_inv_def node_claims_def by (metis in_set_conv_nth)
  with assms(3-8) lock_live_node obtain l n l' m where
    "lock_claim D lid j l (cl_zk cl) \<and> zl_lockPath l = lid @ ''/'' @ n \<and> ld_nodes D (cl_zk cl) n \<noteq> None"
    "lock_claim D lid k l' (cl_zk cl) \<and> zl_lockPath l' = lid @ ''/'' @ m \<and> ld_nodes D (cl_zk cl) m \<noteq> None"
    by metis
  then show ?thesis using lock_claims_unique [OF svc] by blast
qed

section \<open>One gateway forwards\<close>

definition node_forwards :: "('h, 'c, 'm) gateway_node \<Rightarrow> string \<Rightarrow> bool" where
  "node_forwards g tgt = Forwardable ((gn_manager g)\<lparr>mg_runs := gn_runs g\<rparr>) tgt"

text \<open>
  C6: two gateways export a target only after a lock node was lost. In a cluster on one
  Zookeeper ensemble, with control messages, goroutines, lock calls, lock watchers and expiring
  sessions interleaved call by call, whenever two gateways both forward the updates of a target
  whose connections all use its lock, one of the two has an owner of the target whose lock node
  no longer exists: its session has expired or its watcher has given the node back, and the
  gateway has not reacted yet.
\<close>

theorem one_gateway_forwards:
  assumes "sequential_service D lid svc env"
    and "cluster_reachable ops cops config sem svc env (cluster_init z c x) cl"
    and "slot_semaphore sem held limit" and "held x = 0"
    and "tgt \<notin> {''*'', []}" and "j \<noteq> k"
    and "node_forwards (cl_nodes cl j) tgt" and "node_forwards (cl_nodes cl k) tgt"
    and "\<forall>i \<in> {j, k}. \<forall>r \<in> set (gn_runs (cl_nodes cl i)). owns_target r tgt \<longrightarrow>
      uses_lock (gc_ZookeeperPrefix (config i)) lid r"
  shows "\<exists>i \<in> {j, k}. \<exists>r \<in> set (gn_runs (cl_nodes cl i)). owns_target r tgt \<and> \<not> lock_live D lid (cl_zk cl) r"
proof (rule ccontr)
  assume n: "\<not> ?thesis"
  note inv = cluster_inv_reachable [OF assms(1,2)]
  have own: "\<exists>r \<in> set (gn_runs (cl_nodes cl i)). owns_target r tgt" if "node_forwards (cl_nodes cl i) tgt" for i
  proof -
    have "node_runs ops cops (config i) sem c x (cl_nodes cl i)" using inv by (simp add: cluster_inv_def)
    from forwardable_owned [OF this [unfolded node_runs_def] assms(3,4) that [unfolded node_forwards_def] assms(5)]
    show ?thesis .
  qed
  from own [OF assms(7)] own [OF assms(8)] n assms(9) obtain r r' where
    "r \<in> set (gn_runs (cl_nodes cl j))" "uses_lock (gc_ZookeeperPrefix (config j)) lid r" "lock_live D lid (cl_zk cl) r"
    "r' \<in> set (gn_runs (cl_nodes cl k))" "uses_lock (gc_ZookeeperPrefix (config k)) lid r'" "lock_live D lid (cl_zk cl) r'"
    by auto
  from cluster_live_lock_unique [OF assms(1) inv this] assms(6) show False by simp
qed

text \<open>A gateway of a cluster, while the others stand still.\<close>

definition with_node :: "('h, 'c, 'm, 'z) cluster \<Rightarrow> nat \<Rightarrow> 'z \<Rightarrow> ('h, 'c, 'm) gateway_node \<Rightarrow> ('h, 'c, 'm, 'z) cluster" where
  "with_node cl k z g = cl\<lparr>cl_zk := z, cl_nodes := (cl_nodes cl)(k := g)\<rparr>"

lemma reachable_node:
  assumes "cluster_reachable ops cops config sem svc env c0 (with_node cl k z g)"
    and "node_step ops cops (config k) sem (svc k) z g z' g'"
  shows "cluster_reachable ops cops config sem svc env c0 (with_node cl k z' g')"
proof -
  have "cluster_step ops cops config sem svc env (with_node cl k z g)
      ((with_node cl k z g)\<lparr>cl_zk := z', cl_nodes := (cl_nodes (with_node cl k z g))(k := g')\<rparr>)"
    by (rule cluster_step.gateway) (use assms(2) in \<open>simp add: with_node_def\<close>)
  from cluster_reachable.step [OF assms(1) this] show ?thesis by (simp add: with_node_def)
qed

lemma reachable_zookeeper:
  "cluster_reachable ops cops config sem svc env c0 (with_node cl k z (set_call i (Some (TryCall p)) g)) \<Longrightarrow>
   i < length (gn_runs g) \<Longrightarrow> zk_steps (svc k) n p z = (q, z') \<Longrightarrow>
   cluster_reachable ops cops config sem svc env c0 (with_node cl k z' (set_call i (Some (TryCall q)) g))"
proof (induction n arbitrary: p z)
  case (Suc n)
  obtain p1 z1 where s: "zk_step (svc k) p z = (p1, z1)" by fastforce
  have "node_step ops cops (config k) sem (svc k) z (set_call i (Some (TryCall p)) g) z1
      (set_call i (Some (TryCall p1)) (set_call i (Some (TryCall p)) g))"
    by (rule node_step.zookeeper [of _ _ "TryCall p"]) (use Suc.prems(2) s in \<open>simp_all add: set_call_def\<close>)
  from reachable_node [OF Suc.prems(1) this]
  have "cluster_reachable ops cops config sem svc env c0 (with_node cl k z1 (set_call i (Some (TryCall p1)) g))"
    by (simp add: set_call_def)
  from Suc.IH [OF this Suc.prems(2)] Suc.prems(3) s show ?case by simp
qed simp


text \<open>An example: a gateway with one target takes the free lock and subscribes.\<close>

abbreviation example_conn_r1 :: "(string, zk_lock) conn" where
  "example_conn_r1 \<equiv> new_conn zero_gateway_config True ''r1'' None example_target ''r1''"

definition example_node :: "(string, log_cache, nat) gateway_node" where
  "example_node = \<lparr>gn_manager = NewZookeeperConnectionManagerDefault [] True,
     gn_system = conn_system_init 0 NoAnswer, gn_calls = (\<lambda>_. None)\<rparr>"

definition example_at :: "(string, zk_lock) conn \<Rightarrow> bool \<Rightarrow> loop_at \<Rightarrow> nat \<Rightarrow> nat \<Rightarrow> (string, log_cache, nat) gateway_node" where
  "example_at t slot at m n =
     \<lparr>gn_manager = \<lparr>mg_cache = [], mg_connections = [(''r1'', 0)], mg_runs = [loop_started example_conn_r1], mg_zkConn = True\<rparr>,
      gn_system = \<lparr>sy_runs = [\<lparr>rn_conn = t, rn_slot = slot, rn_at = at\<rparr>], sy_sem = m,
        sy_world = NoAnswer, sy_fresh = n\<rparr>, gn_calls = (\<lambda>_. None)\<rparr>"

abbreviation example_step :: "nat \<Rightarrow> mem_zk \<Rightarrow> (string, log_cache, nat) gateway_node \<Rightarrow> mem_zk \<Rightarrow>
    (string, log_cache, nat) gateway_node \<Rightarrow> bool" where
  "example_step k \<equiv> node_step example_client_ops log_cache_ops zero_gateway_config (counter_semaphore 1)
     (mem_service ''/target/r1'' k)"

lemma example_message: "example_step k z example_node z (example_at example_conn_r1 False LoopHead 0 0)"
proof -
  have "handleTargetControlMsg example_client_ops log_cache_ops zero_gateway_config insert_r1
      ((gn_manager example_node)\<lparr>mg_runs := gn_runs example_node\<rparr>) =
    Done \<lparr>mg_cache = [], mg_connections = [(''r1'', 0)], mg_runs = [loop_started example_conn_r1], mg_zkConn = True\<rparr>"
    by (simp add: handleTargetControlMsg_def insert_r1_def insert_target_def example_node_def example_target_def
        NewZookeeperConnectionManagerDefault_def log_cache_ops_def conn_system_init_def)
  from node_step.message [OF this] show ?thesis
    by (simp add: example_at_def example_node_def conn_system_init_def loop_started_def)
qed

lemma example_conn_r1:
  "cn_useLock example_conn_r1" "\<not> cn_lockAcquired example_conn_r1" "\<not> cn_stopped example_conn_r1"
  "cn_name example_conn_r1 = ''r1''" "\<not> cn_clusterMember example_conn_r1"
  "cn_lock example_conn_r1 = Some (NewZookeeperNonBlockingLock ''/target/r1'' (CHR '':'' # nat_digits 0))"
  by (simp_all add: new_conn_def example_target_def zero_gateway_config_def MakeTargetLockPath_def Itoa_def
      trim_right_char_def)

lemma example_gateway_run:
  assumes "run_step example_client_ops zero_gateway_config (counter_semaphore 1) answered_ops 0
      (gn_system (example_at t slot at m n)) = Done (gn_system (example_at t' slot' at' m' n'))"
    and "due_call \<lparr>rn_conn = t, rn_slot = slot, rn_at = at\<rparr> = None"
  shows "example_step k z (example_at t slot at m n) z (example_at t' slot' at' m' n')"
proof -
  have "example_step k z (example_at t slot at m n) z
      ((example_at t slot at m n)\<lparr>gn_system := gn_system (example_at t' slot' at' m' n')\<rparr>)"
    using assms by (intro node_step.run [of 0]) (simp_all add: example_at_def)
  then show ?thesis by (simp add: example_at_def)
qed

lemma example_slot:
  "example_step k z (example_at example_conn_r1 False LoopHead 0 0) z (example_at example_conn_r1 False LoopSlot 0 1)"
  "example_step k z (example_at example_conn_r1 False LoopSlot 0 1) z (example_at example_conn_r1 True LoopLock 1 2)"
  by (rule example_gateway_run; simp add: example_at_def due_call_def run_step_def connectWithLock_step_def head_step_def
      ConnLoop.slot_step_def counter_semaphore_def example_conn_r1)+

abbreviation example_reachable :: "(string, log_cache, nat, mem_zk) cluster \<Rightarrow> (string, log_cache, nat, mem_zk) cluster \<Rightarrow> bool" where
  "example_reachable \<equiv> cluster_reachable example_client_ops log_cache_ops (\<lambda>_. zero_gateway_config)
     (counter_semaphore 1) (mem_service ''/target/r1'') mem_expire"

text \<open>The lock is taken: \<open>t\<close> is the connection with the instance that \<open>Try\<close> returned.\<close>

lemma example_try:
  fixes k :: nat and z :: mem_zk
  assumes "example_reachable c0 (with_node cl k z (example_at example_conn_r1 True LoopLock 1 2))"
    and z: "\<not> live z" "length z < 2 ^ 31"
  shows "\<exists>l. zl_acquired l \<and> example_reachable c0 (with_node cl k (z @ [Some k])
        (example_at (example_conn_r1\<lparr>cn_lock := Some l, cn_lockAcquired := True\<rparr>) True LoopLocked 1 3))"
proof -
  let ?l = "NewZookeeperNonBlockingLock ''/target/r1'' (CHR '':'' # nat_digits 0)"
  let ?g = "example_at example_conn_r1 True LoopLock 1 2"
  note l = example_conn_r1(6)
  have id: "zl_id ?l = ''/target/r1''" "zl_lockPath ?l = []" "\<not> zl_acquired ?l"
    by (simp_all add: NewZookeeperNonBlockingLock_def trim_char_def trim_left_char_def trim_right_char_def)
  have due: "due_call (gn_runs ?g ! 0) = Some (TryCall (Try ?l))"
    using example_conn_r1 by (simp add: due_call_def example_at_def)
  have b: "example_step k z ?g z (set_call 0 (Some (TryCall (Try ?l))) ?g)"
    using due by (intro node_step.begin_call) (simp_all add: example_at_def)
  obtain l' where t: "run_zk (mem_service ''/target/r1'' k) (Try ?l) z = ((True, None, l'), z @ [Some k])" "zl_acquired l'"
    using mem_try_eq [OF id(2,3) z(2), of k] z(1) id(1) by (auto simp: zk_try_def split: prod.splits)
  obtain n where n: "zk_steps (mem_service ''/target/r1'' k) n (Try ?l) z = (ZkReturn (True, None, l'), z @ [Some k])"
    using zk_steps_run [of "mem_service ''/target/r1'' k" "Try ?l" z] t(1) by auto
  let ?t = "example_conn_r1\<lparr>cn_lock := Some l', cn_lockAcquired := True\<rparr>"
  let ?c = "set_call 0 (Some (TryCall (ZkReturn (True, None, l')))) ?g"
  have "example_step k (z @ [Some k]) ?c (z @ [Some k])
      (set_call 0 None (?c\<lparr>gn_system := (gn_system (example_at ?t True LoopLocked 1 3))\<lparr>sy_world := NoAnswer\<rparr>\<rparr>))"
    by (rule node_step.return_call [where call = "TryCall (ZkReturn (True, None, l'))" and w = "TryAnswer (True, None, l')"])
       (use example_conn_r1 in \<open>simp_all add: set_call_def example_at_def run_step_def connectWithLock_step_def
          lock_step_def answered_ops_def\<close>)
  then have r: "example_step k (z @ [Some k]) ?c (z @ [Some k]) (example_at ?t True LoopLocked 1 3)"
    by (simp add: set_call_def example_at_def fun_upd_idem)
  have "example_reachable c0 (with_node cl k (z @ [Some k]) ?c)"
    by (rule reachable_zookeeper [OF reachable_node [OF assms(1) b] _ n]) (simp add: example_at_def)
  from reachable_node [OF this r] t(2) show ?thesis by blast
qed


text \<open>It connects, and then the gateway forwards the target.\<close>

lemma example_connects:
  "\<exists>q t'. doConnect example_client_ops zero_gateway_config 4
      (example_conn_r1\<lparr>cn_lock := Some l, cn_lockAcquired := True\<rparr>) = (Subscribes q, t') \<and>
    cn_queryTarget t' = ''r1'' \<and> cn_lock t' = Some l \<and> cn_lockAcquired t' \<and> cn_useLock t' \<and>
    \<not> cn_clusterMember t' \<and> cn_name t' = ''r1''"
  by (simp add: doConnect_def connect_query_def example_client_ops_def example_target_def
      warn_no_tls_def has_meta_def query_target_def prefix_target_def zero_gateway_config_def new_conn_def Let_def)

lemma example_forwards:
  assumes "example_reachable c0 cl" and "cl_nodes cl k = example_node"
    and "\<not> live (cl_zk cl)" "length (cl_zk cl) < 2 ^ 31"
  shows "\<exists>g r. example_reachable c0 (with_node cl k (cl_zk cl @ [Some k]) g) \<and>
    node_forwards g ''r1'' \<and> gn_runs g = [r] \<and> uses_lock [] ''/target/r1'' r"
proof -
  have "with_node cl k (cl_zk cl) example_node = cl" using assms(2) by (simp add: with_node_def fun_upd_idem)
  with assms(1) have "example_reachable c0 (with_node cl k (cl_zk cl) example_node)" by simp
  from reachable_node [OF reachable_node [OF reachable_node [OF this example_message] example_slot(1)] example_slot(2)]
  obtain l where l: "zl_acquired l" "example_reachable c0 (with_node cl k (cl_zk cl @ [Some k])
      (example_at (example_conn_r1\<lparr>cn_lock := Some l, cn_lockAcquired := True\<rparr>) True LoopLocked 1 3))"
    using example_try [OF _ assms(3,4)] by blast
  let ?t = "example_conn_r1\<lparr>cn_lock := Some l, cn_lockAcquired := True\<rparr>"
  obtain q t' where t': "doConnect example_client_ops zero_gateway_config 4 ?t = (Subscribes q, t')"
      "cn_queryTarget t' = ''r1''" "cn_lockAcquired t'" "cn_useLock t'" "\<not> cn_clusterMember t'" "cn_name t' = ''r1''"
    using example_connects by blast
  have s1: "example_step k z (example_at ?t True LoopLocked 1 3) z (example_at ?t True LoopConnect 1 4)" for z
    by (rule example_gateway_run) (use example_conn_r1 in \<open>simp_all add: example_at_def due_call_def run_step_def
      connectWithLock_step_def\<close>)
  have s2: "example_step k z (example_at ?t True LoopConnect 1 4) z (example_at t' True LoopSubscribed 1 5)" for z
    by (rule example_gateway_run) (use example_conn_r1 t' in \<open>simp_all add: example_at_def due_call_def run_step_def
      connectWithLock_step_def attempt_step_def\<close>)
  have "target_lock_id [] ''r1'' = ''/target/r1''" by code_simp
  then have u: "uses_lock [] ''/target/r1'' \<lparr>rn_conn = t', rn_slot = True, rn_at = LoopSubscribed\<rparr>"
    using t' by (simp add: uses_lock_def)
  have f: "node_forwards (example_at t' True LoopSubscribed 1 5) ''r1''"
    using t' by (simp add: node_forwards_def Forwardable_def example_at_def conn_at_def)
  from reachable_node [OF reachable_node [OF l(2) s1] s2] f u show ?thesis
    by (intro exI conjI) (auto simp: example_at_def)
qed

text \<open>
  The first gateway takes the lock and forwards, its session expires, and the second gateway
  takes the lock and forwards while the first has not noticed.
\<close>

theorem one_gateway_forwards_witness:
  "\<exists>(cl :: (string, log_cache, nat, mem_zk) cluster) i r.
     example_reachable (cluster_init [] [] 0) cl \<and>
     node_forwards (cl_nodes cl 0) ''r1'' \<and> node_forwards (cl_nodes cl 1) ''r1'' \<and>
     i \<in> {0, 1} \<and> r \<in> set (gn_runs (cl_nodes cl i)) \<and> owns_target r ''r1'' \<and>
     \<not> lock_live mem_dir ''/target/r1'' (cl_zk cl) r"
proof -
  let ?c0 = "cluster_init [] [] 0 :: (string, log_cache, nat, mem_zk) cluster"
  have n0: "cl_nodes ?c0 k = example_node" for k by (simp add: cluster_init_def example_node_def)
  obtain g0 r0 where g0: "example_reachable ?c0 (with_node ?c0 0 [Some 0] g0)" "node_forwards g0 ''r1''"
      "gn_runs g0 = [r0]" "uses_lock [] ''/target/r1'' r0"
    using example_forwards [OF cluster_reachable.start n0, of 0] by (auto simp: cluster_init_def live_def)
  let ?c1 = "(with_node ?c0 0 [Some 0] g0)\<lparr>cl_zk := [None]\<rparr>"
  have "mem_expire (cl_zk (with_node ?c0 0 [Some 0] g0)) [None]" by (simp add: with_node_def mem_expire_def)
  then have "cluster_step example_client_ops log_cache_ops (\<lambda>_. zero_gateway_config) (counter_semaphore 1)
      (mem_service ''/target/r1'') mem_expire (with_node ?c0 0 [Some 0] g0) ?c1"
    by (rule cluster_step.ensemble)
  with g0(1) have c1: "example_reachable ?c0 ?c1" by (rule cluster_reachable.step)
  have "cl_nodes ?c1 1 = example_node" using n0 by (simp add: with_node_def)
  from example_forwards [OF c1 this] obtain g1 r1 where
    g1: "example_reachable ?c0 (with_node ?c1 1 ([None] @ [Some 1]) g1)" "node_forwards g1 ''r1''"
      "gn_runs g1 = [r1]" "uses_lock [] ''/target/r1'' r1"
    by (auto simp: live_def)
  let ?c2 = "with_node ?c1 1 ([None] @ [Some 1]) g1"
  have nodes: "cl_nodes ?c2 0 = g0" "cl_nodes ?c2 1 = g1" by (simp_all add: with_node_def)
  have "\<exists>i \<in> {0, 1}. \<exists>r \<in> set (gn_runs (cl_nodes ?c2 i)).
      owns_target r ''r1'' \<and> \<not> lock_live mem_dir ''/target/r1'' (cl_zk ?c2) r"
    by (rule one_gateway_forwards [OF mem_sequential_service g1(1) counter_semaphore_ok])
       (use g0 g1 nodes in \<open>simp_all add: zero_gateway_config_def\<close>)
  with g1(1,2) g0(2) nodes show ?thesis by metis
qed

end
