(* ===== verification/Pipeline.thy ===== *)
theory Pipeline
  imports Gateway GatewayCluster
begin

text \<open>
  From a device to the clients of the cache: \<open>handleUpdate\<close> of the connection
  (\<open>connections/state.go\<close>), \<open>Forwardable\<close> of the manager (\<open>connections/zookeeper.go\<close>) and
  \<open>sendUpdateToClients\<close> (\<open>gateway.go\<close>) on one notification.
\<close>

section \<open>What a connection puts into the cache\<close>

definition cached_notification :: "string \<Rightarrow> notification \<Rightarrow> notification" where
  "cached_notification queryTarget n = (if queryTarget = ''*'' then n else with_target queryTarget n)"

lemma same_metrics: "\<exists>ms. t = t\<lparr>cn_metrics := ms\<rparr>"
  by (rule exI [of _ "cn_metrics t"]) simp

lemma handle_cache_errors_metrics: "\<exists>ms. snd (handle_cache_errors t errs) = t\<lparr>cn_metrics := ms\<rparr>"
proof (induction errs arbitrary: t)
  case (Cons e errs)
  show ?case
  proof (cases "e = ''update is stale''")
    case True
    with Cons.IH [of "count_metric CounterStale t"] show ?thesis
      by (simp add: handleCacheError_def count_metric_def)
  next
    case False
    then have "snd (handle_cache_errors t (e # errs)) = t" by (simp add: handleCacheError_def)
    then show ?thesis using same_metrics [of t] by (simp only:)
  qed
next
  case Nil
  show ?case using same_metrics [of t] by (simp only: handle_cache_errors.simps snd_conv)
qed

lemma handleCacheError_metrics: "\<exists>ms. snd (handleCacheError t err) = t\<lparr>cn_metrics := ms\<rparr>"
proof (cases "err = ''update is stale''")
  case True
  then show ?thesis
    by (intro exI [of _ "cn_metrics t @ [CounterStale]"]) (simp add: handleCacheError_def count_metric_def)
next
  case False
  then have "snd (handleCacheError t err) = t" by (simp add: handleCacheError_def)
  then show ?thesis using same_metrics [of t] by (simp only:)
qed

lemma updateTargetCache_result:
  assumes "updateTargetCache cops show_val h n t c = Done (err, t', c')"
  shows "(\<exists>ms. t' = t\<lparr>cn_metrics := ms\<rparr>) \<and> c' = snd (co_GnmiUpdate cops h n c)"
proof -
  obtain e c1 where g: "co_GnmiUpdate cops h n c = (e, c1)" by fastforce
  show ?thesis
  proof (cases e)
    case None
    with assms g show ?thesis
      by (auto simp: updateTargetCache_def intro: exI [of _ "cn_metrics t"])
  next
    case (Some x)
    let ?r = "case x of ErrList errs \<Rightarrow> handle_cache_errors t errs | PlainError e \<Rightarrow> handleCacheError t e"
    have "\<exists>ms. snd ?r = t\<lparr>cn_metrics := ms\<rparr>"
      using handle_cache_errors_metrics handleCacheError_metrics by (cases x) simp_all
    with assms g Some show ?thesis
      by (cases ?r; cases "fst ?r") (auto simp: updateTargetCache_def go_simps)
  qed
qed

text \<open>What \<open>handleUpdate\<close> does before it looks at the query.\<close>

lemma handleUpdate_counted:
  assumes "\<not> rejectUpdate config (Some n)"
    and "handleUpdate cops show_val config now (ResponseMsg (Some (ResponseUpdate (Some n)))) t c = Done r"
  shows "\<exists>ms c1. (if cn_queryTarget t = ''*''
      then update_any_target cops show_val n (t\<lparr>cn_connected := True, cn_metrics := ms\<rparr>) c1
      else updateTargetCache cops show_val (cn_targetCache t) (with_target (cn_queryTarget t) n)
        (t\<lparr>cn_connected := True, cn_metrics := ms\<rparr>) c1) = Done r"
proof -
  obtain t1 c1 where m: "mark_connected cops (count_metric CounterNotifications t) c = (t1, c1)" by fastforce
  obtain ms where t2: "count_update now n t1 = t1\<lparr>cn_metrics := ms\<rparr>" using count_update_metrics by blast
  have "cn_connected t \<Longrightarrow> t\<lparr>cn_connected := True\<rparr> = t" by simp
  then have t1: "t1\<lparr>cn_metrics := ms\<rparr> = t\<lparr>cn_connected := True, cn_metrics := ms\<rparr>"
    using m by (auto simp: mark_connected_def count_metric_def split: if_splits)
  have "cn_queryTarget t1 = cn_queryTarget t" "cn_targetCache t1 = cn_targetCache t"
    using m by (auto simp: mark_connected_def split: if_splits)
  moreover have "handle_notification cops show_val config now (Some n) t1 c1 = Done r"
    using assms(2) m by (simp add: handleUpdate_def)
  ultimately have "(if cn_queryTarget t = ''*'' then update_any_target cops show_val n (t1\<lparr>cn_metrics := ms\<rparr>) c1
      else updateTargetCache cops show_val (cn_targetCache t) (with_target (cn_queryTarget t) n)
        (t1\<lparr>cn_metrics := ms\<rparr>) c1) = Done r"
    using assms(1)
    by (cases "cn_queryTarget t = ''*''") (simp_all add: handle_notification_def t2 Let_def)
  then show ?thesis unfolding t1 by blast
qed

lemma handleUpdate_single_target:
  assumes "\<not> rejectUpdate config (Some n)"
    and "handleUpdate cops show_val config now (ResponseMsg (Some (ResponseUpdate (Some n)))) t c = Done (err, t', c')"
    and "cn_queryTarget t \<noteq> ''*''"
  shows "\<exists>ms c1. t' = t\<lparr>cn_connected := True, cn_metrics := ms\<rparr> \<and>
    c' = snd (co_GnmiUpdate cops (cn_targetCache t) (with_target (cn_queryTarget t) n) c1)"
  using handleUpdate_counted [OF assms(1,2)] assms(3) by (auto dest!: updateTargetCache_result)

lemma handleUpdate_any_target:
  assumes "\<not> rejectUpdate config (Some n)"
    and "handleUpdate cops show_val config now (ResponseMsg (Some (ResponseUpdate (Some n)))) t c = Done (err, t', c')"
    and "cn_queryTarget t = ''*''"
  shows "\<exists>p ms h c1. n_Prefix n = Some p \<and>
    t' = t\<lparr>cn_connected := True, cn_metrics := ms, cn_seen := gomap_set (p_Target p) True (cn_seen t)\<rparr> \<and>
    c' = snd (co_GnmiUpdate cops h n c1)"
proof -
  obtain ms c1 where u: "update_any_target cops show_val n (t\<lparr>cn_connected := True, cn_metrics := ms\<rparr>) c1 =
      Done (err, t', c')"
    using handleUpdate_counted [OF assms(1,2)] assms(3) by auto
  then obtain p where p: "n_Prefix n = Some p"
    by (auto simp: update_any_target_def go_simps)
  obtain h c2 where "(case co_GetTarget cops (p_Target p) c1 of Some h \<Rightarrow> (h, c1)
      | None \<Rightarrow> co_Add cops (p_Target p) c1) = (h, c2)" by fastforce
  with u p have "updateTargetCache cops show_val h n
      (t\<lparr>cn_connected := True, cn_metrics := ms, cn_seen := gomap_set (p_Target p) True (cn_seen t)\<rparr>) c2 =
      Done (err, t', c')"
    by (simp add: update_any_target_def)
  from updateTargetCache_result [OF this] obtain ms2 where
    t': "t' = (t\<lparr>cn_connected := True, cn_metrics := ms, cn_seen := gomap_set (p_Target p) True (cn_seen t)\<rparr>)
      \<lparr>cn_metrics := ms2\<rparr>" and c': "c' = snd (co_GnmiUpdate cops h n c2)" by blast
  have "t' = t\<lparr>cn_connected := True, cn_metrics := ms2, cn_seen := gomap_set (p_Target p) True (cn_seen t)\<rparr>"
    using t' by simp
  with p c' show ?thesis by blast
qed

text \<open>
  After an accepted notification the connection serves the target of what it has put into the
  cache, if the device named no other target than the one that is queried.
\<close>

lemma handleUpdate_serves:
  assumes "\<not> rejectUpdate config (Some n)"
    and "handleUpdate cops show_val config now (ResponseMsg (Some (ResponseUpdate (Some n)))) t c = Done (err, t', c')"
    and "\<not> cn_clusterMember t" "cn_useLock t \<longrightarrow> cn_lockAcquired t"
    and "cn_queryTarget t = ''*'' \<or> GetTarget (n_Prefix n) \<in> {[], cn_queryTarget t}"
  shows "serves_target t' (GetTarget (n_Prefix (cached_notification (cn_queryTarget t) n))) \<and>
    (\<exists>h c1. c' = snd (co_GnmiUpdate cops h (cached_notification (cn_queryTarget t) n) c1))"
proof (cases "cn_queryTarget t = ''*''")
  case True
  from handleUpdate_any_target [OF assms(1,2) this] assms(3,4) True show ?thesis
    by (auto simp: serves_target_def Seen_def gomap_index_def gomap_simps cached_notification_def)
next
  case False
  from handleUpdate_single_target [OF assms(1,2) this] assms(3-5) False show ?thesis
    by (auto simp: serves_target_def cached_notification_def with_target_target)
qed



text \<open>
  A device that names itself otherwise is not heard: when the prefix of its notifications has a
  target that no connection queries, they go into the cache of the queried target, but no
  exporter and no other cluster member gets them.
\<close>

lemma foreign_target_not_exported:
  assumes "a < length (mg_runs m)" and "cn_queryTarget (conn_at m a) \<noteq> ''*''"
    and "GetTarget (n_Prefix n) \<notin> {[], ''*''}" and "\<not> Forwardable m (GetTarget (n_Prefix n))"
    and "\<not> rejectUpdate config (Some n)"
    and "handleUpdate cops show_val config now (ResponseMsg (Some (ResponseUpdate (Some n)))) (conn_at m a) c =
      Done (err, t', c')"
    and "tb_External client"
  shows "(\<exists>c1. c' = snd (co_GnmiUpdate cops (cn_targetCache (conn_at m a)) (with_target (cn_queryTarget (conn_at m a)) n) c1)) \<and>
    client_wants (Forwardable (set_conn a t' m))
      (NotificationValue (Some (with_target (cn_queryTarget (conn_at m a)) n))) client = Done False"
proof -
  from handleUpdate_single_target [OF assms(5,6,2)] obtain ms c1 where
    t': "t' = (conn_at m a)\<lparr>cn_connected := True, cn_metrics := ms\<rparr>" and c':
    "c' = snd (co_GnmiUpdate cops (cn_targetCache (conn_at m a)) (with_target (cn_queryTarget (conn_at m a)) n) c1)"
    by blast
  have "serves_target (conn_at (set_conn a t' m) b) tgt = serves_target (conn_at m b) tgt" for b tgt
    using assms(1) t' by (auto simp: conn_at_set serves_target_def Seen_def)
  then have "Forwardable (set_conn a t' m) tgt = Forwardable m tgt" for tgt
    by (simp add: Forwardable_iff)
  with assms(3,4,7) c' show ?thesis
    by (auto simp: client_wants_def leaf_target_def leaf_notification_def with_target_target)
qed

end
