(* ===== verification/Spec2Isabelle.thy ===== *)
theory Spec2Isabelle
  imports Polling Cmdline Pipeline
begin

text \<open>
  \<^bold>\<open>gnmi-gateway: a model of the gateway and its correctness.\<close>

  The program (Go, under \<open>src/gateway\<close>) keeps gNMI subscriptions to network devices (targets),
  stores what they send in a cache, and passes it on to exporters and, through its own gNMI
  server, to subscribers and to the other gateways of a cluster. Target loaders say which targets
  there are; the connection manager runs one goroutine per target, limited by a semaphore and, in
  a cluster, guarded by a lock in Zookeeper; each accepted notification goes into the cache, whose
  callback offers it to the clients of the cache: the gNMI server and the exporters. Other cluster
  members are themselves targets, loaded by the cluster loader.

  \<^bold>\<open>Which theory models what.\<close> A Go function keeps its name; a receiver or shared state is an
  argument that is returned updated; a \<open>panic\<close> (nil dereference, index, explicit) is the
  constructor \<open>Panics\<close> of the type \<open>outcome\<close>, an error value the left of a sum or \<open>Some\<close> of an
  option.

  \<^item> \<open>Prelude\<close>: \<open>outcome\<close>, loops that may panic (\<open>fold_outcome\<close>), Go maps as association lists
    (\<open>gomap\<close>, iterated in list order, so a lemma about every list is about every iteration
    order), machine integers, and the collections \<open>go_simps\<close> and \<open>gomap_simps\<close>.
  \<^item> \<open>GoStrings\<close>, \<open>GoStrconv\<close>, \<open>GoFloat\<close>: the parts of \<open>strings\<close>, \<open>strconv\<close>, \<open>sort\<close> and of float64
    arithmetic the program uses, on byte strings.
  \<^item> \<open>GnmiTypes\<close>: the gNMI and target messages.
  \<^item> \<open>Utils\<close> (\<open>utils/utils.go\<close>): XPaths, pretty printing, numbers of typed values.
  \<^item> \<open>Configuration\<close> (\<open>configuration/config.go\<close>), \<open>Stats\<close> (\<open>stats/spectator.go\<close>), \<open>OpenConfig\<close>
    (\<open>openconfig/types.go\<close>).
  \<^item> \<open>ZkService\<close>: Zookeeper as a record of operations; a method that calls it is a program
    (\<open>zkprog\<close>) whose calls can be interleaved with those of others.
  \<^item> \<open>Locking\<close> (\<open>locking/locker.go\<close>, \<open>local.go\<close>): the interface as the locale \<open>distributed_locker\<close>
    and the in-process lock, an interpretation of it. \<open>ZkLock\<close> (\<open>locking/zookeeper.go\<close>): the
    Zookeeper lock, the other interpretation. \<open>ZkLockSystem\<close>: any number of members, one
    Zookeeper call per step, sessions that expire at any time.
  \<^item> \<open>Clustering\<close> (\<open>clustering/zookeeper.go\<close>): registration and the member callback goroutine.
  \<^item> \<open>ConnState\<close> (\<open>connections/state.go\<close>): one target connection; \<open>ConnLoop\<close> (same file): its
    goroutine as a state machine, and all goroutines over one semaphore and one lock service;
    \<open>ConnManager\<close> (\<open>connections/zookeeper.go\<close>, \<open>manager.go\<close>): control messages, Zookeeper events,
    \<open>Forwardable\<close>, and the states a gateway process can reach. \<open>GatewayCluster\<close>: any number of
    gateway processes over one Zookeeper, whose lock calls are single Zookeeper calls in any
    order; gateway \<open>k\<close> is client \<open>k\<close>.
  \<^item> \<open>Plugins\<close>: the locale of the two name registries. \<open>Loaders\<close> (\<open>loaders\<close> with the JSON, simple,
    NetBox and cluster loader), \<open>Prometheus\<close> (\<open>exporters/prometheus\<close>), \<open>Exporters\<close> (InfluxDB,
    Kafka, debug, and the exporter interface).
  \<^item> \<open>Server\<close> (\<open>server/server.go\<close>): the Subscribe RPC; \<open>Streaming\<close> and \<open>Polling\<close> (same file): the
    goroutines of a ONCE, STREAM and POLL subscription interleaved. \<open>Gateway\<close> (\<open>gateway.go\<close>): the
    clients of the cache and the delivery of updates. \<open>Startup\<close> (\<open>gateway.go\<close>): the start of the
    gateway, its server, Zookeeper events, the local address. \<open>Cmdline\<close> (\<open>main.go\<close>).
  \<^item> \<open>Pipeline\<close>: a notification on its way through connection, manager and clients.

  \<^bold>\<open>What the theorems show.\<close>

  \<^item> Locks: whatever the interleaving, the existing lock nodes that members hold belong to one
    member; an uninterrupted \<open>Try\<close> acquires exactly a free lock; what a failed release leaves.
  \<^item> Connections: the manager refines a map from target names to configurations; the number of
    subscriptions stays below the limit, each under its slot and lock; no target has two live
    connections; a stopped connection ends; what a connection asks of a target, what it caches
    and what it rejects; where handlers panic and where they cannot.
  \<^item> Loaders: the manager has exactly the targets of the last configuration that was loaded, or
    of the members of the cluster.
  \<^item> Delivery: transition buffers lose nothing and invent nothing; updates leave a gateway only
    through a connection of its own that has the lock (\<open>updates_leave_through_owner\<close> below); two
    gateways that forward one target at once have lost the node of one of the locks; what a
    connection to a device accepts is cached and offered to every client.
  \<^item> Server: an RPC starts only when it is permitted, sends only what is permitted, answers ONCE
    subscriptions and patient POLL clients completely and loses no update of a STREAM subscription
    in any interleaving, counts its rejections, and never blocks on its error channel.
  \<^item> Exporters: what is counted, the fields of a point, when an export panics, series identity.
  \<^item> Start: the enabled plugins, the cluster settings, tolerated disconnects, list arguments.

  \<^bold>\<open>Bounds and fuel.\<close> Every loop of the program that may run for ever is a step relation or takes
  the number of its rounds as an argument, and what it must reach is proved with enough of them: a
  stopped connection ends within 8 steps of its loop, since none of its states is farther from the
  end; a ONCE answer of \<open>n\<close> leaves ends after at most \<open>2 n + 4\<close> steps of its two goroutines. The lock
  theorems cover sequence numbers below \<open>2 ^ 31\<close>, the range of Zookeeper's signed counter.
  The member callback gives up at the fifth round after four failed ones, as the code does.
  Integers have the width of their Go types (\<open>int\<close> is 64 bits).

  \<^bold>\<open>What is a parameter.\<close> Code that is not in the repository: the Zookeeper client, the gNMI
  client, cache, match tree, coalescing queue and path package of \<open>openconfig/gnmi\<close>, gRPC, the
  semaphore, YAML, JSON, XPath and YANG parsers, the NetBox, Prometheus, InfluxDB and Kafka
  clients, the flag and environment packages, the file system and the clock. Where a theorem
  needs their documented behaviour it is a named hypothesis (\<open>slot_semaphore\<close>, \<open>coalescing_queue\<close>,
  \<open>receiving_apart\<close>, \<open>closing\<close>, \<open>proper_children\<close>, \<open>gauges_are_counters\<close>), which a witness instantiates.

  \<^bold>\<open>Simplifications.\<close> Log output is left out, and error values carry their cause but not their
  formatted text. Metrics are lists of events. A leaf of the cache is its value, read when it is
  handled. The elements of repeated message fields and the values of target maps are not nil.
  Positive and negative zero of float64 are one value. In \<open>ZkLockSystem\<close> and
  \<open>GatewayCluster\<close> a lock runs one method at a time. \<open>ChildrenW\<close> is \<open>Children\<close>; its watch is the next round. A channel without a
  buffer is a buffer of one.

  \<^bold>\<open>Not modelled.\<close> The data race of \<open>sendUpdateToClients\<close> with \<open>AddClient\<close> on the slice itself; the
  goroutine that reports buffer sizes; the loggers handed to libraries; the profiling web server;
  the import lists of the plugins, the entry point, tests and generated mocks. They carry no state
  of the gateway, or only report it.
\<close>

section \<open>Who forwards the updates of a target\<close>

lemma sent_forwardable:
  assumes "send_round (NewServer limit forwardable cluster) rops lib True cl rp = Done (go_on, rp')"
    and "rp_sent rp' = rp_sent rp @ new" and "ResponseUpdate (Some n) \<in> set new"
  shows "forwardable (GetTarget (n_Prefix n))"
  using send_round_part [OF assms(1)] assms(2,3)
  by (fastforce simp: sender_part_def sends_ok_def list_all_iff NewServer_def notification_prefix_def)

text \<open>
  C5: only the owner of a target passes its updates on. In every state a gateway process can
  reach, an update of a named target goes to an exporter, or to another member of the cluster,
  only if the process has a connection that is not stopped, leads to a device and not to another
  gateway, queries or has seen the target, and, where it uses a lock, is at a point of its loop
  between a successful attempt to take the lock and its release. So no update that comes from
  another gateway is passed on to exporters or gateways.
\<close>

theorem updates_leave_through_owner:
  fixes c :: 'c and w :: 'w
  assumes "gateway_reachable ops cops config sem lk
      (NewZookeeperConnectionManagerDefault c zk :: ('h, 'c) manager) (conn_system_init x w) m s"
    and "slot_semaphore sem held limit" and "held x = 0"
    and "GetTarget (n_Prefix n) \<notin> {''*'', []}"
    and "tb_External client \<and>
        client_wants (Forwardable (m\<lparr>mg_runs := sy_runs s\<rparr>)) (NotificationValue (Some n)) client = Done True \<or>
      send_round (NewServer l (Forwardable (m\<lparr>mg_runs := sy_runs s\<rparr>)) cluster) rops lib True cl rp = Done (go_on, rp') \<and>
        rp_sent rp' = rp_sent rp @ new \<and> ResponseUpdate (Some n) \<in> set new"
  shows "\<exists>r \<in> set (sy_runs s). owns_target r (GetTarget (n_Prefix n))"
proof -
  have "Forwardable (m\<lparr>mg_runs := sy_runs s\<rparr>) (GetTarget (n_Prefix n))"
    using assms(5) by (auto simp: client_wants_def leaf_target_def leaf_notification_def dest: sent_forwardable)
  with assms(4) show ?thesis by (rule forwardable_owned [OF assms(1-3), rotated -1])
qed

theorem updates_leave_through_owner_witness:
  "\<exists>(m :: (string, log_cache) manager) (s :: (string, zk_lock, nat, mem_zk) conn_system) r.
     gateway_reachable example_client_ops log_cache_ops zero_gateway_config (counter_semaphore 1)
       (zk_locker_ops (mem_service ''/target/r1'' 0))
       (NewZookeeperConnectionManagerDefault [] False) (conn_system_init 0 []) m s \<and>
     client_wants (Forwardable (m\<lparr>mg_runs := sy_runs s\<rparr>)) (NotificationValue (Some (note_for ''r1'')))
       (NewCacheClient ''kafka'' True 1) = Done True \<and>
     r \<in> set (sy_runs s) \<and> owns_target r ''r1''"
proof -
  let ?lk = "zk_locker_ops (mem_service ''/target/r1'' 0)"
  let ?m0 = "NewZookeeperConnectionManagerDefault [] False :: (string, log_cache) manager"
  let ?s0 = "conn_system_init 0 [] :: (string, zk_lock, nat, mem_zk) conn_system"
  obtain m where m: "handleTargetControlMsg example_client_ops log_cache_ops zero_gateway_config insert_r1
      (?m0\<lparr>mg_runs := sy_runs ?s0\<rparr>) = Done m" "mg_connections m = [(''r1'', 0)]"
    "mg_runs m = [loop_started (new_conn zero_gateway_config False ''r1'' None example_target ''r1'')]"
    by (simp add: handleTargetControlMsg_def insert_r1_def insert_target_def
        NewZookeeperConnectionManagerDefault_def log_cache_ops_def conn_system_init_def)
  have g: "gateway_reachable example_client_ops log_cache_ops zero_gateway_config (counter_semaphore 1) ?lk
      ?m0 ?s0 m (?s0\<lparr>sy_runs := mg_runs m\<rparr>)"
    by (rule gateway_reachable.message [OF gateway_reachable.start m(1)])
  obtain s where s: "run_steps example_client_ops zero_gateway_config (counter_semaphore 1) ?lk 0 3
      (?s0\<lparr>sy_runs := mg_runs m\<rparr>) = Done s" "cn_queryTarget (rn_conn (sy_runs s ! 0)) = ''r1''"
      "\<not> cn_useLock (rn_conn (sy_runs s ! 0))" "\<not> cn_clusterMember (rn_conn (sy_runs s ! 0))"
    by (simp add: m(3) conn_system_init_def loop_started_def new_conn_def run_step_def connect_step_def
        head_step_def ConnLoop.slot_step_def counter_semaphore_def attempt_step_def doConnect_def
        connect_query_def example_client_ops_def example_target_def warn_no_tls_def has_meta_def
        query_target_def prefix_target_def zero_gateway_config_def Let_def numeral_eq_Suc)
  note r = gateway_reachable_runs [OF g _ s(1)]
  have reach: "gateway_reachable example_client_ops log_cache_ops zero_gateway_config (counter_semaphore 1) ?lk
      ?m0 ?s0 m s"
    by (rule r) (simp add: m(3))
  have t: "GetTarget (n_Prefix (note_for ''r1'')) = ''r1''" by (simp add: note_for_def)
  have w: "client_wants (Forwardable (m\<lparr>mg_runs := sy_runs s\<rparr>)) (NotificationValue (Some (note_for ''r1'')))
       (NewCacheClient ''kafka'' True 1) = Done True"
    using s t by (simp add: client_wants_def NewCacheClient_def leaf_target_def leaf_notification_def
        Forwardable_def m(2) conn_at_def)
  have "\<exists>r \<in> set (sy_runs s). owns_target r ''r1''"
    using updates_leave_through_owner [OF reach counter_semaphore_ok refl, of "note_for ''r1''"
        "NewCacheClient ''kafka'' True 1"] w t
    by (simp add: NewCacheClient_def)
  with reach w show ?thesis by blast
qed

end
